(* ===== verification/Prelude.thy ===== *)
theory Prelude
  imports Main "HOL-Library.Multiset"
begin

text \<open>
  Shared vocabulary of the gateway model: 64-bit signed wrap-around, Go's
  \<open>time.Time\<close> and \<open>time.Duration\<close>, and the generic list and map lemmas that the
  component theories use.

  A Go \<open>int\<close> or \<open>int64\<close> is an \<open>int\<close>; where a sum of externally supplied values can
  overflow, the definition applies \<open>wrap64\<close>.  An instant is an \<open>int\<close> that counts
  nanoseconds from Go's zero time, so that \<open>IsZero\<close> is equality with 0; a duration is
  an \<open>int\<close> that counts nanoseconds.
\<close>

named_theorems gw_simps \<open>characteristic equations of the gateway's small operations\<close>

section \<open>Signed 64-bit integers\<close>

definition wrap64 :: "int \<Rightarrow> int" where
  "wrap64 x = (x + 2 ^ 63) mod 2 ^ 64 - 2 ^ 63"

definition int64_ok :: "int \<Rightarrow> bool" where
  "int64_ok x \<longleftrightarrow> - (2 ^ 63) \<le> x \<and> x < 2 ^ 63"

lemma wrap64_range [simp, intro]: "int64_ok (wrap64 x)"
proof -
  have "0 \<le> (x + 2 ^ 63) mod 2 ^ 64" and "(x + 2 ^ 63) mod 2 ^ 64 < (2 ^ 64 :: int)"
    by simp_all
  then show ?thesis by (simp add: wrap64_def int64_ok_def)
qed

lemma wrap64_id [simp]: "int64_ok x \<Longrightarrow> wrap64 x = x"
  by (simp add: wrap64_def int64_ok_def)

lemma wrap64_add_left [simp]: "wrap64 (wrap64 a + b) = wrap64 (a + b)"
proof -
  have "(wrap64 a + b + 2 ^ 63) mod 2 ^ 64 = ((a + 2 ^ 63) mod 2 ^ 64 + b) mod (2 ^ 64 :: int)"
    by (simp add: wrap64_def)
  also have "\<dots> = (a + 2 ^ 63 + b) mod 2 ^ 64"
    by (rule mod_add_left_eq)
  also have "a + 2 ^ 63 + b = a + b + 2 ^ 63"
    by (simp add: add.commute add.left_commute)
  finally show ?thesis by (simp only: wrap64_def)
qed

lemma wrap64_add_right [simp]: "wrap64 (a + wrap64 b) = wrap64 (a + b)"
  using wrap64_add_left [of b a] by (simp add: add.commute)

lemma wrap64_0 [simp]: "wrap64 0 = 0"
  by (simp add: int64_ok_def)

lemma wrap64_small: "0 \<le> x \<Longrightarrow> x \<le> 2 ^ 53 \<Longrightarrow> wrap64 x = x"
  by (simp add: int64_ok_def)

section \<open>Instants and durations\<close>

type_synonym time = int
type_synonym duration = int

abbreviation millisecond :: duration where "millisecond \<equiv> 1000000"
abbreviation second :: duration where "second \<equiv> 1000000000"

definition is_zero_time :: "time \<Rightarrow> bool" where
  "is_zero_time t \<longleftrightarrow> t = 0"

text \<open>\<open>Time.Sub\<close> saturates at the largest and the smallest \<open>Duration\<close>.\<close>

definition time_sub :: "time \<Rightarrow> time \<Rightarrow> duration" where
  "time_sub t u =
     (if t - u < - (2 ^ 63) then - (2 ^ 63)
      else if t - u > 2 ^ 63 - 1 then 2 ^ 63 - 1
      else t - u)"

lemma time_sub_self [simp]: "time_sub t t = 0"
  by (simp add: time_sub_def)

lemma time_sub_mono: "t \<le> t' \<Longrightarrow> time_sub t u \<le> time_sub t' u"
  by (simp add: time_sub_def)

lemma time_sub_nonneg: "u \<le> t \<Longrightarrow> 0 \<le> time_sub t u"
  by (simp add: time_sub_def)

lemma time_sub_exact: "int64_ok (t - u) \<Longrightarrow> time_sub t u = t - u"
  by (simp add: time_sub_def int64_ok_def)

lemma time_sub_ge_iff:
  "- (2 ^ 63) < d \<Longrightarrow> d < 2 ^ 63 \<Longrightarrow> d \<le> time_sub t u \<longleftrightarrow> d \<le> t - u"
  by (auto simp: time_sub_def)

text \<open>\<open>Duration.Milliseconds\<close> divides by 1000000 and truncates towards zero.\<close>

definition duration_ms :: "duration \<Rightarrow> int" where
  "duration_ms d = (if d < 0 then - ((- d) div 1000000) else d div 1000000)"

lemma duration_ms_nonneg: "0 \<le> d \<Longrightarrow> 0 \<le> duration_ms d"
  by (simp add: duration_ms_def pos_imp_zdiv_nonneg_iff)

section \<open>Generic lemmas\<close>

text \<open>Deleting the element at a valid index takes exactly that element out of the multiset.\<close>

lemma mset_delete_nth:
  "i < length xs \<Longrightarrow> add_mset (xs ! i) (mset (take i xs @ drop (Suc i) xs)) = mset xs"
  by (metis id_take_nth_drop mset.simps(2) mset_append union_mset_add_mset_right)

lemma length_delete_nth:
  "i < length xs \<Longrightarrow> length (take i xs @ drop (Suc i) xs) = length xs - 1"
  by simp

end
