(* ===== verification/GoStrings.thy ===== *)
theory GoStrings
  imports Prelude
begin

text \<open>
  The part of Go's \<open>strings\<close>, \<open>strconv\<close> and \<open>unicode/utf8\<close> packages that the gateway
  uses.  A Go string is a sequence of bytes, which is HOL's \<open>string\<close>.  \<open>to_lower\<close> lowers
  the ASCII letters and leaves every other byte alone; \<open>trim_space\<close> knows every code
  point that \<open>unicode.IsSpace\<close> accepts, in its UTF-8 encoding.
\<close>

section \<open>Trimming\<close>

text \<open>The UTF-8 encodings of the white space of \<open>unicode.IsSpace\<close>.\<close>

definition space_seqs :: "string list" where
  "space_seqs =
     [[CHR 0x20], [CHR 0x09], [CHR 0x0A], [CHR 0x0B], [CHR 0x0C], [CHR 0x0D],
      [CHR 0xC2, CHR 0x85], [CHR 0xC2, CHR 0xA0],
      [CHR 0xE1, CHR 0x9A, CHR 0x80],
      [CHR 0xE2, CHR 0x80, CHR 0x80], [CHR 0xE2, CHR 0x80, CHR 0x81],
      [CHR 0xE2, CHR 0x80, CHR 0x82], [CHR 0xE2, CHR 0x80, CHR 0x83],
      [CHR 0xE2, CHR 0x80, CHR 0x84], [CHR 0xE2, CHR 0x80, CHR 0x85],
      [CHR 0xE2, CHR 0x80, CHR 0x86], [CHR 0xE2, CHR 0x80, CHR 0x87],
      [CHR 0xE2, CHR 0x80, CHR 0x88], [CHR 0xE2, CHR 0x80, CHR 0x89],
      [CHR 0xE2, CHR 0x80, CHR 0x8A], [CHR 0xE2, CHR 0x80, CHR 0xA8],
      [CHR 0xE2, CHR 0x80, CHR 0xA9], [CHR 0xE2, CHR 0x80, CHR 0xAF],
      [CHR 0xE2, CHR 0x81, CHR 0x9F], [CHR 0xE3, CHR 0x80, CHR 0x80]]"

definition has_prefix :: "string \<Rightarrow> string \<Rightarrow> bool" where
  "has_prefix s p \<longleftrightarrow> take (length p) s = p"

fun strip_front :: "string list \<Rightarrow> nat \<Rightarrow> string \<Rightarrow> string" where
  "strip_front seqs 0 s = s"
| "strip_front seqs (Suc n) s =
     (case find (has_prefix s) seqs of
        None \<Rightarrow> s
      | Some p \<Rightarrow> strip_front seqs n (drop (length p) s))"

text \<open>The second argument bounds the number of strips; the length of the string is enough.\<close>

definition trim_left :: "string \<Rightarrow> string" where
  "trim_left s = strip_front space_seqs (length s) s"

definition trim_right :: "string \<Rightarrow> string" where
  "trim_right s = rev (strip_front (map rev space_seqs) (length s) (rev s))"

definition trim_space :: "string \<Rightarrow> string" where
  "trim_space s = trim_right (trim_left s)"

lemma has_prefix_append [simp]: "has_prefix (p @ s) p"
  by (simp add: has_prefix_def)

lemma has_prefix_iff: "has_prefix s p \<longleftrightarrow> (\<exists>r. s = p @ r)"
  by (metis append_take_drop_id has_prefix_append has_prefix_def)

lemma has_prefix_trans: "has_prefix s t \<Longrightarrow> has_prefix t p \<Longrightarrow> has_prefix s p"
  by (auto simp: has_prefix_iff)

lemma strip_front_suffix: "\<exists>p. s = p @ strip_front seqs n s"
proof (induction n arbitrary: s)
  case 0
  then show ?case by simp
next
  case (Suc n)
  show ?case
  proof (cases "find (has_prefix s) seqs")
    case None
    then show ?thesis by simp
  next
    case (Some p)
    obtain q where "drop (length p) s = q @ strip_front seqs n (drop (length p) s)"
      using Suc.IH by blast
    then have "s = (take (length p) s @ q) @ strip_front seqs n (drop (length p) s)"
      by (metis append.assoc append_take_drop_id)
    with Some show ?thesis by (metis option.simps(5) strip_front.simps(2))
  qed
qed

lemma strip_front_stripped:
  assumes "[] \<notin> set seqs" and "length s \<le> n"
  shows "\<not> (\<exists>p \<in> set seqs. has_prefix (strip_front seqs n s) p)"
  using assms(2)
proof (induction n arbitrary: s)
  case 0
  then show ?case using assms(1) by (auto simp: has_prefix_def)
next
  case (Suc n)
  show ?case
  proof (cases "find (has_prefix s) seqs")
    case None
    moreover have "\<not> (\<exists>p \<in> set seqs. has_prefix s p)"
      using None by (auto simp: find_None_iff)
    ultimately show ?thesis by simp
  next
    case (Some p)
    then have p: "p \<in> set seqs" "has_prefix s p"
      by (auto simp: find_Some_iff)
    then have "p \<noteq> []" using assms(1) by auto
    then have "length (drop (length p) s) \<le> n"
      using Suc.prems by (cases p) auto
    from Suc.IH [OF this] Some show ?thesis by simp
  qed
qed

lemma strip_front_id:
  "\<not> (\<exists>p \<in> set seqs. has_prefix s p) \<Longrightarrow> strip_front seqs n s = s"
  by (cases n) (auto split: option.split simp: find_Some_iff)

lemma strip_front_fuel:
  assumes "[] \<notin> set seqs" and "length s \<le> n"
  shows "strip_front seqs n s = strip_front seqs (length s) s"
  using assms(2)
proof (induction "length s" arbitrary: s n rule: less_induct)
  case less
  show ?case
  proof (cases "find (has_prefix s) seqs")
    case None
    then show ?thesis by (cases n; cases "length s") auto
  next
    case (Some p)
    then have p: "p \<in> set seqs" "has_prefix s p" by (auto simp: find_Some_iff)
    with assms(1) have "p \<noteq> []" "s \<noteq> []" by (auto simp: has_prefix_def)
    then obtain k l where kl: "n = Suc k" "length s = Suc l"
      using less.prems by (cases n; cases "length s") auto
    let ?r = "drop (length p) s"
    have "length ?r < length s" "length ?r \<le> k" "length ?r \<le> l"
      using \<open>p \<noteq> []\<close> \<open>s \<noteq> []\<close> kl less.prems by (cases p, auto)+
    then have "strip_front seqs k ?r = strip_front seqs l ?r"
      using less.hyps [of ?r k] less.hyps [of ?r l] by simp
    with Some kl show ?thesis by simp
  qed
qed

lemma nil_notin_space_seqs [simp]: "[] \<notin> set space_seqs" "[] \<notin> rev ` set space_seqs"
  by (auto simp: space_seqs_def)

definition trimmed :: "string \<Rightarrow> bool" where
  "trimmed s \<longleftrightarrow>
     \<not> (\<exists>p \<in> set space_seqs. has_prefix s p) \<and>
     \<not> (\<exists>p \<in> set space_seqs. has_prefix (rev s) (rev p))"

lemma trim_space_trimmed [simp]: "trimmed (trim_space s)"
proof -
  let ?t = "trim_left s"
  obtain q where q: "rev ?t = q @ rev (trim_right ?t)"
    using strip_front_suffix [of "rev ?t" "map rev space_seqs" "length ?t"]
    by (auto simp: trim_right_def)
  have t: "?t = trim_right ?t @ rev q"
    using arg_cong [OF q, of rev] by simp
  have l: "\<not> (\<exists>p \<in> set space_seqs. has_prefix ?t p)"
    unfolding trim_left_def by (rule strip_front_stripped) simp_all
  then have "\<not> (\<exists>p \<in> set space_seqs. has_prefix (trim_right ?t) p)"
    using t by (metis has_prefix_append has_prefix_trans)
  moreover have "\<not> (\<exists>p \<in> set (map rev space_seqs). has_prefix (rev (trim_right ?t)) p)"
    unfolding trim_right_def rev_rev_ident by (rule strip_front_stripped) simp_all
  ultimately show ?thesis
    by (simp add: trimmed_def trim_space_def)
qed

lemma trim_space_id: "trimmed s \<Longrightarrow> trim_space s = s"
  by (simp add: trimmed_def trim_space_def trim_left_def trim_right_def strip_front_id)

lemma trim_space_idem [simp]: "trim_space (trim_space s) = trim_space s"
  by (rule trim_space_id) simp

lemma trim_space_Nil [simp]: "trim_space [] = []"
  by (simp add: trim_space_def trim_left_def trim_right_def)

text \<open>\<open>strings.TrimRight(s, cut)\<close> for a one-character cut set.\<close>

definition trim_right_char :: "char \<Rightarrow> string \<Rightarrow> string" where
  "trim_right_char c s = rev (dropWhile (\<lambda>x. x = c) (rev s))"

section \<open>Case, search and splitting\<close>

definition to_lower_char :: "char \<Rightarrow> char" where
  "to_lower_char c =
     (let n = of_char c :: nat in if 65 \<le> n \<and> n \<le> 90 then char_of (n + 32) else c)"

definition to_lower :: "string \<Rightarrow> string" where
  "to_lower s = map to_lower_char s"

lemma to_lower_char_idem [simp]: "to_lower_char (to_lower_char c) = to_lower_char c"
  by (auto simp: to_lower_char_def Let_def)

lemma to_lower_idem [simp]: "to_lower (to_lower s) = to_lower s"
  by (simp add: to_lower_def comp_def)

lemma to_lower_Nil [simp]: "to_lower s = [] \<longleftrightarrow> s = []" "to_lower [] = []"
  by (simp_all add: to_lower_def)

fun contains :: "string \<Rightarrow> string \<Rightarrow> bool" where
  "contains [] p \<longleftrightarrow> p = []"
| "contains (c # s) p \<longleftrightarrow> has_prefix (c # s) p \<or> contains s p"

lemma contains_iff: "contains s p \<longleftrightarrow> (\<exists>a b. s = a @ p @ b)"
proof (induction s)
  case Nil
  then show ?case by simp
next
  case (Cons c s)
  show ?case
    unfolding contains.simps Cons.IH has_prefix_iff
    by (metis append_Cons append_Nil append_eq_Cons_conv)
qed

text \<open>
  \<open>strings.SplitN(s, " ", 2)\<close>: the text before the first separator and the text after
  it, or the whole string when there is no separator.
\<close>

fun split_once :: "char \<Rightarrow> string \<Rightarrow> string list" where
  "split_once c [] = [[]]"
| "split_once c (x # s) =
     (if x = c then [[], s]
      else case split_once c s of
             [a, b] \<Rightarrow> [x # a, b]
           | _ \<Rightarrow> [x # s])"

lemma split_once_notin: "c \<notin> set s \<Longrightarrow> split_once c s = [s]"
  by (induction s) auto

lemma split_once_in: "c \<notin> set a \<Longrightarrow> split_once c (a @ c # b) = [a, b]"
  by (induction a) auto

lemma split_once_cases:
  "(c \<notin> set s \<and> split_once c s = [s]) \<or>
   (\<exists>a b. c \<notin> set a \<and> s = a @ c # b \<and> split_once c s = [a, b])"
proof (cases "c \<in> set s")
  case True
  then obtain a b where "s = a @ c # b" "c \<notin> set a"
    by (meson split_list_first)
  then show ?thesis by (metis split_once_in)
next
  case False
  then show ?thesis by (simp add: split_once_notin)
qed

section \<open>Decimal numbers\<close>

definition digit_char :: "nat \<Rightarrow> char" where
  "digit_char d = char_of (48 + d)"

fun nat_digits :: "nat \<Rightarrow> string" where
  "nat_digits n = (if n < 10 then [digit_char n] else nat_digits (n div 10) @ [digit_char (n mod 10)])"

declare nat_digits.simps [simp del]

text \<open>\<open>strconv.Itoa\<close> and the verb \<open>%d\<close>.\<close>

definition itoa :: "int \<Rightarrow> string" where
  "itoa i = (if i < 0 then CHR ''-'' # nat_digits (nat (- i)) else nat_digits (nat i))"

section \<open>Trimming and letters\<close>

text \<open>A byte that occurs in no white-space sequence survives trimming.\<close>

lemma strip_front_keeps:
  "c \<in> set s \<Longrightarrow> \<forall>p \<in> set seqs. c \<notin> set p \<Longrightarrow> c \<in> set (strip_front seqs n s)"
proof (induction n arbitrary: s)
  case (Suc n)
  show ?case
  proof (cases "find (has_prefix s) seqs")
    case (Some p)
    then have "p \<in> set seqs" "has_prefix s p" by (auto simp: find_Some_iff)
    then have "c \<notin> set p" "s = p @ drop (length p) s"
      using Suc.prems(2) by (auto simp: has_prefix_iff)
    then have "c \<in> set (drop (length p) s)"
      using Suc.prems(1) by (metis Un_iff set_append)
    then show ?thesis using Suc.IH Suc.prems(2) Some by simp
  qed (use Suc.prems in simp)
qed simp

definition space_byte :: "char \<Rightarrow> bool" where
  "space_byte c \<longleftrightarrow> (\<exists>p \<in> set space_seqs. c \<in> set p)"

lemma trim_space_keeps: "c \<in> set s \<Longrightarrow> \<not> space_byte c \<Longrightarrow> c \<in> set (trim_space s)"
  unfolding trim_space_def trim_right_def trim_left_def space_byte_def
  by (simp add: strip_front_keeps)

lemma trim_space_nonempty: "c \<in> set s \<Longrightarrow> \<not> space_byte c \<Longrightarrow> trim_space s \<noteq> []"
  using trim_space_keeps [of c s] by auto

text \<open>Lowering a trimmed string leaves it trimmed.\<close>

lemma to_lower_char_eq:
  "to_lower_char c = d \<Longrightarrow> of_char d < (97 :: nat) \<or> 122 < (of_char d :: nat) \<Longrightarrow> c = d"
  by (auto simp: to_lower_char_def Let_def split: if_splits)

lemma space_seqs_bytes: "p \<in> set space_seqs \<Longrightarrow> d \<in> set p \<Longrightarrow> of_char d < (97 :: nat) \<or> 122 < (of_char d :: nat)"
  by (auto simp: space_seqs_def)

lemma has_prefix_lower:
  assumes "has_prefix (map to_lower_char s) p"
    and "\<And>d. d \<in> set p \<Longrightarrow> of_char d < (97 :: nat) \<or> 122 < (of_char d :: nat)"
  shows "has_prefix s p"
proof -
  have t: "map to_lower_char (take (length p) s) = p"
    using assms(1) by (simp add: has_prefix_def take_map)
  have "take (length p) s ! i = p ! i" if "i < length p" for i
  proof -
    have "i < length (take (length p) s)" using t that by (metis length_map)
    then have "to_lower_char (take (length p) s ! i) = p ! i" using t by (metis nth_map)
    then show ?thesis using to_lower_char_eq assms(2) that nth_mem by blast
  qed
  then have "take (length p) s = p" using t by (metis length_map nth_equalityI)
  then show ?thesis by (simp add: has_prefix_def)
qed

lemma trimmed_to_lower: "trimmed s \<Longrightarrow> trimmed (to_lower s)"
  unfolding trimmed_def to_lower_def rev_map
  using has_prefix_lower space_seqs_bytes by (metis set_rev)

lemma trim_space_to_lower [simp]: "trim_space (to_lower (trim_space s)) = to_lower (trim_space s)"
  by (intro trim_space_id trimmed_to_lower trim_space_trimmed)

end
