(* ===== verification/Float64.thy ===== *)
theory Float64
  imports Complex_Main Prelude "HOL-Library.Log_Nat"
begin

text \<open>
  Go's \<open>float64\<close>: IEEE 754 binary64 with round-to-nearest, ties-to-even.  A finite value is
  the rational number it denotes; every arithmetic operation is the exact rational result
  rounded to 53 significant bits, with the exponent range and the overflow to infinity of
  the format.  The two zeros are one value (no operation of the gateway tells them apart:
  each division tests its divisor against zero first), and there is one NaN.
\<close>

section \<open>Rounding\<close>

text \<open>The binary exponent of a non-zero rational: the largest power of two not above it.\<close>

definition flog2 :: "rat \<Rightarrow> int" where
  "flog2 x =
     (case quotient_of \<bar>x\<bar> of (p, q) \<Rightarrow>
        let k = bitlen p - bitlen q in if 2 powi k \<le> \<bar>x\<bar> then k else k - 1)"

definition round_even :: "rat \<Rightarrow> int" where
  "round_even y =
     (let r = \<lfloor>y\<rfloor>; d = y - of_int r
      in if d < 1 / 2 then r else if 1 / 2 < d then r + 1 else if even r then r else r + 1)"

text \<open>The exponent of the last place; it stops at the smallest subnormal number.\<close>

definition ulp_exp :: "rat \<Rightarrow> int" where
  "ulp_exp x = max (flog2 x - 52) (- 1074)"

definition round_rat :: "rat \<Rightarrow> rat" where
  "round_rat x =
     (if x = 0 then 0
      else let u = 2 powi ulp_exp x in of_int (round_even (x / u)) * u)"

datatype f64 = NaN | PInf | NInf | Fin rat

text \<open>A rounded value of exponent 1024 or more overflows.\<close>

definition rnd :: "rat \<Rightarrow> f64" where
  "rnd x =
     (let v = round_rat x
      in if v \<noteq> 0 \<and> 1024 \<le> flog2 v then (if 0 < v then PInf else NInf) else Fin v)"

section \<open>Arithmetic and comparison\<close>

fun f64_sign :: "f64 \<Rightarrow> rat" where
  "f64_sign NaN = 0"
| "f64_sign PInf = 1"
| "f64_sign NInf = -1"
| "f64_sign (Fin x) = sgn x"

text \<open>The infinity of a sign; NaN for the product or quotient that has none.\<close>

definition f64_inf :: "rat \<Rightarrow> f64" where
  "f64_inf s = (if 0 < s then PInf else if s < 0 then NInf else NaN)"

instantiation f64 :: "{zero, one, plus, minus, uminus, times, inverse, ord}"
begin

definition "zero_f64 = Fin 0"
definition "one_f64 = Fin 1"

fun uminus_f64 :: "f64 \<Rightarrow> f64" where
  "- NaN = NaN"
| "- PInf = NInf"
| "- NInf = PInf"
| "- Fin x = Fin (- x)"

fun plus_f64 :: "f64 \<Rightarrow> f64 \<Rightarrow> f64" where
  "NaN + y = NaN"
| "x + NaN = NaN"
| "PInf + NInf = NaN"
| "NInf + PInf = NaN"
| "PInf + y = PInf"
| "NInf + y = NInf"
| "x + PInf = PInf"
| "x + NInf = NInf"
| "Fin x + Fin y = rnd (x + y)"

definition minus_f64 :: "f64 \<Rightarrow> f64 \<Rightarrow> f64" where
  "minus_f64 x y = x + (- y)"

fun times_f64 :: "f64 \<Rightarrow> f64 \<Rightarrow> f64" where
  "NaN * y = NaN"
| "x * NaN = NaN"
| "Fin x * Fin y = rnd (x * y)"
| "x * y = f64_inf (f64_sign x * f64_sign y)"

fun divide_f64 :: "f64 \<Rightarrow> f64 \<Rightarrow> f64" where
  "divide_f64 NaN y = NaN"
| "divide_f64 x NaN = NaN"
| "divide_f64 (Fin x) (Fin y) = (if y = 0 then f64_inf (sgn x) else rnd (x / y))"
| "divide_f64 (Fin x) y = Fin 0"
| "divide_f64 x (Fin y) = f64_inf (f64_sign x * (if y < 0 then - 1 else 1))"
| "divide_f64 x y = NaN"

definition inverse_f64 :: "f64 \<Rightarrow> f64" where
  "inverse_f64 x = divide (Fin 1) x"

fun less_eq_f64 :: "f64 \<Rightarrow> f64 \<Rightarrow> bool" where
  "NaN \<le> y \<longleftrightarrow> False"
| "x \<le> NaN \<longleftrightarrow> False"
| "NInf \<le> y \<longleftrightarrow> True"
| "x \<le> PInf \<longleftrightarrow> True"
| "PInf \<le> y \<longleftrightarrow> False"
| "x \<le> NInf \<longleftrightarrow> False"
| "Fin x \<le> Fin y \<longleftrightarrow> x \<le> y"

fun less_f64 :: "f64 \<Rightarrow> f64 \<Rightarrow> bool" where
  "NaN < y \<longleftrightarrow> False"
| "x < NaN \<longleftrightarrow> False"
| "PInf < y \<longleftrightarrow> False"
| "x < NInf \<longleftrightarrow> False"
| "NInf < y \<longleftrightarrow> True"
| "x < PInf \<longleftrightarrow> True"
| "Fin x < Fin y \<longleftrightarrow> x < y"

instance ..

end

text \<open>IEEE equality: Go's \<open>==\<close> on \<open>float64\<close>.\<close>

definition f64_eq :: "f64 \<Rightarrow> f64 \<Rightarrow> bool" where
  "f64_eq x y \<longleftrightarrow> x \<noteq> NaN \<and> x = y"

text \<open>The conversion \<open>float64(n)\<close> of an integer and the rounding of a constant.\<close>

definition f64_of_int :: "int \<Rightarrow> f64" where
  "f64_of_int n = rnd (of_int n)"

text \<open>
  \<open>math.Sqrt\<close>, correctly rounded.  The root of a finite positive value is never subnormal,
  so its last place is 52 bits below its exponent; a tie cannot occur.
\<close>

fun isqrt :: "nat \<Rightarrow> nat" where
  "isqrt n =
     (if n = 0 then 0
      else let r = 2 * isqrt (n div 4) in if (r + 1) * (r + 1) \<le> n then r + 1 else r)"

declare isqrt.simps [simp del]

fun f64_sqrt :: "f64 \<Rightarrow> f64" where
  "f64_sqrt NaN = NaN"
| "f64_sqrt PInf = PInf"
| "f64_sqrt NInf = NaN"
| "f64_sqrt (Fin x) =
     (if x < 0 then NaN
      else if x = 0 then Fin 0
      else let u = 2 powi (flog2 x div 2 - 52);
               y = x / (u * u);
               s = int (isqrt (nat \<lfloor>y\<rfloor>))
           in Fin (of_int (if (2 * of_int s + 1) * (2 * of_int s + 1) < 4 * y then s + 1 else s) * u))"

section \<open>Exponents\<close>

lemma powi_pos [simp]: "0 < (2 :: rat) powi k"
  by simp

lemma powi_le: "j \<le> k \<Longrightarrow> (2 :: rat) powi j \<le> 2 powi k"
  by (rule power_int_increasing) simp_all

lemma powi_lt: "j < k \<Longrightarrow> (2 :: rat) powi j < 2 powi k"
  by (rule power_int_strict_increasing) simp_all

lemma powi_le_iff: "(2 :: rat) powi j \<le> 2 powi k \<longleftrightarrow> j \<le> k"
  using powi_le powi_lt by (metis linorder_not_le)

lemma powi_lt_iff: "(2 :: rat) powi j < 2 powi k \<longleftrightarrow> j < k"
  using powi_le_iff by (metis linorder_not_le)

lemma powi_split: "(2 :: rat) powi (j + k) = 2 powi j * 2 powi k"
  by (simp add: power_int_add)

lemma powi_quot: "(2 :: rat) powi (j - k) = 2 powi j / 2 powi k"
  by (simp add: power_int_diff)

text \<open>A power of two is a whole multiple of a smaller one.\<close>

lemma powi_multiple: "k \<le> j \<Longrightarrow> \<exists>m. (2 :: rat) powi j = of_int m * 2 powi k"
proof -
  assume "k \<le> j"
  then have "(2 :: rat) powi (j - k) = of_int (2 ^ nat (j - k))"
    by (simp add: power_int_nonneg_exp)
  moreover have "(2 :: rat) powi j = 2 powi (j - k) * 2 powi k"
    using powi_split [of "j - k" k] by simp
  ultimately show ?thesis by metis
qed

lemma bitlen_powi:
  assumes "0 < p"
  shows "2 powi (bitlen p - 1) \<le> (of_int p :: rat)" and "(of_int p :: rat) < 2 powi (bitlen p)"
proof -
  have b: "1 \<le> bitlen p" using assms by (simp add: bitlen_alt_def)
  have lo: "of_int (2 ^ nat (bitlen p - 1)) \<le> (of_int p :: rat)"
    and hi: "of_int p < (of_int (2 ^ nat (bitlen p)) :: rat)"
    using bitlen_bounds [OF assms] by (simp_all only: of_int_le_iff of_int_less_iff)
  show "2 powi (bitlen p - 1) \<le> (of_int p :: rat)"
    using lo b by (simp add: power_int_nonneg_exp)
  show "(of_int p :: rat) < 2 powi (bitlen p)"
    using hi b by (simp add: power_int_nonneg_exp)
qed

lemma flog2_bounds:
  assumes "x \<noteq> 0"
  shows "2 powi flog2 x \<le> \<bar>x\<bar>" and "\<bar>x\<bar> < 2 powi (flog2 x + 1)"
proof -
  obtain p q where pq: "quotient_of \<bar>x\<bar> = (p, q)" by fastforce
  have q: "0 < q" using quotient_of_denom_pos [OF pq] .
  have x: "\<bar>x\<bar> = of_int p / of_int q" using quotient_of_div [OF pq] .
  have "0 < \<bar>x\<bar>" using assms by simp
  then have p: "0 < p" using x q by (simp add: zero_less_divide_iff)
  let ?k = "bitlen p - bitlen q"
  have "\<bar>x\<bar> < 2 powi (bitlen p) / 2 powi (bitlen q - 1)"
    unfolding x using bitlen_powi [OF p] bitlen_powi [OF q] p q
    by (intro frac_less) simp_all
  also have "\<dots> = 2 powi (?k + 1)"
    by (simp flip: powi_quot add: algebra_simps)
  finally have hi: "\<bar>x\<bar> < 2 powi (?k + 1)" .
  have "2 powi (?k - 1) = 2 powi (bitlen p - 1) / (2 powi (bitlen q) :: rat)"
    by (simp flip: powi_quot add: algebra_simps)
  also have "\<dots> \<le> \<bar>x\<bar>"
    unfolding x using bitlen_powi [OF p] bitlen_powi [OF q] p q
    by (intro frac_le) simp_all
  finally have lo: "2 powi (?k - 1) \<le> \<bar>x\<bar>" .
  have f: "flog2 x = (if 2 powi ?k \<le> \<bar>x\<bar> then ?k else ?k - 1)"
    by (simp add: flog2_def pq Let_def)
  show "2 powi flog2 x \<le> \<bar>x\<bar>" using f lo by simp
  show "\<bar>x\<bar> < 2 powi (flog2 x + 1)" using f hi by simp
qed

lemma flog2_minus [simp]: "flog2 (- x) = flog2 x"
  by (simp add: flog2_def)

lemma flog2_mono:
  assumes "x \<noteq> 0" and "\<bar>x\<bar> \<le> \<bar>y\<bar>"
  shows "flog2 x \<le> flog2 y"
proof -
  have "y \<noteq> 0" using assms by auto
  have "2 powi flog2 x < (2 :: rat) powi (flog2 y + 1)"
    using flog2_bounds(1) [OF assms(1)] flog2_bounds(2) [OF \<open>y \<noteq> 0\<close>] assms(2) by linarith
  then show ?thesis by (simp add: powi_lt_iff)
qed

section \<open>Rounding to an integer\<close>

lemma round_even_of_int [simp]: "round_even (of_int n) = n"
  by (simp add: round_even_def)

lemma round_even_near: "\<bar>of_int (round_even y) - y\<bar> \<le> 1 / 2"
proof -
  have "of_int \<lfloor>y\<rfloor> \<le> y" and "y < of_int \<lfloor>y\<rfloor> + 1" by linarith+
  then show ?thesis by (simp add: round_even_def Let_def)
qed

lemma round_even_mono: "x \<le> y \<Longrightarrow> round_even x \<le> round_even y"
proof -
  assume xy: "x \<le> y"
  show ?thesis
  proof (cases "\<lfloor>x\<rfloor> = \<lfloor>y\<rfloor>")
    case True
    then show ?thesis using xy by (auto simp: round_even_def Let_def)
  next
    case False
    then have "\<lfloor>x\<rfloor> + 1 \<le> \<lfloor>y\<rfloor>" using floor_mono [OF xy] by linarith
    moreover have "round_even x \<le> \<lfloor>x\<rfloor> + 1" and "\<lfloor>y\<rfloor> \<le> round_even y"
      by (simp_all add: round_even_def Let_def)
    ultimately show ?thesis by linarith
  qed
qed

lemma round_even_minus: "round_even (- y) = - round_even y"
proof -
  have fl: "\<lfloor>- y\<rfloor> = (if of_int \<lfloor>y\<rfloor> = y then - \<lfloor>y\<rfloor> else - \<lfloor>y\<rfloor> - 1)"
  proof (cases "of_int \<lfloor>y\<rfloor> = y")
    case True
    then show ?thesis by (metis floor_of_int of_int_minus)
  next
    case False
    have "of_int \<lfloor>y\<rfloor> < y" using False by (metis floor_correct order_le_less)
    then have "\<lfloor>- y\<rfloor> = - \<lfloor>y\<rfloor> - 1"
      using floor_correct [of y] by (intro floor_unique) simp_all
    with False show ?thesis by simp
  qed
  show ?thesis
  proof (cases "of_int \<lfloor>y\<rfloor> = y")
    case True
    then show ?thesis by (metis of_int_minus round_even_of_int)
  next
    case False
    have d: "- y - of_int \<lfloor>- y\<rfloor> = 1 - (y - of_int \<lfloor>y\<rfloor>)" using fl False by simp
    show ?thesis
      unfolding round_even_def Let_def d using fl False by auto
  qed
qed

section \<open>Rounding to the format\<close>

lemma round_rat_0 [simp]: "round_rat 0 = 0"
  by (simp add: round_rat_def)

lemma round_rat_minus: "round_rat (- x) = - round_rat x"
  by (simp add: round_rat_def ulp_exp_def round_even_minus Let_def)

lemma round_rat_le_multiple:
  assumes "x \<le> of_int m * 2 powi ulp_exp x"
  shows "round_rat x \<le> of_int m * 2 powi ulp_exp x"
proof (cases "x = 0")
  case True
  then show ?thesis using assms by simp
next
  case False
  let ?u = "2 powi ulp_exp x :: rat"
  have "x / ?u \<le> of_int m" using assms by (simp add: pos_divide_le_eq)
  then have "round_even (x / ?u) \<le> m" using round_even_mono by fastforce
  then have "of_int (round_even (x / ?u)) \<le> (of_int m :: rat)" by simp
  then have "of_int (round_even (x / ?u)) * ?u \<le> of_int m * ?u"
    by (rule mult_right_mono) simp
  then show ?thesis using False by (simp add: round_rat_def Let_def)
qed

lemma round_rat_ge_multiple:
  assumes "of_int m * 2 powi ulp_exp x \<le> x"
  shows "of_int m * 2 powi ulp_exp x \<le> round_rat x"
proof -
  have "- x \<le> of_int (- m) * 2 powi ulp_exp (- x)"
    using assms by (simp add: ulp_exp_def)
  from round_rat_le_multiple [OF this] show ?thesis
    by (simp add: ulp_exp_def round_rat_minus)
qed

lemma round_rat_nonneg: "0 \<le> x \<Longrightarrow> 0 \<le> round_rat x"
  using round_rat_ge_multiple [of 0 x] by simp

lemma round_rat_nonpos: "x \<le> 0 \<Longrightarrow> round_rat x \<le> 0"
  using round_rat_le_multiple [of x 0] by simp

lemma round_rat_mono_pos:
  assumes "0 < x" and "x \<le> y"
  shows "round_rat x \<le> round_rat y"
proof (cases "ulp_exp x = ulp_exp y")
  case True
  have "x / 2 powi ulp_exp y \<le> y / 2 powi ulp_exp y"
    using assms by (intro divide_right_mono) simp_all
  then have "round_even (x / 2 powi ulp_exp y) \<le> round_even (y / 2 powi ulp_exp y)"
    by (rule round_even_mono)
  then have "of_int (round_even (x / 2 powi ulp_exp y)) * 2 powi ulp_exp y
      \<le> (of_int (round_even (y / 2 powi ulp_exp y)) * 2 powi ulp_exp y :: rat)"
    by (intro mult_right_mono) simp_all
  then show ?thesis using assms True by (simp add: round_rat_def Let_def)
next
  case False
  have exps: "flog2 x \<le> flog2 y" using assms by (intro flog2_mono) auto
  with False have lt: "flog2 x + 1 \<le> flog2 y" and uy: "ulp_exp y = flog2 y - 52"
    and ux: "ulp_exp x \<le> flog2 y"
    by (auto simp: ulp_exp_def max_def split: if_splits)
  let ?B = "2 powi flog2 y :: rat"
  obtain m where m: "?B = of_int m * 2 powi ulp_exp x"
    using powi_multiple [OF ux] by blast
  obtain n where n: "?B = of_int n * 2 powi ulp_exp y"
    using powi_multiple [of "ulp_exp y" "flog2 y"] uy by auto
  have "x < 2 powi (flog2 x + 1)" using flog2_bounds(2) [of x] assms by simp
  also have "\<dots> \<le> ?B" using lt by (rule powi_le)
  finally have "round_rat x \<le> ?B" using round_rat_le_multiple [of x m] m by simp
  also have "?B \<le> round_rat y"
    using flog2_bounds(1) [of y] assms round_rat_ge_multiple [of n y] n by simp
  finally show ?thesis .
qed

lemma round_rat_mono: "x \<le> y \<Longrightarrow> round_rat x \<le> round_rat y"
proof -
  assume xy: "x \<le> y"
  consider "0 < x" | "x \<le> 0" "0 \<le> y" | "y < 0" by linarith
  then show ?thesis
  proof cases
    case 1
    then show ?thesis using xy by (rule round_rat_mono_pos)
  next
    case 2
    then show ?thesis using round_rat_nonpos round_rat_nonneg by (meson order_trans)
  next
    case 3
    then show ?thesis
      using round_rat_mono_pos [of "- y" "- x"] xy by (simp add: round_rat_minus)
  qed
qed

text \<open>The numbers the format holds are fixed points of rounding.\<close>

definition representable :: "rat \<Rightarrow> bool" where
  "representable x \<longleftrightarrow> (\<exists>m e. x = of_int m * 2 powi e \<and> \<bar>m\<bar> \<le> 2 ^ 53 \<and> - 1074 \<le> e)"

lemma round_rat_multiple:
  "x = of_int m * 2 powi ulp_exp x \<Longrightarrow> round_rat x = x"
  using round_rat_le_multiple [of x m] round_rat_ge_multiple [of m x] by simp

lemma round_rat_multiple_ge:
  assumes "x = of_int m * 2 powi e" and "ulp_exp x \<le> e"
  shows "round_rat x = x"
proof -
  obtain n where "(2 :: rat) powi e = of_int n * 2 powi ulp_exp x"
    using powi_multiple [OF assms(2)] by blast
  then have "x = of_int (m * n) * 2 powi ulp_exp x"
    using assms(1) by (simp add: mult.assoc)
  then show ?thesis by (rule round_rat_multiple)
qed

lemma round_rat_representable:
  assumes "representable x"
  shows "round_rat x = x"
proof -
  obtain m e where x: "x = of_int m * 2 powi e" and m: "\<bar>m\<bar> \<le> 2 ^ 53" and e: "- 1074 \<le> e"
    using assms by (auto simp: representable_def)
  show ?thesis
  proof (cases "m = 0 \<or> \<bar>m\<bar> = 2 ^ 53")
    case True
    then consider "m = 0" | "m = 2 ^ 53" | "m = - (2 ^ 53)" by linarith
    then have "\<exists>k. x = of_int k * 2 powi (e + 53) \<and> \<bar>k\<bar> \<le> 1"
      using powi_split [of 53 e]
      by cases (auto simp: x add.commute intro: exI [of _ 0] exI [of _ 1] exI [of _ "- 1"])
    then obtain k where k: "x = of_int k * 2 powi (e + 53)" "\<bar>k\<bar> \<le> 1" by blast
    show ?thesis
    proof (cases "k = 0")
      case False
      then have "\<bar>x\<bar> = 2 powi (e + 53)" "x \<noteq> 0"
        using k by (auto simp: abs_mult zabs_less_one_iff abs_le_iff)
      then have "flog2 x \<le> e + 53" using flog2_bounds(1) [of x] by (simp add: powi_le_iff)
      then have "ulp_exp x \<le> e + 53" using e by (simp add: ulp_exp_def)
      with k(1) show ?thesis by (rule round_rat_multiple_ge)
    qed (simp add: k)
  next
    case False
    have "of_int \<bar>m\<bar> < (of_int (2 ^ 53) :: rat)"
      unfolding of_int_less_iff using False m by linarith
    then have "\<bar>x\<bar> < 2 ^ 53 * 2 powi e"
      using x by (simp add: abs_mult)
    then have "\<bar>x\<bar> < 2 powi (53 + e)" using powi_split [of 53 e] by simp
    moreover have "x \<noteq> 0" using False x by simp
    ultimately have "2 powi flog2 x < (2 :: rat) powi (53 + e)"
      using flog2_bounds(1) [of x] by linarith
    then have "ulp_exp x \<le> e" using e by (simp add: ulp_exp_def powi_lt_iff)
    with x show ?thesis by (rule round_rat_multiple_ge)
  qed
qed

lemma round_rat_of_int: "\<bar>n\<bar> \<le> 2 ^ 53 \<Longrightarrow> round_rat (of_int n) = of_int n"
  by (rule round_rat_representable) (unfold representable_def, rule exI [of _ n], rule exI [of _ 0], simp)

lemma round_rat_le_of_int: "x \<le> of_int n \<Longrightarrow> \<bar>n\<bar> \<le> 2 ^ 53 \<Longrightarrow> round_rat x \<le> of_int n"
  using round_rat_mono [of x "of_int n"] by (simp add: round_rat_of_int)

lemma round_rat_ge_of_int: "of_int n \<le> x \<Longrightarrow> \<bar>n\<bar> \<le> 2 ^ 53 \<Longrightarrow> of_int n \<le> round_rat x"
  using round_rat_mono [of "of_int n" x] by (simp add: round_rat_of_int)

section \<open>The rounded operations\<close>

definition f64_limit :: rat where
  "f64_limit = 2 powi 1024"

lemma f64_limit_pos: "0 < f64_limit"
  by (simp add: f64_limit_def)

lemma overflow_iff: "v \<noteq> 0 \<and> 1024 \<le> flog2 v \<longleftrightarrow> f64_limit \<le> \<bar>v\<bar>"
proof (cases "v = 0")
  case True
  then show ?thesis using f64_limit_pos by simp
next
  case False
  have "f64_limit \<le> \<bar>v\<bar> \<Longrightarrow> (2 :: rat) powi 1024 < 2 powi (flog2 v + 1)"
    using le_less_trans [OF _ flog2_bounds(2) [OF False]] unfolding f64_limit_def by blast
  moreover have "1024 \<le> flog2 v \<Longrightarrow> f64_limit \<le> \<bar>v\<bar>"
    using flog2_bounds(1) [OF False] powi_le [of 1024 "flog2 v"] unfolding f64_limit_def
    by (meson order_trans)
  ultimately show ?thesis using False unfolding powi_lt_iff by auto
qed

lemma rnd_eq:
  "rnd x = (let v = round_rat x
     in if f64_limit \<le> v then PInf else if v \<le> - f64_limit then NInf else Fin v)"
  unfolding rnd_def Let_def overflow_iff using f64_limit_pos by (auto simp: abs_if)

lemma rnd_cases: "rnd x = PInf \<or> rnd x = NInf \<or> rnd x = Fin (round_rat x)"
  by (simp add: rnd_eq Let_def)

lemma rnd_not_NaN [simp]: "rnd x \<noteq> NaN"
  by (simp add: rnd_eq Let_def)

lemma rnd_finite: "\<bar>round_rat x\<bar> < f64_limit \<Longrightarrow> rnd x = Fin (round_rat x)"
  by (auto simp: rnd_eq Let_def)

lemma rnd_0 [simp]: "rnd 0 = Fin 0"
  by (simp add: rnd_def)

lemma pow53_lt_limit: "(2 ^ 53 :: rat) < f64_limit"
  using powi_lt [of 53 1024] by (simp add: f64_limit_def)

lemma rnd_of_int: "\<bar>n\<bar> \<le> 2 ^ 53 \<Longrightarrow> rnd (of_int n) = Fin (of_int n)"
proof -
  assume n: "\<bar>n\<bar> \<le> 2 ^ 53"
  have "of_int \<bar>n\<bar> \<le> (of_int (2 ^ 53) :: rat)" unfolding of_int_le_iff by (rule n)
  then have "\<bar>of_int n :: rat\<bar> < f64_limit" using pow53_lt_limit by simp
  then show ?thesis using n by (simp add: rnd_finite round_rat_of_int)
qed

lemma f64_of_int_small: "\<bar>n\<bar> \<le> 2 ^ 53 \<Longrightarrow> f64_of_int n = Fin (of_int n)"
  by (simp add: f64_of_int_def rnd_of_int)

lemma f64_le_refl [simp]: "x \<noteq> NaN \<Longrightarrow> (x :: f64) \<le> x"
  by (cases x) simp_all

lemma f64_le_trans: "(x :: f64) \<le> y \<Longrightarrow> y \<le> z \<Longrightarrow> x \<le> z"
  by (cases x; cases y; cases z) auto

lemma f64_le_total: "x \<noteq> NaN \<Longrightarrow> y \<noteq> NaN \<Longrightarrow> (x :: f64) \<le> y \<or> y \<le> x"
  by (cases x; cases y) auto

lemma f64_less_iff: "(x :: f64) < y \<longleftrightarrow> x \<noteq> NaN \<and> y \<noteq> NaN \<and> \<not> y \<le> x"
  by (cases x; cases y) auto

lemma f64_not_NaN_le: "(x :: f64) \<le> y \<Longrightarrow> x \<noteq> NaN \<and> y \<noteq> NaN"
  by (cases x; cases y) auto

lemma rnd_mono: "x \<le> y \<Longrightarrow> rnd x \<le> rnd y"
proof -
  assume "x \<le> y"
  then have "round_rat x \<le> round_rat y" by (rule round_rat_mono)
  then show ?thesis by (auto simp: rnd_eq Let_def)
qed

lemma rnd_nonneg: "0 \<le> x \<Longrightarrow> Fin 0 \<le> rnd x"
  using rnd_mono [of 0 x] by simp

lemma f64_plus_commute: "(x :: f64) + y = y + x"
  by (cases x; cases y) (simp_all add: add.commute)

lemma f64_times_commute: "(x :: f64) * y = y * x"
  by (cases x; cases y) (simp_all add: mult.commute)

lemma f64_plus_nonneg: "Fin 0 \<le> x \<Longrightarrow> Fin 0 \<le> y \<Longrightarrow> Fin 0 \<le> (x + y :: f64)"
  by (cases x; cases y) (auto intro: rnd_nonneg)

text \<open>Rounding stays within whole bounds of at most 53 bits.\<close>

lemma rnd_between:
  assumes "of_int a \<le> x" and "x \<le> of_int b" and "\<bar>a\<bar> \<le> 2 ^ 53" and "\<bar>b\<bar> \<le> 2 ^ 53"
  shows "\<exists>p. rnd x = Fin p \<and> of_int a \<le> p \<and> p \<le> of_int b"
  using rnd_mono [OF assms(1)] rnd_mono [OF assms(2)] rnd_of_int [OF assms(3)] rnd_of_int [OF assms(4)]
  by (cases "rnd x") simp_all

section \<open>The error of rounding\<close>

lemma round_rat_error: "\<bar>round_rat x - x\<bar> \<le> 2 powi ulp_exp x / 2"
proof (cases "x = 0")
  case False
  let ?u = "(2 :: rat) powi ulp_exp x"
  have "round_rat x - x = (of_int (round_even (x / ?u)) - x / ?u) * ?u"
    using False by (simp add: round_rat_def Let_def left_diff_distrib)
  then have "\<bar>round_rat x - x\<bar> = \<bar>of_int (round_even (x / ?u)) - x / ?u\<bar> * ?u"
    by (simp add: abs_mult)
  also have "\<dots> \<le> 1 / 2 * ?u"
    by (rule mult_right_mono [OF round_even_near]) simp
  finally show ?thesis by simp
qed simp

text \<open>Half a unit in the last place of a normal number is its \<open>2 ^ 53\<close>-th part at most.\<close>

lemma round_rat_relative:
  assumes "x = 0 \<or> 2 powi (- 1022) \<le> \<bar>x\<bar>"
  shows "\<bar>round_rat x - x\<bar> \<le> \<bar>x\<bar> / 2 ^ 53"
proof (cases "x = 0")
  case False
  then have "2 powi (- 1022) < (2 :: rat) powi (flog2 x + 1)"
    using assms flog2_bounds(2) [OF False] by linarith
  then have "- 1022 \<le> flog2 x" by (simp only: powi_lt_iff)
  then have u: "ulp_exp x = flog2 x - 52" by (simp add: ulp_exp_def)
  have "(2 :: rat) powi ulp_exp x / 2 = 2 powi flog2 x / 2 ^ 53"
    unfolding u powi_quot by simp
  also have "\<dots> \<le> \<bar>x\<bar> / 2 ^ 53" by (rule divide_right_mono [OF flog2_bounds(1) [OF False]]) simp
  finally show ?thesis using round_rat_error [of x] by linarith
qed simp

text \<open>Below \<open>b\<close> the absolute error is the \<open>2 ^ 53\<close>-th part of \<open>b\<close> at most.\<close>

lemma round_rat_error_below:
  assumes "0 \<le> x" and "x \<le> b" and "1 \<le> b"
  shows "round_rat x \<le> x + b / 2 ^ 53"
proof (cases "x = 0 \<or> 2 powi (- 1022) \<le> x")
  case True
  then have "\<bar>round_rat x - x\<bar> \<le> x / 2 ^ 53" using round_rat_relative [of x] assms(1) by auto
  moreover have "x / 2 ^ 53 \<le> b / 2 ^ 53" by (rule divide_right_mono [OF assms(2)]) simp
  ultimately show ?thesis by linarith
next
  case False
  then have "2 powi flog2 x < (2 :: rat) powi (- 1022)"
    using flog2_bounds(1) [of x] assms(1) by (simp add: not_le)
  then have "flog2 x < - 1022" by (simp only: powi_lt_iff)
  then have "ulp_exp x \<le> - 1022" by (simp add: ulp_exp_def)
  then have "(2 :: rat) powi ulp_exp x \<le> 2 powi (- 1022)" by (rule powi_le)
  also have "\<dots> \<le> 2 powi (- 52)" by (rule powi_le) simp
  finally have "2 powi ulp_exp x / 2 \<le> 1 / (2 ^ 53 :: rat)" by (simp add: power_int_minus field_simps)
  moreover have "1 / 2 ^ 53 \<le> b / 2 ^ 53" using assms(3) by (simp add: divide_right_mono)
  ultimately show ?thesis using round_rat_error [of x] by linarith
qed

abbreviation eps :: rat where "eps \<equiv> 1 / 2 ^ 53"

text \<open>Rounding a normal number or 0, with the relative error on both sides.\<close>

lemma rnd_relative:
  assumes "0 \<le> x" and "x = 0 \<or> 1 / 2 ^ 34 \<le> x" and "x \<le> 2 ^ 100"
  shows "\<exists>y. rnd x = Fin y \<and> 0 \<le> y \<and> x * (1 - eps) \<le> y \<and> y \<le> x * (1 + eps)"
proof -
  have "(2 :: rat) powi (- 1022) \<le> 2 powi (- 34)" by (rule powi_le) simp
  also have "\<dots> = 1 / 2 ^ 34" by (simp add: power_int_minus field_simps)
  finally have e: "\<bar>round_rat x - x\<bar> \<le> x / 2 ^ 53"
    using round_rat_relative [of x] assms(1,2) by auto
  have "x / 2 ^ 53 \<le> x" using assms(1) by simp
  then have "\<bar>round_rat x\<bar> \<le> 2 * x" using e by linarith
  also have "2 * x \<le> 2 * 2 ^ 100" using assms(3) by (rule mult_left_mono) simp
  also have "(2 * 2 ^ 100 :: rat) = 2 ^ 101" by simp
  also have "(2 ^ 101 :: rat) < f64_limit" using powi_lt [of 101 1024] by (simp add: f64_limit_def)
  finally have "rnd x = Fin (round_rat x)" by (rule rnd_finite)
  moreover obtain h where h: "h = x / 2 ^ 53" by blast
  have "x - h \<le> round_rat x" "round_rat x \<le> x + h"
    using e [folded h] by (simp_all add: abs_le_iff)
  moreover have "x * (1 - eps) = x - h" unfolding h by (simp add: right_diff_distrib)
  moreover have "x * (1 + eps) = x + h" unfolding h by (simp add: distrib_left)
  ultimately show ?thesis using round_rat_nonneg [OF assms(1)] by metis
qed

text \<open>Signs.\<close>

lemma f64_of_int_nonneg: "0 \<le> n \<Longrightarrow> Fin 0 \<le> f64_of_int n"
  by (simp add: f64_of_int_def rnd_nonneg)

lemma f64_times_nonneg: "Fin 0 \<le> x \<Longrightarrow> 0 < p \<Longrightarrow> Fin 0 \<le> x * Fin p"
  by (cases x) (auto simp: f64_inf_def intro: rnd_nonneg)

lemma f64_divide_nonneg: "Fin 0 \<le> x \<Longrightarrow> 0 < p \<Longrightarrow> Fin 0 \<le> x / Fin p"
  by (cases x) (auto simp: f64_inf_def intro: rnd_nonneg)

lemma rnd_positive:
  assumes "1 / 2 ^ 33 \<le> x" and "x \<le> 2 ^ 100"
  shows "\<exists>p. rnd x = Fin p \<and> 0 < p"
proof -
  have x: "0 < x" by (rule less_le_trans [OF _ assms(1)]) simp
  obtain y where y: "rnd x = Fin y" "x * (1 - eps) \<le> y"
    using rnd_relative [of x] x assms by auto
  have "0 < x * (1 - eps)" using x by simp
  then have "0 < y" using y(2) by (rule less_le_trans)
  then show ?thesis using y(1) by blast
qed

end
