(* ===== verification/Config.thy ===== *)
theory Config
  imports GoStrings Float64
begin

text \<open>
  \<open>internal/config/config.go\<close>: the configuration structs and \<open>Load\<close>.  Reading the file and
  the YAML decoder are outside the repository; they are arguments of \<open>Load\<close>, as is the
  process environment.  A Go map with string keys is a partial function; where the code
  compares a map with nil, the model has an option.
\<close>

record server_config =
  sc_Host :: string
  sc_Port :: int
  sc_Mode :: string

record logger_config =
  lc_Level :: string
  lc_Format :: string
  lc_OutputPath :: string

record database_config =
  dc_Host :: string
  dc_Port :: int
  dc_User :: string
  dc_Password :: string
  dc_DBName :: string

record redis_config =
  rdc_Address :: string
  rdc_Password :: string
  rdc_DB :: int

record python_worker_config =
  pw_Address :: string
  pw_Timeout :: duration
  pw_RetryMax :: int
  pw_RetryBackoff :: duration
  pw_HealthTTL :: duration

record provider_config =
  pvc_APIKey :: string
  pvc_BaseURL :: string

record providers_config =
  pvs_OpenAI :: provider_config
  pvs_Anthropic :: provider_config
  pvs_MiniMax :: provider_config

record cache_config =
  cc_Enabled :: bool
  cc_SimilarityThreshold :: f64
  cc_TTL :: int
  cc_L1TTL :: int
  cc_MaxCacheSize :: int

record ratelimit_config =
  rl_GlobalQPS :: int
  rl_Burst :: int
  rl_MaxTokens :: int
  rl_ModelLimits :: "string \<rightharpoonup> int"

record model_config =
  mc_Name :: string
  mc_Provider :: string
  mc_Weight :: int
  mc_Fallback :: string
  mc_MaxContext :: int
  mc_Tokenizer :: string
  mc_IsActive :: bool

record workflow_config =
  wc_ReplayLogPath :: string
  wc_RoutePolicies :: "(string \<rightharpoonup> string) option"

record otlp_config =
  oc_Enabled :: bool
  oc_Endpoint :: string
  oc_Insecure :: bool

record prometheus_config =
  pmc_Enabled :: bool
  pmc_Port :: int

record jaeger_config =
  jc_Enabled :: bool
  jc_Endpoint :: string

record monitoring_config =
  moc_Prometheus :: prometheus_config
  moc_Jaeger :: jaeger_config
  moc_OTLP :: otlp_config

record config =
  cfg_Server :: server_config
  cfg_Logger :: logger_config
  cfg_Database :: database_config
  cfg_Redis :: redis_config
  cfg_PythonWorker :: python_worker_config
  cfg_Providers :: providers_config
  cfg_Cache :: cache_config
  cfg_RateLimit :: ratelimit_config
  cfg_Models :: "model_config list"
  cfg_Workflow :: workflow_config
  cfg_Monitoring :: monitoring_config

text \<open>
  \<open>applyEnvOverrides\<close>: the seven overrides, in the order of the code.  \<open>os.Getenv\<close> gives
  the empty string for a variable that is not set.
\<close>

definition env_override :: "(string \<Rightarrow> string) \<Rightarrow> string \<Rightarrow> (string \<Rightarrow> config \<Rightarrow> config) \<Rightarrow> config \<Rightarrow> config" where
  "env_override getenv name upd c =
     (let v = getenv name in if v \<noteq> '''' then upd v c else c)"

definition applyEnvOverrides :: "(string \<Rightarrow> string) \<Rightarrow> config \<Rightarrow> config" where
  "applyEnvOverrides getenv c =
     (let c = env_override getenv ''DB_PASSWORD''
                (\<lambda>v. cfg_Database_update (dc_Password_update (\<lambda>_. v))) c;
          c = env_override getenv ''REDIS_PASSWORD''
                (\<lambda>v. cfg_Redis_update (rdc_Password_update (\<lambda>_. v))) c;
          c = env_override getenv ''OPENAI_API_KEY''
                (\<lambda>v. cfg_Providers_update (pvs_OpenAI_update (pvc_APIKey_update (\<lambda>_. v)))) c;
          c = env_override getenv ''ANTHROPIC_API_KEY''
                (\<lambda>v. cfg_Providers_update (pvs_Anthropic_update (pvc_APIKey_update (\<lambda>_. v)))) c;
          c = env_override getenv ''MINIMAX_API_KEY''
                (\<lambda>v. cfg_Providers_update (pvs_MiniMax_update (pvc_APIKey_update (\<lambda>_. v)))) c;
          c = env_override getenv ''PYTHON_WORKER_URL''
                (\<lambda>v. cfg_PythonWorker_update (pw_Address_update (\<lambda>_. v))) c;
          c = env_override getenv ''WORKFLOW_REPLAY_LOG_PATH''
                (\<lambda>v. cfg_Workflow_update (wc_ReplayLogPath_update (\<lambda>_. v))) c
      in c)"

text \<open>
  \<open>Load\<close>: \<open>readFile\<close> and \<open>yaml\<close> give an error text or a result; the error of \<open>Load\<close>
  wraps that text.
\<close>

definition Load ::
  "(string \<Rightarrow> string + string) \<Rightarrow> (string \<Rightarrow> string + config) \<Rightarrow> (string \<Rightarrow> string) \<Rightarrow> string
    \<Rightarrow> string + config" where
  "Load readFile yaml getenv path =
     (case readFile path of
        Inl e \<Rightarrow> Inl (''failed to read config file: '' @ e)
      | Inr data \<Rightarrow>
          (case yaml data of
             Inl e \<Rightarrow> Inl (''failed to parse config file: '' @ e)
           | Inr cfg \<Rightarrow> Inr (applyEnvOverrides getenv cfg)))"

lemma env_override_frame:
  "(\<And>v c. f (upd v c) = f c) \<Longrightarrow> f (env_override getenv name upd c) = f c"
  by (simp add: env_override_def Let_def)

lemma applyEnvOverrides_frame [simp]:
  "cfg_Server (applyEnvOverrides g c) = cfg_Server c"
  "cfg_Logger (applyEnvOverrides g c) = cfg_Logger c"
  "cfg_Cache (applyEnvOverrides g c) = cfg_Cache c"
  "cfg_RateLimit (applyEnvOverrides g c) = cfg_RateLimit c"
  "cfg_Models (applyEnvOverrides g c) = cfg_Models c"
  "cfg_Monitoring (applyEnvOverrides g c) = cfg_Monitoring c"
  by (simp_all add: applyEnvOverrides_def Let_def
      env_override_frame [where f = cfg_Server] env_override_frame [where f = cfg_Logger]
      env_override_frame [where f = cfg_Cache] env_override_frame [where f = cfg_RateLimit]
      env_override_frame [where f = cfg_Models] env_override_frame [where f = cfg_Monitoring])

end
