(* ===== verification/CircuitBreaker.thy ===== *)
theory CircuitBreaker
  imports Prelude
begin

text \<open>
  \<open>internal/service/circuitbreaker.go\<close>: the consecutive-failure breaker that guards each
  provider route.  The struct is the record below; every method is atomic (it runs under
  the struct's mutex), so a concurrent execution is a sequence of method calls, which the
  relation \<open>cb_step\<close> describes.  The theory gives the abstract two-state machine the
  breaker promises, the refinement to it, and the interface \<open>breaker_iface\<close> that the provider
  registry relies on.
\<close>

section \<open>The struct and its methods\<close>

record circuit_breaker =
  cb_failureThreshold :: int
  cb_openTimeout :: duration
  cb_consecutiveFailures :: int
  cb_openedAt :: time

definition NewCircuitBreaker :: "int \<Rightarrow> duration \<Rightarrow> circuit_breaker" where
  "NewCircuitBreaker failureThreshold openTimeout =
     \<lparr> cb_failureThreshold = (if failureThreshold \<le> 0 then 3 else failureThreshold),
       cb_openTimeout = (if openTimeout \<le> 0 then 30 * second else openTimeout),
       cb_consecutiveFailures = 0,
       cb_openedAt = 0 \<rparr>"

definition cb_Allow :: "circuit_breaker \<Rightarrow> time \<Rightarrow> bool \<times> circuit_breaker" where
  "cb_Allow c now =
     (if is_zero_time (cb_openedAt c) then (True, c)
      else if cb_openTimeout c \<le> time_sub now (cb_openedAt c)
      then (True, c\<lparr>cb_openedAt := 0, cb_consecutiveFailures := 0\<rparr>)
      else (False, c))"

definition cb_RecordSuccess :: "circuit_breaker \<Rightarrow> circuit_breaker" where
  "cb_RecordSuccess c = c\<lparr>cb_consecutiveFailures := 0, cb_openedAt := 0\<rparr>"

definition cb_RecordFailure :: "circuit_breaker \<Rightarrow> time \<Rightarrow> circuit_breaker" where
  "cb_RecordFailure c now =
     (let c' = c\<lparr>cb_consecutiveFailures := cb_consecutiveFailures c + 1\<rparr>
      in if cb_failureThreshold c' \<le> cb_consecutiveFailures c'
         then c'\<lparr>cb_openedAt := now\<rparr> else c')"

definition cb_IsOpen :: "circuit_breaker \<Rightarrow> time \<Rightarrow> bool" where
  "cb_IsOpen c now =
     (if is_zero_time (cb_openedAt c) then False
      else time_sub now (cb_openedAt c) < cb_openTimeout c)"

lemmas cb_ops = cb_Allow_def cb_RecordSuccess_def cb_RecordFailure_def cb_IsOpen_def
  is_zero_time_def Let_def

section \<open>Invariant\<close>

text \<open>
  The breaker holds an opening time exactly when the count of consecutive failures has
  reached the threshold.
\<close>

definition cb_inv :: "circuit_breaker \<Rightarrow> bool" where
  "cb_inv c \<longleftrightarrow>
     0 < cb_failureThreshold c \<and> 0 < cb_openTimeout c \<and> 0 \<le> cb_consecutiveFailures c \<and>
     (is_zero_time (cb_openedAt c) \<longleftrightarrow> cb_consecutiveFailures c < cb_failureThreshold c)"

lemma cb_inv_new [simp]: "cb_inv (NewCircuitBreaker k d)"
  by (simp add: cb_inv_def NewCircuitBreaker_def is_zero_time_def)

lemma cb_inv_Allow: "cb_inv c \<Longrightarrow> cb_inv (snd (cb_Allow c now))"
  by (auto simp: cb_inv_def cb_ops)

lemma cb_inv_RecordSuccess: "cb_inv c \<Longrightarrow> cb_inv (cb_RecordSuccess c)"
  by (auto simp: cb_inv_def cb_ops)

lemma cb_inv_RecordFailure: "cb_inv c \<Longrightarrow> now \<noteq> 0 \<Longrightarrow> cb_inv (cb_RecordFailure c now)"
  by (auto simp: cb_inv_def cb_ops)

lemma cb_static [simp]:
  "cb_failureThreshold (snd (cb_Allow c now)) = cb_failureThreshold c"
  "cb_openTimeout (snd (cb_Allow c now)) = cb_openTimeout c"
  "cb_failureThreshold (cb_RecordSuccess c) = cb_failureThreshold c"
  "cb_openTimeout (cb_RecordSuccess c) = cb_openTimeout c"
  "cb_failureThreshold (cb_RecordFailure c now) = cb_failureThreshold c"
  "cb_openTimeout (cb_RecordFailure c now) = cb_openTimeout c"
  by (simp_all add: cb_ops)

lemma cb_failures_RecordFailure [simp]:
  "cb_consecutiveFailures (cb_RecordFailure c now) = cb_consecutiveFailures c + 1"
  by (simp add: cb_ops)

lemma cb_Allow_iff: "fst (cb_Allow c now) \<longleftrightarrow> \<not> cb_IsOpen c now"
  by (auto simp: cb_ops)

lemma cb_Allow_blocked: "cb_IsOpen c now \<Longrightarrow> cb_Allow c now = (False, c)"
  by (auto simp: cb_ops split: if_splits)

section \<open>The abstract machine and the refinement\<close>

text \<open>
  What the breaker promises: it is closed with a count of strikes, or open since an
  instant.  The abstract operations are parameterised by the threshold and the timeout.
\<close>

datatype breaker_spec = Closed int | Opened int time

fun spec_allow :: "duration \<Rightarrow> breaker_spec \<Rightarrow> time \<Rightarrow> bool \<times> breaker_spec" where
  "spec_allow d (Closed n) now = (True, Closed n)"
| "spec_allow d (Opened n t) now =
     (if d \<le> time_sub now t then (True, Closed 0) else (False, Opened n t))"

fun spec_success :: "breaker_spec \<Rightarrow> breaker_spec" where
  "spec_success _ = Closed 0"

fun spec_failure :: "int \<Rightarrow> breaker_spec \<Rightarrow> time \<Rightarrow> breaker_spec" where
  "spec_failure k (Closed n) now = (if k \<le> n + 1 then Opened (n + 1) now else Closed (n + 1))"
| "spec_failure k (Opened n t) now = Opened (n + 1) now"

definition cb_abs :: "circuit_breaker \<Rightarrow> breaker_spec" where
  "cb_abs c =
     (if is_zero_time (cb_openedAt c) then Closed (cb_consecutiveFailures c)
      else Opened (cb_consecutiveFailures c) (cb_openedAt c))"

lemma cb_abs_Allow:
  "fst (cb_Allow c now) = fst (spec_allow (cb_openTimeout c) (cb_abs c) now)"
  "cb_abs (snd (cb_Allow c now)) = snd (spec_allow (cb_openTimeout c) (cb_abs c) now)"
  by (auto simp: cb_abs_def cb_ops)

lemma cb_abs_RecordSuccess: "cb_abs (cb_RecordSuccess c) = spec_success (cb_abs c)"
  by (simp add: cb_abs_def cb_ops)

lemma cb_abs_RecordFailure:
  "cb_inv c \<Longrightarrow> now \<noteq> 0 \<Longrightarrow>
   cb_abs (cb_RecordFailure c now) = spec_failure (cb_failureThreshold c) (cb_abs c) now"
  by (auto simp: cb_abs_def cb_inv_def cb_ops)

section \<open>The interface the registry relies on\<close>

locale breaker_iface =
  fixes allow :: "'b \<Rightarrow> time \<Rightarrow> bool \<times> 'b"
    and succeed :: "'b \<Rightarrow> 'b"
    and fail :: "'b \<Rightarrow> time \<Rightarrow> 'b"
    and is_open :: "'b \<Rightarrow> time \<Rightarrow> bool"
    and strikes :: "'b \<Rightarrow> int"
    and limit :: "'b \<Rightarrow> int"
    and inv :: "'b \<Rightarrow> bool"
  assumes allow_iff: "fst (allow b now) \<longleftrightarrow> \<not> is_open b now"
    and allow_blocked: "is_open b now \<Longrightarrow> snd (allow b now) = b"
    and allow_closed: "\<not> is_open (snd (allow b now)) t \<or> is_open b now"
    and succeed_closed: "\<not> is_open (succeed b) now"
    and succeed_strikes: "strikes (succeed b) = 0"
    and fail_strikes: "strikes (fail b now) = strikes b + 1"
    and fail_opens: "inv b \<Longrightarrow> now \<noteq> 0 \<Longrightarrow> limit b \<le> strikes b + 1 \<Longrightarrow> is_open (fail b now) now"
    and fail_closed: "inv b \<Longrightarrow> strikes b + 1 < limit b \<Longrightarrow> \<not> is_open (fail b now) t"
    and limits: "limit (snd (allow b now)) = limit b" "limit (succeed b) = limit b"
      "limit (fail b now) = limit b"
    and inv_allow: "inv b \<Longrightarrow> inv (snd (allow b now))"
    and inv_succeed: "inv b \<Longrightarrow> inv (succeed b)"
    and inv_fail: "inv b \<Longrightarrow> now \<noteq> 0 \<Longrightarrow> inv (fail b now)"
begin

definition fail_all :: "time list \<Rightarrow> 'b \<Rightarrow> 'b" where
  "fail_all ts b = fold (\<lambda>t c. fail c t) ts b"

lemma fail_all_snoc: "fail_all (ts @ [t]) b = fail (fail_all ts b) t"
  by (simp add: fail_all_def)

lemma fail_all_strikes: "strikes (fail_all ts b) = strikes b + int (length ts)"
  by (induction ts rule: rev_induct) (simp_all add: fail_all_snoc fail_strikes, simp add: fail_all_def)

lemma fail_all_limit: "limit (fail_all ts b) = limit b"
  by (induction ts rule: rev_induct) (simp_all add: fail_all_snoc limits, simp add: fail_all_def)

lemma fail_all_inv: "inv b \<Longrightarrow> 0 \<notin> set ts \<Longrightarrow> inv (fail_all ts b)"
  by (induction ts rule: rev_induct) (auto simp: fail_all_snoc inv_fail, simp add: fail_all_def)

text \<open>Enough failures in a row trip the breaker; fewer leave it closed.\<close>

lemma fail_all_trips:
  assumes "inv b" and "0 \<notin> set (ts @ [t])" and "limit b \<le> strikes b + int (length (ts @ [t]))"
  shows "is_open (fail_all (ts @ [t]) b) t"
  unfolding fail_all_snoc using assms
  by (intro fail_opens) (auto simp: fail_all_inv fail_all_limit fail_all_strikes)

lemma fail_all_closed:
  assumes "inv b" and "0 \<notin> set (ts @ [t])" and "strikes b + int (length (ts @ [t])) < limit b"
  shows "\<not> is_open (fail_all (ts @ [t]) b) now"
  unfolding fail_all_snoc using assms
  by (intro fail_closed) (auto simp: fail_all_inv fail_all_limit fail_all_strikes)

lemma succeed_then_allow: "fst (allow (succeed b) now)"
  by (simp add: allow_iff succeed_closed)

lemma allow_then_allow: "fst (allow b now) \<Longrightarrow> fst (allow (snd (allow b now)) t)"
  using allow_closed [of b now t] by (simp add: allow_iff)

end

interpretation cb: breaker_iface cb_Allow cb_RecordSuccess cb_RecordFailure cb_IsOpen
  cb_consecutiveFailures cb_failureThreshold cb_inv
  by unfold_locales (auto simp: cb_ops cb_inv_def split: if_splits)

text \<open>The locale's run of failures is the fold of the model's own operation.\<close>

lemma cb_fail_all: "cb.fail_all ts c = fold (\<lambda>t b. cb_RecordFailure b t) ts c"
  by (simp add: cb.fail_all_def)

lemma cb_openedAt_run:
  assumes "cb_inv c" and "0 \<notin> set (ts @ [t])"
    and "cb_failureThreshold c \<le> cb_consecutiveFailures c + int (length (ts @ [t]))"
  shows "cb_openedAt (fold (\<lambda>t b. cb_RecordFailure b t) (ts @ [t]) c) = t"
  using cb.fail_all_strikes [of ts c] cb.fail_all_limit [of ts c] assms
  by (simp add: cb_fail_all cb_RecordFailure_def Let_def)

lemma cb_openTimeout_run:
  "cb_openTimeout (fold (\<lambda>t b. cb_RecordFailure b t) ts c) = cb_openTimeout c"
  by (induction ts arbitrary: c) simp_all

section \<open>Interleaved calls\<close>

text \<open>
  Calls of concurrent requests, in the order in which they take the mutex.  The events
  carry the instant the caller passes and, for \<open>Allow\<close>, the answer it got.
\<close>

datatype cb_event = EvAllow time bool | EvSuccess | EvFailure time

fun cb_event_time :: "cb_event \<Rightarrow> time option" where
  "cb_event_time (EvAllow t _) = Some t"
| "cb_event_time EvSuccess = None"
| "cb_event_time (EvFailure t) = Some t"

inductive cb_step :: "circuit_breaker \<Rightarrow> cb_event \<Rightarrow> circuit_breaker \<Rightarrow> bool" where
  step_allow: "cb_Allow c now = (ok, c') \<Longrightarrow> cb_step c (EvAllow now ok) c'"
| step_success: "cb_step c EvSuccess (cb_RecordSuccess c)"
| step_failure: "now \<noteq> 0 \<Longrightarrow> cb_step c (EvFailure now) (cb_RecordFailure c now)"

inductive_cases cb_step_allowE: "cb_step c (EvAllow now ok) c'"
inductive_cases cb_step_successE: "cb_step c EvSuccess c'"
inductive_cases cb_step_failureE: "cb_step c (EvFailure now) c'"
inductive_simps cb_step_allow_iff: "cb_step c (EvAllow now ok) c'"

inductive cb_run :: "circuit_breaker \<Rightarrow> cb_event list \<Rightarrow> circuit_breaker \<Rightarrow> bool" where
  run_nil: "cb_run c [] c"
| run_cons: "cb_step c e c' \<Longrightarrow> cb_run c' es c'' \<Longrightarrow> cb_run c (e # es) c''"

inductive_cases cb_run_nilE: "cb_run c [] c'"
inductive_cases cb_run_consE: "cb_run c (e # es) c'"

lemma cb_step_inv: "cb_step c e c' \<Longrightarrow> cb_inv c \<Longrightarrow> cb_inv c'"
  by (induction rule: cb_step.induct)
    (metis cb_inv_Allow snd_conv, simp_all add: cb_inv_RecordSuccess cb_inv_RecordFailure)

lemma cb_run_inv: "cb_run c es c' \<Longrightarrow> cb_inv c \<Longrightarrow> cb_inv c'"
  by (induction rule: cb_run.induct) (auto intro: cb_step_inv)

lemma cb_step_static:
  "cb_step c e c' \<Longrightarrow> cb_openTimeout c' = cb_openTimeout c \<and> cb_failureThreshold c' = cb_failureThreshold c"
  by (induction rule: cb_step.induct) (metis cb_static(1,2) snd_conv, simp_all)

text \<open>
  While the breaker is tripped and no success arrives, a step inside the window changes
  at most the opening instant, and only to a later one.
\<close>

definition cb_tripped_since :: "circuit_breaker \<Rightarrow> time \<Rightarrow> bool" where
  "cb_tripped_since c t \<longleftrightarrow> cb_inv c \<and> 0 < t \<and> t \<le> cb_openedAt c"

lemma cb_step_tripped:
  assumes "cb_step c e c'" and "cb_tripped_since c t" and "e \<noteq> EvSuccess"
    and "\<And>u. cb_event_time e = Some u \<Longrightarrow> t \<le> u \<and> time_sub u t < cb_openTimeout c"
  shows "cb_tripped_since c' t \<and> (\<forall>now ok. e = EvAllow now ok \<longrightarrow> \<not> ok)"
  using assms
proof (induction rule: cb_step.induct)
  case (step_allow c now ok c')
  then have t: "0 < t" "t \<le> cb_openedAt c" "time_sub now t < cb_openTimeout c"
    by (auto simp: cb_tripped_since_def)
  have "time_sub now (cb_openedAt c) \<le> time_sub now t"
    using t(2) by (simp add: time_sub_def)
  with t have "cb_IsOpen c now" by (simp add: cb_ops)
  then show ?case using step_allow by (simp add: cb_Allow_blocked)
next
  case (step_failure now c)
  then show ?case
    by (auto simp: cb_tripped_since_def cb_inv_RecordFailure) (auto simp: cb_ops cb_inv_def)
qed simp

lemma cb_run_tripped:
  assumes "cb_run c es c'" and "cb_tripped_since c t" and "EvSuccess \<notin> set es"
    and "\<And>e u. e \<in> set es \<Longrightarrow> cb_event_time e = Some u \<Longrightarrow> t \<le> u \<and> time_sub u t < cb_openTimeout c"
    and "EvAllow now ok \<in> set es"
  shows "\<not> ok"
  using assms
proof (induction rule: cb_run.induct)
  case (run_nil c)
  then show ?case by simp
next
  case (run_cons c e c' es c'')
  have e: "cb_tripped_since c' t" "\<forall>now ok. e = EvAllow now ok \<longrightarrow> \<not> ok"
    using cb_step_tripped [OF run_cons.hyps(1) run_cons.prems(1)] run_cons.prems(2,3) by auto
  have "cb_openTimeout c' = cb_openTimeout c"
    using cb_step_static [OF run_cons.hyps(1)] by simp
  then show ?case
    using run_cons.IH [OF e(1)] run_cons.prems e(2) by auto
qed

lemma cb_run_still_tripped:
  assumes "cb_run c es c'" and "cb_tripped_since c t" and "EvSuccess \<notin> set es"
    and "\<And>e u. e \<in> set es \<Longrightarrow> cb_event_time e = Some u \<Longrightarrow> t \<le> u \<and> time_sub u t < cb_openTimeout c"
  shows "cb_tripped_since c' t"
  using assms
proof (induction rule: cb_run.induct)
  case (run_cons c e c' es c'')
  have "cb_tripped_since c' t"
    using cb_step_tripped [OF run_cons.hyps(1) run_cons.prems(1)] run_cons.prems(2,3) by auto
  then show ?case
    using run_cons.IH run_cons.prems cb_step_static [OF run_cons.hyps(1)] by auto
qed simp

text \<open>The abstract machine on the same events.\<close>

inductive spec_run :: "int \<Rightarrow> duration \<Rightarrow> breaker_spec \<Rightarrow> cb_event list \<Rightarrow> breaker_spec \<Rightarrow> bool"
  for k d where
  spec_run_nil: "spec_run k d b [] b"
| spec_run_allow: "spec_allow d b now = (ok, b') \<Longrightarrow> spec_run k d b' es b'' \<Longrightarrow>
     spec_run k d b (EvAllow now ok # es) b''"
| spec_run_success: "spec_run k d (spec_success b) es b'' \<Longrightarrow> spec_run k d b (EvSuccess # es) b''"
| spec_run_failure: "spec_run k d (spec_failure k b now) es b'' \<Longrightarrow>
     spec_run k d b (EvFailure now # es) b''"

lemma cb_step_refines:
  assumes "cb_step c e c'" and "cb_inv c"
    and "spec_run (cb_failureThreshold c) (cb_openTimeout c) (cb_abs c') es b"
  shows "spec_run (cb_failureThreshold c) (cb_openTimeout c) (cb_abs c) (e # es) b"
  using assms
proof (induction rule: cb_step.induct)
  case (step_allow c now ok c')
  from step_allow.hyps have "spec_allow (cb_openTimeout c) (cb_abs c) now = (ok, cb_abs c')"
    using cb_abs_Allow [of c now] by (simp add: prod_eq_iff)
  then show ?case using step_allow by (blast intro: spec_run_allow)
qed (auto intro: spec_run_success spec_run_failure simp: cb_abs_RecordFailure cb_abs_RecordSuccess)

text \<open>
  A failure is recorded with the instant its caller passes.  When that lies before the opening,
  as it does for a call that began before it, the opening moves back to it.
\<close>

lemma cb_stale_failure:
  "cb_inv b \<Longrightarrow> cb_openedAt b \<noteq> 0 \<Longrightarrow> cb_openedAt (cb_RecordFailure b u) = u"
  by (auto simp: cb_inv_def cb_ops)

section \<open>Properties\<close>

text \<open>
  A fresh breaker that records a run of failures, and nothing else, admits a
  call exactly when the run is shorter than the threshold (3 when it was configured as 0
  or less) or the timeout (30 seconds when configured as 0 or less) has passed since the
  last failure of the run.
\<close>

lemma cb_trips_after_threshold:
  assumes "0 \<notin> set ts"
  shows "fst (cb_Allow (fold (\<lambda>t b. cb_RecordFailure b t) ts (NewCircuitBreaker k d)) now) \<longleftrightarrow>
    int (length ts) < (if k \<le> 0 then 3 else k) \<or>
    (if d \<le> 0 then 30 * second else d) \<le> time_sub now (last ts)"
proof -
  let ?c = "NewCircuitBreaker k d"
  have new: "cb_consecutiveFailures ?c = 0" "cb_failureThreshold ?c = (if k \<le> 0 then 3 else k)"
    "cb_openTimeout ?c = (if d \<le> 0 then 30 * second else d)" "cb_openedAt ?c = 0"
    by (simp_all add: NewCircuitBreaker_def)
  have inv: "cb_inv (fold (\<lambda>t b. cb_RecordFailure b t) ts ?c)"
    using cb.fail_all_inv [OF cb_inv_new assms] by (simp add: cb_fail_all)
  have strikes: "cb_consecutiveFailures (fold (\<lambda>t b. cb_RecordFailure b t) ts ?c) = int (length ts)"
    and limit: "cb_failureThreshold (fold (\<lambda>t b. cb_RecordFailure b t) ts ?c) = cb_failureThreshold ?c"
    using cb.fail_all_strikes [of ts ?c] cb.fail_all_limit [of ts ?c] by (simp_all add: cb_fail_all new)
  show ?thesis
  proof (cases "int (length ts) < cb_failureThreshold ?c")
    case True
    with inv strikes limit show ?thesis by (simp add: cb_inv_def cb_Allow_def new)
  next
    case False
    then obtain us t where ts: "ts = us @ [t]"
      using cb_inv_new [of k d] by (cases ts rule: rev_cases) (auto simp: cb_inv_def)
    have "cb_openedAt (fold (\<lambda>t b. cb_RecordFailure b t) ts ?c) = t"
      unfolding ts using False assms by (intro cb_openedAt_run) (auto simp: ts new)
    moreover have "t \<noteq> 0" using assms ts by auto
    ultimately show ?thesis
      using False cb_openTimeout_run [of ts ?c] by (simp add: cb_ops ts new)
  qed
qed

text \<open>
  However the calls of concurrent requests interleave, a breaker that opened at
  \<open>t\<close> answers every \<open>Allow\<close> inside the timeout window with false as long as no
  call records a success and no failure is recorded with an instant before \<open>t\<close>.
\<close>

lemma cb_open_window:
  assumes "cb_run c es c'" and "cb_inv c" and "cb_openedAt c = t" and "0 < t"
    and "EvSuccess \<notin> set es"
    and "\<forall>e \<in> set es. \<forall>u. cb_event_time e = Some u \<longrightarrow> t \<le> u \<and> time_sub u t < cb_openTimeout c"
    and "EvAllow now ok \<in> set es"
  shows "\<not> ok"
proof (rule cb_run_tripped [OF assms(1) _ assms(5) _ assms(7)])
  show "cb_tripped_since c t" using assms(2-4) by (simp add: cb_tripped_since_def)
  show "t \<le> u \<and> time_sub u t < cb_openTimeout c" if "e \<in> set es" "cb_event_time e = Some u" for e u
    using assms(6) that by blast
qed



text \<open>
  The first \<open>Allow\<close> after the timeout puts the breaker back into its initial
  state: it is not a half-open state with a single trial, since from there on every call
  is admitted until the threshold is reached anew.
\<close>

lemma cb_timeout_resets_fully:
  assumes "cb_inv c" and "cb_openedAt c \<noteq> 0" and "cb_openTimeout c \<le> time_sub now (cb_openedAt c)"
    and "0 \<notin> set ts" and "int (length ts) < cb_failureThreshold c"
  shows "cb_Allow c now = (True, NewCircuitBreaker (cb_failureThreshold c) (cb_openTimeout c)) \<and>
    fst (cb_Allow (fold (\<lambda>t b. cb_RecordFailure b t) ts (snd (cb_Allow c now))) later)"
proof -
  let ?n = "NewCircuitBreaker (cb_failureThreshold c) (cb_openTimeout c)"
  have reset: "cb_Allow c now = (True, ?n)"
    using assms(1-3) by (simp add: cb_ops NewCircuitBreaker_def cb_inv_def)
  have "\<not> cb_IsOpen (fold (\<lambda>t b. cb_RecordFailure b t) ts ?n) later"
  proof (cases ts rule: rev_cases)
    case Nil
    then show ?thesis by (simp add: NewCircuitBreaker_def cb_ops)
  next
    case (snoc us t)
    have lim: "cb_failureThreshold ?n = cb_failureThreshold c" "cb_consecutiveFailures ?n = 0"
      using assms(1) by (auto simp: NewCircuitBreaker_def cb_inv_def)
    show ?thesis
      using cb.fail_all_closed [of ?n us t later] assms(4,5) snoc lim by (simp add: cb_fail_all)
  qed
  with reset show ?thesis by (simp add: cb_Allow_iff)
qed

end
