(* ===== verification/ProviderTypes.thy ===== *)
theory ProviderTypes
  imports Float64
begin

text \<open>
  \<open>internal/service/provider/types.go\<close>: the upstream request and response, the error of
  an upstream call and the client interface.  A Go \<open>error\<close> is the text its \<open>Error\<close>
  method gives, and nil is None.  A client is a function of the outside world (network,
  clock, the other side), which it may change.
\<close>

record prov_message =
  pm_Role :: string
  pm_Content :: string
  pm_Name :: string

record prov_request =
  pr_Model :: string
  pr_Messages :: "prov_message list"
  pr_Temperature :: f64
  pr_MaxTokens :: int
  pr_TopP :: f64
  pr_Stream :: bool
  pr_Stop :: "string list"

record prov_choice =
  pc_Index :: int
  pc_Message :: prov_message
  pc_FinishReason :: string

record prov_usage =
  pu_PromptTokens :: int
  pu_CompletionTokens :: int
  pu_TotalTokens :: int

record prov_response =
  ps_ID :: string
  ps_Object :: string
  ps_Created :: int
  ps_Model :: string
  ps_Choices :: "prov_choice list"
  ps_Usage :: prov_usage
  ps_Provider :: string

record upstream_error =
  ue_Provider :: string
  ue_Model :: string
  ue_StatusCode :: int
  ue_Message :: string
  ue_Body :: string
  ue_Err :: "string option"

text \<open>The fields a composite literal leaves out have their zero values.\<close>

definition upstream_error_zero :: upstream_error where
  "upstream_error_zero = \<lparr>ue_Provider = '''', ue_Model = '''', ue_StatusCode = 0,
     ue_Message = '''', ue_Body = '''', ue_Err = None\<rparr>"

definition UpstreamError_Error :: "upstream_error option \<Rightarrow> string" where
  "UpstreamError_Error e =
     (case e of
        None \<Rightarrow> ''''
      | Some e \<Rightarrow>
          if ue_Message e \<noteq> '''' then ue_Message e
          else (case ue_Err e of Some t \<Rightarrow> t | None \<Rightarrow> ''upstream provider error''))"

type_synonym 'w client = "'w \<Rightarrow> prov_request \<Rightarrow> (upstream_error + prov_response) \<times> 'w"

end
