(* ===== verification/Registry.thy ===== *)
theory Registry
  imports Config CircuitBreaker ProviderTypes
begin

text \<open>
  \<open>internal/service/provider/registry.go\<close>: routing of a chat request over the configured
  providers, with weighted order, fallback models and a circuit breaker per route.

  The Go maps are partial functions, but for \<open>modelFallbacks\<close>, an association list with
  one entry per key, whose length bounds the fallback chain.  The registry is passed and
  returned, since routing writes the breakers; the outside world \<open>'w\<close> is threaded through
  every clock reading, random draw and client call in the order of the code.
\<close>

section \<open>State\<close>

abbreviation defaultFailureThreshold :: int where "defaultFailureThreshold \<equiv> 3"
abbreviation defaultOpenTimeout :: duration where "defaultOpenTimeout \<equiv> 30 * second"

record route_candidate =
  rc_modelName :: string
  rc_providerName :: string
  rc_weight :: int
  rc_fallback :: string

record 'w registry =
  rg_providers :: "string \<rightharpoonup> 'w client"
  rg_modelRoutes :: "string \<rightharpoonup> route_candidate list"
  rg_modelFallbacks :: "(string \<times> string) list"
  rg_circuits :: "string \<rightharpoonup> circuit_breaker"
  rg_nowFunc :: "('w \<Rightarrow> time \<times> 'w) option"
  rg_randIntn :: "('w \<Rightarrow> int \<Rightarrow> int \<times> 'w) option"

text \<open>The process clock \<open>time.Now\<close> and the process random source \<open>rand.Intn\<close>.\<close>

record 'w sys =
  sys_now :: "'w \<Rightarrow> time \<times> 'w"
  sys_rand :: "'w \<Rightarrow> int \<Rightarrow> int \<times> 'w"

section \<open>Small operations\<close>

definition detectProvider :: "string \<Rightarrow> string" where
  "detectProvider model =
     (let model = to_lower model
      in if has_prefix model ''claude'' then ''anthropic''
         else if has_prefix model ''abab'' then ''minimax''
         else ''openai'')"

definition shouldTripCircuit :: "upstream_error option \<Rightarrow> bool" where
  "shouldTripCircuit err =
     (case err of
        None \<Rightarrow> False
      | Some e \<Rightarrow>
          if ue_Err e \<noteq> None then True
          else ue_StatusCode e \<in> {429, 500, 502, 503, 504})"

definition shouldFallback :: "upstream_error option \<Rightarrow> bool" where
  "shouldFallback err =
     (case err of
        None \<Rightarrow> False
      | Some e \<Rightarrow> if ue_StatusCode e = 400 then False else True)"

definition circuitKey :: "route_candidate \<Rightarrow> string" where
  "circuitKey c = rc_providerName c @ '':'' @ rc_modelName c"

definition registry_now :: "'w sys \<Rightarrow> 'w registry \<Rightarrow> 'w \<Rightarrow> time \<times> 'w" where
  "registry_now sys r w =
     (case rg_nowFunc r of None \<Rightarrow> sys_now sys w | Some f \<Rightarrow> f w)"

definition registry_rand :: "'w sys \<Rightarrow> 'w registry \<Rightarrow> int \<Rightarrow> 'w \<Rightarrow> int \<times> 'w" where
  "registry_rand sys r n w =
     (if n \<le> 1 then (0, w)
      else case rg_randIntn r of None \<Rightarrow> sys_rand sys w n | Some f \<Rightarrow> f w n)"

definition ensureCircuit :: "'w registry \<Rightarrow> route_candidate \<Rightarrow> circuit_breaker \<times> 'w registry" where
  "ensureCircuit r c =
     (let key = circuitKey c
      in case rg_circuits r key of
           Some breaker \<Rightarrow> (breaker, r)
         | None \<Rightarrow>
             let breaker = NewCircuitBreaker defaultFailureThreshold defaultOpenTimeout
             in (breaker, r\<lparr>rg_circuits := (rg_circuits r)(key \<mapsto> breaker)\<rparr>))"

text \<open>Writing through the breaker pointer that \<open>ensureCircuit\<close> returned.\<close>

definition put_circuit :: "'w registry \<Rightarrow> route_candidate \<Rightarrow> circuit_breaker \<Rightarrow> 'w registry" where
  "put_circuit r c b = r\<lparr>rg_circuits := (rg_circuits r)(circuitKey c \<mapsto> b)\<rparr>"

section \<open>Building the registry\<close>

definition model_candidate :: "model_config \<Rightarrow> route_candidate" where
  "model_candidate m =
     (let p = to_lower (trim_space (mc_Provider m));
          p = (if p = '''' then detectProvider (mc_Name m) else p);
          weight = (if mc_Weight m \<le> 0 then 1 else mc_Weight m)
      in \<lparr>rc_modelName = mc_Name m, rc_providerName = p, rc_weight = weight,
          rc_fallback = trim_space (mc_Fallback m)\<rparr>)"

definition add_model :: "'w registry \<Rightarrow> model_config \<Rightarrow> 'w registry" where
  "add_model r m =
     (if trim_space (mc_Name m) = '''' then r
      else if \<not> mc_IsActive m then r
      else
        let c = model_candidate m;
            old = (case rg_modelRoutes r (mc_Name m) of None \<Rightarrow> [] | Some cs \<Rightarrow> cs);
            r = r\<lparr>rg_modelRoutes := (rg_modelRoutes r)(mc_Name m \<mapsto> old @ [c])\<rparr>;
            r = (if rc_fallback c \<noteq> '''' \<and> map_of (rg_modelFallbacks r) (mc_Name m) = None
                 then r\<lparr>rg_modelFallbacks := rg_modelFallbacks r @ [(mc_Name m, rc_fallback c)]\<rparr>
                 else r)
        in put_circuit r c (NewCircuitBreaker defaultFailureThreshold defaultOpenTimeout))"

text \<open>
  \<open>NewRegistry\<close>; \<open>mk name cfg\<close> is the client that \<open>newOpenAIProvider\<close>,
  \<open>newAnthropicProvider\<close> and \<open>newMiniMaxProvider\<close> build for a provider name.
\<close>

definition NewRegistry :: "'w sys \<Rightarrow> (string \<Rightarrow> provider_config \<Rightarrow> 'w client) \<Rightarrow> config \<Rightarrow> 'w registry" where
  "NewRegistry sys mk cfg =
     foldl add_model
       \<lparr>rg_providers = [''openai'' \<mapsto> mk ''openai'' (pvs_OpenAI (cfg_Providers cfg)),
                        ''anthropic'' \<mapsto> mk ''anthropic'' (pvs_Anthropic (cfg_Providers cfg)),
                        ''minimax'' \<mapsto> mk ''minimax'' (pvs_MiniMax (cfg_Providers cfg))],
        rg_modelRoutes = Map.empty,
        rg_modelFallbacks = [],
        rg_circuits = Map.empty,
        rg_nowFunc = Some (sys_now sys),
        rg_randIntn = Some (sys_rand sys)\<rparr>
       (cfg_Models cfg)"

section \<open>The fallback chain\<close>

definition fallback_of :: "(string \<times> string) list \<Rightarrow> string \<Rightarrow> string" where
  "fallback_of fb m = trim_space (case map_of fb m of None \<Rightarrow> '''' | Some v \<Rightarrow> v)"

text \<open>The loop of \<open>resolveModelChain\<close>; \<open>seen\<close> is the set of models already in the chain.\<close>

function chain_loop :: "(string \<times> string) list \<Rightarrow> string list \<Rightarrow> string list \<Rightarrow> string \<Rightarrow> string list" where
  "chain_loop fb seen chain current =
     (if current = '''' then chain
      else if current \<in> set seen then chain
      else
        let seen = current # seen;
            chain = chain @ [current];
            next = fallback_of fb current
        in if next = '''' then chain else chain_loop fb seen chain next)"
  by pat_completeness auto

lemma fallback_of_key: "fallback_of fb m \<noteq> '''' \<Longrightarrow> m \<in> fst ` set fb"
  by (auto simp: fallback_of_def split: option.splits dest: map_of_SomeD intro: rev_image_eqI)

termination chain_loop
proof (relation "measure (\<lambda>(fb, seen, chain, current). card (fst ` set fb - set seen))")
  fix fb :: "(string \<times> string) list" and seen chain :: "string list" and current :: string
    and seen' chain' "next"
  assume "current \<notin> set seen" "seen' = current # seen" "next = fallback_of fb current" "next \<noteq> ''''"
  then have "fst ` set fb - set seen' \<subset> fst ` set fb - set seen"
    using fallback_of_key [of fb current] by auto
  then show "((fb, seen', chain', next), fb, seen, chain, current)
      \<in> measure (\<lambda>(fb, seen, chain, current). card (fst ` set fb - set seen))"
    by (simp add: psubset_card_mono)
qed simp

declare chain_loop.simps [simp del]

definition resolveModelChain :: "'w registry \<Rightarrow> string \<Rightarrow> string list" where
  "resolveModelChain r model =
     (let chain = chain_loop (rg_modelFallbacks r) [] [] (trim_space model)
      in if chain = [] \<and> model \<noteq> '''' then [model] else chain)"

definition routesForModel :: "'w registry \<Rightarrow> string \<Rightarrow> route_candidate list" where
  "routesForModel r model =
     (case rg_modelRoutes r model of
        Some (c # cs) \<Rightarrow> c # cs
      | _ \<Rightarrow> [\<lparr>rc_modelName = model, rc_providerName = detectProvider model, rc_weight = 1,
               rc_fallback = ''''\<rparr>])"

section \<open>Weighted order\<close>

text \<open>The sum of the positive weights, in 64-bit arithmetic.\<close>

definition total_weight :: "route_candidate list \<Rightarrow> int" where
  "total_weight cs =
     foldl (\<lambda>t c. if 0 < rc_weight c then wrap64 (t + rc_weight c) else t) 0 cs"

fun pick_loop :: "int \<Rightarrow> nat \<Rightarrow> route_candidate list \<Rightarrow> nat option" where
  "pick_loop pick i [] = None"
| "pick_loop pick i (c # cs) =
     (if rc_weight c \<le> 0 then pick_loop pick (Suc i) cs
      else if pick < rc_weight c then Some i
      else pick_loop (pick - rc_weight c) (Suc i) cs)"

definition weightedPickIndex :: "'w sys \<Rightarrow> 'w registry \<Rightarrow> route_candidate list \<Rightarrow> 'w \<Rightarrow> nat \<times> 'w" where
  "weightedPickIndex sys r cs w =
     (let total = total_weight cs
      in if total \<le> 0 then (0, w)
         else case registry_rand sys r total w of
                (pick, w') \<Rightarrow>
                  (case pick_loop pick 0 cs of Some i \<Rightarrow> i | None \<Rightarrow> length cs - 1, w'))"

lemma pick_loop_bound: "pick_loop p i cs = Some j \<Longrightarrow> i \<le> j \<and> j < i + length cs"
  by (induction p i cs rule: pick_loop.induct) (auto split: if_splits)

lemma weightedPickIndex_bound:
  "cs \<noteq> [] \<Longrightarrow> fst (weightedPickIndex sys r cs w) < length cs"
  by (cases cs)
    (auto simp: weightedPickIndex_def Let_def split: prod.split option.split dest: pick_loop_bound)

text \<open>The loop of \<open>weightedOrder\<close>: pick one of the pool, delete it, go on with the rest.\<close>

function weighted_loop ::
  "'w sys \<Rightarrow> 'w registry \<Rightarrow> route_candidate list \<Rightarrow> route_candidate list \<Rightarrow> 'w
    \<Rightarrow> route_candidate list \<times> 'w" where
  "weighted_loop sys r pool ordered w =
     (if pool = [] then (ordered, w)
      else case weightedPickIndex sys r pool w of
             (idx, w') \<Rightarrow>
               weighted_loop sys r (take idx pool @ drop (Suc idx) pool) (ordered @ [pool ! idx]) w')"
  by pat_completeness auto

lemma weightedPickIndex_less:
  "(idx, w') = weightedPickIndex sys r cs w \<Longrightarrow> cs \<noteq> [] \<Longrightarrow> idx < length cs"
  by (metis fst_conv weightedPickIndex_bound)

termination weighted_loop
  by (relation "measure (\<lambda>(sys, r, pool, ordered, w). length pool)")
    (auto dest!: weightedPickIndex_less)

declare weighted_loop.simps [simp del]

definition weightedOrder ::
  "'w sys \<Rightarrow> 'w registry \<Rightarrow> route_candidate list \<Rightarrow> 'w \<Rightarrow> route_candidate list \<times> 'w" where
  "weightedOrder sys r cs w = (if length cs \<le> 1 then (cs, w) else weighted_loop sys r cs [] w)"

text \<open>The inner loop of \<open>buildRouteQueue\<close>: candidates whose key was not seen yet.\<close>

fun add_unseen ::
  "route_candidate list \<Rightarrow> string list \<times> route_candidate list \<Rightarrow> string list \<times> route_candidate list" where
  "add_unseen [] (seen, queue) = (seen, queue)"
| "add_unseen (c # cs) (seen, queue) =
     (if circuitKey c \<in> set seen then add_unseen cs (seen, queue)
      else add_unseen cs (circuitKey c # seen, queue @ [c]))"

fun queue_loop ::
  "'w sys \<Rightarrow> 'w registry \<Rightarrow> string list \<Rightarrow> string list \<times> route_candidate list \<Rightarrow> 'w
    \<Rightarrow> route_candidate list \<times> 'w" where
  "queue_loop sys r [] (seen, queue) w = (queue, w)"
| "queue_loop sys r (m # ms) acc w =
     (case weightedOrder sys r (routesForModel r m) w of
        (ordered, w') \<Rightarrow> queue_loop sys r ms (add_unseen ordered acc) w')"

definition buildRouteQueue :: "'w sys \<Rightarrow> 'w registry \<Rightarrow> string \<Rightarrow> 'w \<Rightarrow> route_candidate list \<times> 'w" where
  "buildRouteQueue sys r model w = queue_loop sys r (resolveModelChain r model) ([], []) w"

section \<open>The chain: distinct, linked, and complete\<close>

lemma chain_loop_extends: "\<exists>ys. chain_loop fb seen chain cur = chain @ ys"
proof (induction fb seen chain cur rule: chain_loop.induct)
  case (1 fb seen chain cur)
  then show ?case
    by (subst chain_loop.simps) (simp add: Let_def, blast)
qed

definition linked :: "(string \<times> string) list \<Rightarrow> string list \<Rightarrow> bool" where
  "linked fb xs \<longleftrightarrow> successively (\<lambda>a b. fallback_of fb a = b) xs"

lemma linked_snoc:
  "linked fb xs \<Longrightarrow> (xs \<noteq> [] \<Longrightarrow> fallback_of fb (last xs) = x) \<Longrightarrow> linked fb (xs @ [x])"
  by (auto simp: linked_def successively_append_iff)

lemma chain_loop_spec:
  assumes "set seen = set chain" and "distinct chain" and "'''' \<notin> set chain"
    and "linked fb chain" and "chain \<noteq> [] \<Longrightarrow> fallback_of fb (last chain) = cur"
  shows "let xs = chain_loop fb seen chain cur in
    distinct xs \<and> '''' \<notin> set xs \<and> linked fb xs \<and>
    (xs \<noteq> [] \<longrightarrow> fallback_of fb (last xs) = '''' \<or> fallback_of fb (last xs) \<in> set xs)"
  using assms
proof (induction fb seen chain cur rule: chain_loop.induct)
  case (1 fb seen chain cur)
  show ?case
  proof (cases "cur = '''' \<or> cur \<in> set seen")
    case True
    with "1.prems" show ?thesis by (subst chain_loop.simps) (auto simp: Let_def)
  next
    case False
    have lk: "linked fb (chain @ [cur])"
      by (rule linked_snoc [OF "1.prems"(4,5)])
    have d: "distinct (chain @ [cur])" "'''' \<notin> set (chain @ [cur])"
      "set (cur # seen) = set (chain @ [cur])"
      using False "1.prems" by auto
    show ?thesis
    proof (cases "fallback_of fb cur = ''''")
      case True
      then show ?thesis using False lk d by (subst chain_loop.simps) (simp add: Let_def)
    next
      case next_ne: False
      have "chain_loop fb seen chain cur
          = chain_loop fb (cur # seen) (chain @ [cur]) (fallback_of fb cur)"
        using False next_ne by (subst chain_loop.simps) (simp add: Let_def)
      then show ?thesis
        using "1.IH" [OF _ _ refl refl refl next_ne d(3) d(1,2) lk] False by simp
    qed
  qed
qed

lemma chain_loop_hd:
  "cur \<noteq> '''' \<Longrightarrow> chain_loop fb [] [] cur \<noteq> [] \<and> hd (chain_loop fb [] [] cur) = cur"
  using chain_loop_extends [of fb "[cur]" "[cur]" "fallback_of fb cur"]
  by (subst (1 2) chain_loop.simps) (auto simp: Let_def)

lemma chain_loop_blank: "chain_loop fb [] [] '''' = []"
  by (subst chain_loop.simps) simp

lemma resolveModelChain_nonempty: "model \<noteq> '''' \<Longrightarrow> resolveModelChain r model \<noteq> []"
  by (simp add: resolveModelChain_def Let_def)

section \<open>The order is a permutation, drawn by weight\<close>

lemma weighted_loop_mset:
  "mset (fst (weighted_loop sys r pool ordered w)) = mset pool + mset ordered"
proof (induction sys r pool ordered w rule: weighted_loop.induct)
  case (1 sys r pool ordered w)
  show ?case
  proof (cases "pool = []")
    case True
    then show ?thesis by (subst weighted_loop.simps) simp
  next
    case False
    obtain idx w' where p: "weightedPickIndex sys r pool w = (idx, w')" by fastforce
    then have "idx < length pool" using weightedPickIndex_bound [OF False, of sys r w] by simp
    from mset_delete_nth [OF this] show ?thesis
      using "1.IH" [OF False p [symmetric]] False
      by (subst weighted_loop.simps) (simp add: p)
  qed
qed

lemma weightedOrder_mset [simp]: "mset (fst (weightedOrder sys r cs w)) = mset cs"
  by (simp add: weightedOrder_def weighted_loop_mset)

lemma weightedOrder_set [simp]: "set (fst (weightedOrder sys r cs w)) = set cs"
  by (rule mset_eq_setD) simp

definition pos_weight :: "route_candidate \<Rightarrow> int" where
  "pos_weight c = max 0 (rc_weight c)"

lemma total_weight_wrap:
  "total_weight cs = wrap64 (\<Sum>c\<leftarrow>cs. pos_weight c)"
proof -
  have "foldl (\<lambda>t c. if 0 < rc_weight c then wrap64 (t + rc_weight c) else t) (wrap64 t) cs
      = wrap64 (t + (\<Sum>c\<leftarrow>cs. pos_weight c))" for t
    by (induction cs arbitrary: t) (simp_all add: pos_weight_def max_def add.assoc)
  from this [of 0] show ?thesis by (simp add: total_weight_def)
qed

lemma sum_pos_weight_nonneg: "0 \<le> (\<Sum>c\<leftarrow>cs. pos_weight c)"
  by (rule sum_list_nonneg) (auto simp: pos_weight_def)

lemma total_weight_sum:
  "(\<Sum>c\<leftarrow>cs. pos_weight c) < 2 ^ 63 \<Longrightarrow> total_weight cs = (\<Sum>c\<leftarrow>cs. pos_weight c)"
  using sum_pos_weight_nonneg [of cs] by (simp add: total_weight_wrap int64_ok_def)

text \<open>The draw picks the candidate whose interval of the cumulated weights holds it.\<close>

lemma pick_loop_interval:
  "0 \<le> p \<Longrightarrow>
   pick_loop p k cs = Some (k + i) \<longleftrightarrow>
     i < length cs \<and> (\<Sum>c\<leftarrow>take i cs. pos_weight c) \<le> p \<and>
     p < (\<Sum>c\<leftarrow>take (Suc i) cs. pos_weight c)"
proof (induction cs arbitrary: p k i)
  case Nil
  then show ?case by simp
next
  case (Cons c cs)
  show ?case
  proof (cases i)
    case 0
    have "pick_loop q (Suc k) cs \<noteq> Some k" for q
      using pick_loop_bound [of q "Suc k" cs k] by auto
    then show ?thesis using Cons.prems 0 by (auto simp: pos_weight_def max_def)
  next
    case (Suc j)
    have nn: "0 \<le> (\<Sum>c\<leftarrow>take j cs. pos_weight c)" by (rule sum_pos_weight_nonneg)
    show ?thesis
    proof (cases "rc_weight c \<le> 0")
      case True
      then show ?thesis using Cons.IH [of p "Suc k" j] Cons.prems Suc by (simp add: pos_weight_def)
    next
      case False
      then show ?thesis
        using Cons.IH [of "p - rc_weight c" "Suc k" j] Cons.prems Suc nn
        by (auto simp: pos_weight_def max_def)
    qed
  qed
qed

lemma pick_loop_total:
  assumes "0 \<le> p" and "p < (\<Sum>c\<leftarrow>cs. pos_weight c)"
  shows "\<exists>i. pick_loop p k cs = Some i"
  using assms
proof (induction cs arbitrary: p k)
  case (Cons c cs)
  then show ?case by (auto simp: pos_weight_def max_def split: if_splits)
qed simp

section \<open>The queue\<close>

lemma add_unseen_spec:
  assumes "set seen = circuitKey ` set queue" and "distinct (map circuitKey queue)"
    and "add_unseen cs (seen, queue) = (seen', queue')"
  shows "set seen' = circuitKey ` set queue' \<and> distinct (map circuitKey queue') \<and>
    circuitKey ` set queue' = circuitKey ` set queue \<union> circuitKey ` set cs \<and>
    (\<exists>new. queue' = queue @ new \<and> set new \<subseteq> set cs)"
  using assms
proof (induction cs arbitrary: seen queue)
  case Nil
  then show ?case by simp
next
  case (Cons c cs)
  show ?case
  proof (cases "circuitKey c \<in> set seen")
    case True
    then have step: "add_unseen cs (seen, queue) = (seen', queue')"
      and old: "circuitKey c \<in> circuitKey ` set queue"
      using Cons.prems(1,3) by simp_all
    note IH = Cons.IH [OF Cons.prems(1,2) step]
    note IH4 = IH [THEN conjunct2, THEN conjunct2, THEN conjunct2]
    have keys: "circuitKey ` set queue' = circuitKey ` set queue \<union> circuitKey ` set (c # cs)"
      using IH old by (simp add: insert_absorb)
    have ext: "\<exists>new. queue' = queue @ new \<and> set new \<subseteq> set (c # cs)"
      using IH4 set_subset_Cons [of cs c] by blast
    show ?thesis
      by (intro conjI IH [THEN conjunct1] IH [THEN conjunct2, THEN conjunct1] keys ext)
  next
    case False
    then have step: "add_unseen cs (circuitKey c # seen, queue @ [c]) = (seen', queue')"
      using Cons.prems(3) by simp
    have "set (circuitKey c # seen) = circuitKey ` set (queue @ [c])"
      "distinct (map circuitKey (queue @ [c]))"
      using False Cons.prems(1,2) by simp_all
    note IH = Cons.IH [OF this step]
    note IH4 = IH [THEN conjunct2, THEN conjunct2, THEN conjunct2]
    have keys: "circuitKey ` set queue' = circuitKey ` set queue \<union> circuitKey ` set (c # cs)"
      using IH by simp
    obtain new where "queue' = (queue @ [c]) @ new" "set new \<subseteq> set cs"
      using IH4 by blast
    then have ext: "\<exists>new. queue' = queue @ new \<and> set new \<subseteq> set (c # cs)"
      by (intro exI [of _ "c # new"]) auto
    show ?thesis
      by (intro conjI IH [THEN conjunct1] IH [THEN conjunct2, THEN conjunct1] keys ext)
  qed
qed

lemma queue_loop_spec:
  assumes "set seen = circuitKey ` set queue" and "distinct (map circuitKey queue)"
    and "queue_loop sys r ms (seen, queue) w = (q, w')"
  shows "distinct (map circuitKey q) \<and>
    circuitKey ` set q = circuitKey ` set queue \<union> (\<Union>m \<in> set ms. circuitKey ` set (routesForModel r m)) \<and>
    (\<exists>segs. q = queue @ concat segs \<and>
       list_all2 (\<lambda>seg m. set seg \<subseteq> set (routesForModel r m)) segs ms)"
  using assms
proof (induction ms arbitrary: seen queue w)
  case Nil
  then show ?case by simp
next
  case (Cons m ms)
  obtain ordered w1 where o: "weightedOrder sys r (routesForModel r m) w = (ordered, w1)" by fastforce
  have so: "set ordered = set (routesForModel r m)"
    using weightedOrder_set [of sys r "routesForModel r m" w] o by simp
  obtain seen' queue' where a: "add_unseen ordered (seen, queue) = (seen', queue')" by fastforce
  have inv: "set seen' = circuitKey ` set queue'" "distinct (map circuitKey queue')"
    "circuitKey ` set queue' = circuitKey ` set queue \<union> circuitKey ` set (routesForModel r m)"
    "\<exists>new. queue' = queue @ new \<and> set new \<subseteq> set (routesForModel r m)"
    using add_unseen_spec [OF Cons.prems(1,2) a] unfolding so by simp_all
  have step: "queue_loop sys r ms (seen', queue') w1 = (q, w')"
    using Cons.prems(3) o a by simp
  note IH = Cons.IH [OF inv(1,2) step]
  note IH3 = IH [THEN conjunct2, THEN conjunct2]
  obtain new where new: "queue' = queue @ new" "set new \<subseteq> set (routesForModel r m)"
    using inv(4) by blast
  obtain segs where segs: "q = queue' @ concat segs"
    "list_all2 (\<lambda>seg m. set seg \<subseteq> set (routesForModel r m)) segs ms"
    using IH3 by blast
  have "q = queue @ concat (new # segs)" using segs(1) new(1) by simp
  moreover have "list_all2 (\<lambda>seg m. set seg \<subseteq> set (routesForModel r m)) (new # segs) (m # ms)"
    using segs(2) new(2) by simp
  moreover have "circuitKey ` set q = circuitKey ` set queue \<union>
      (\<Union>m \<in> set (m # ms). circuitKey ` set (routesForModel r m))"
    using IH unfolding inv(3) by (simp only: list.set UN_insert Un_assoc)
  ultimately show ?case using IH [THEN conjunct1] by blast
qed

lemma routesForModel_nonempty: "routesForModel r m \<noteq> []"
  by (simp add: routesForModel_def split: option.split list.split)

lemma buildRouteQueue_facts:
  assumes "buildRouteQueue sys r model w = (q, w')"
  shows "distinct (map circuitKey q)"
    and "circuitKey ` set q = (\<Union>m \<in> set (resolveModelChain r model). circuitKey ` set (routesForModel r m))"
    and "model \<noteq> '''' \<Longrightarrow> q \<noteq> []"
proof -
  note spec = queue_loop_spec [of "[]" "[]" sys r "resolveModelChain r model" w q w']
  show "distinct (map circuitKey q)"
    and keys: "circuitKey ` set q = (\<Union>m \<in> set (resolveModelChain r model). circuitKey ` set (routesForModel r m))"
    using spec assms by (auto simp: buildRouteQueue_def)
  show "model \<noteq> '''' \<Longrightarrow> q \<noteq> []"
    using keys resolveModelChain_nonempty [of model r] routesForModel_nonempty [of r]
    by (metis UN_I empty_iff image_is_empty list.set(1) list.set_sel(1) set_empty imageI)
qed

section \<open>What NewRegistry builds\<close>

definition usable :: "model_config \<Rightarrow> bool" where
  "usable m \<longleftrightarrow> trim_space (mc_Name m) \<noteq> '''' \<and> mc_IsActive m"

lemma model_candidate_simps [simp]:
  "rc_modelName (model_candidate m) = mc_Name m"
  "rc_fallback (model_candidate m) = trim_space (mc_Fallback m)"
  "0 < rc_weight (model_candidate m)"
  by (simp_all add: model_candidate_def Let_def)

lemma add_model_skip: "\<not> usable m \<Longrightarrow> add_model r m = r"
  by (auto simp: add_model_def usable_def)

lemma add_model_usable:
  assumes "usable m"
  shows "rg_modelRoutes (add_model r m) = (rg_modelRoutes r)(mc_Name m \<mapsto>
      (case rg_modelRoutes r (mc_Name m) of None \<Rightarrow> [] | Some cs \<Rightarrow> cs) @ [model_candidate m])"
    and "rg_modelFallbacks (add_model r m) =
      (if trim_space (mc_Fallback m) \<noteq> '''' \<and> map_of (rg_modelFallbacks r) (mc_Name m) = None
       then rg_modelFallbacks r @ [(mc_Name m, trim_space (mc_Fallback m))] else rg_modelFallbacks r)"
    and "rg_circuits (add_model r m) = (rg_circuits r)(circuitKey (model_candidate m) \<mapsto>
      NewCircuitBreaker defaultFailureThreshold defaultOpenTimeout)"
    and "rg_providers (add_model r m) = rg_providers r"
  using assms by (simp_all add: add_model_def usable_def put_circuit_def Let_def)

lemma add_models_routes:
  "rg_modelRoutes (foldl add_model r ms) n =
    (case filter (\<lambda>m. usable m \<and> mc_Name m = n) ms of
       [] \<Rightarrow> rg_modelRoutes r n
     | xs \<Rightarrow> Some ((case rg_modelRoutes r n of None \<Rightarrow> [] | Some cs \<Rightarrow> cs) @ map model_candidate xs))"
proof (induction ms arbitrary: r)
  case (Cons m ms)
  show ?case
  proof (cases "usable m")
    case True
    then show ?thesis
      by (auto simp: Cons.IH add_model_usable split: list.split option.split)
  qed (simp add: Cons.IH add_model_skip)
qed simp

lemma add_models_fallbacks:
  "map_of (rg_modelFallbacks (foldl add_model r ms)) n =
    (case map_of (rg_modelFallbacks r) n of
       Some v \<Rightarrow> Some v
     | None \<Rightarrow>
         (case filter (\<lambda>m. usable m \<and> mc_Name m = n \<and> trim_space (mc_Fallback m) \<noteq> '''') ms of
            [] \<Rightarrow> None
          | m # _ \<Rightarrow> Some (trim_space (mc_Fallback m))))"
proof (induction ms arbitrary: r)
  case (Cons m ms)
  show ?case
  proof (cases "usable m")
    case True
    then show ?thesis
      by (auto simp: Cons.IH add_model_usable map_add_def split: list.split option.split)
  next
    case False
    then show ?thesis
      by (cases "map_of (rg_modelFallbacks r) n") (simp_all add: Cons.IH add_model_skip)
  qed
qed (simp split: option.split)

lemma add_models_circuits:
  "rg_circuits (foldl add_model r ms) k =
    (if \<exists>m \<in> set ms. usable m \<and> circuitKey (model_candidate m) = k
     then Some (NewCircuitBreaker defaultFailureThreshold defaultOpenTimeout)
     else rg_circuits r k)"
proof (induction ms arbitrary: r)
  case (Cons m ms)
  show ?case
  proof (cases "usable m")
    case True
    then show ?thesis by (auto simp: Cons.IH add_model_usable)
  qed (simp add: Cons.IH add_model_skip)
qed simp

lemma add_models_providers: "rg_providers (foldl add_model r ms) = rg_providers r"
  by (induction ms arbitrary: r)
    (simp, metis add_model_skip add_model_usable(4) foldl_Cons)

text \<open>
  The registry's invariant: every route belongs to the model it is listed under, has a
  positive weight and a breaker, and every breaker satisfies its own invariant.
\<close>

definition wf_registry :: "'w registry \<Rightarrow> bool" where
  "wf_registry r \<longleftrightarrow>
     (\<forall>m cs c. rg_modelRoutes r m = Some cs \<and> c \<in> set cs \<longrightarrow>
        rc_modelName c = m \<and> 0 < rc_weight c \<and> rg_circuits r (circuitKey c) \<noteq> None) \<and>
     (\<forall>k b. rg_circuits r k = Some b \<longrightarrow> cb_inv b)"

lemma wf_registryD:
  "wf_registry r \<Longrightarrow> rg_circuits r k = Some b \<Longrightarrow> cb_inv b"
  by (auto simp: wf_registry_def)

lemma wf_put_circuit: "wf_registry r \<Longrightarrow> cb_inv b \<Longrightarrow> wf_registry (put_circuit r c b)"
  by (auto simp: wf_registry_def put_circuit_def)

lemma wf_ensureCircuit:
  assumes "wf_registry r" and "ensureCircuit r c = (b, r')"
  shows "wf_registry r'" and "cb_inv b" and "rg_circuits r' (circuitKey c) = Some b"
    and "rg_providers r' = rg_providers r"
  using assms
  by (auto simp: ensureCircuit_def wf_registry_def Let_def split: option.splits if_splits)

section \<open>Properties\<close>

text \<open>
  Claim C12.  The fallback chain of a model exists for every registry, cyclic fallback
  tables included: it starts with the trimmed model name, never repeats a model, follows
  the configured fallbacks link by link, and stops only where there is no fallback or the
  fallback is already in the chain.
\<close>

theorem resolveModelChain_spec:
  assumes "trim_space model \<noteq> ''''"
  shows "let xs = resolveModelChain r model; fb = rg_modelFallbacks r in
    xs \<noteq> [] \<and> hd xs = trim_space model \<and> distinct xs \<and> '''' \<notin> set xs \<and>
    successively (\<lambda>a b. fallback_of fb a = b) xs \<and>
    (fallback_of fb (last xs) = '''' \<or> fallback_of fb (last xs) \<in> set xs)"
proof -
  let ?xs = "chain_loop (rg_modelFallbacks r) [] [] (trim_space model)"
  have "?xs \<noteq> [] \<and> hd ?xs = trim_space model" using assms by (rule chain_loop_hd)
  moreover have "resolveModelChain r model = ?xs"
    using calculation by (simp add: resolveModelChain_def)
  moreover have "let xs = ?xs in distinct xs \<and> '''' \<notin> set xs \<and> linked (rg_modelFallbacks r) xs \<and>
      (xs \<noteq> [] \<longrightarrow> fallback_of (rg_modelFallbacks r) (last xs) = '''' \<or>
        fallback_of (rg_modelFallbacks r) (last xs) \<in> set xs)"
    by (rule chain_loop_spec) (simp_all add: linked_def)
  ultimately show ?thesis by (simp add: linked_def Let_def)
qed

theorem resolveModelChain_spec_witness:
  "distinct (resolveModelChain \<lparr>rg_providers = Map.empty, rg_modelRoutes = Map.empty,
     rg_modelFallbacks = [(''a'', ''b''), (''b'', ''a'')], rg_circuits = Map.empty,
     rg_nowFunc = None, rg_randIntn = None\<rparr> '' a'')"
proof -
  have "trim_space '' a'' \<noteq> ''''" by code_simp
  from resolveModelChain_spec [OF this, of "\<lparr>rg_providers = Map.empty, rg_modelRoutes = Map.empty,
     rg_modelFallbacks = [(''a'', ''b''), (''b'', ''a'')], rg_circuits = Map.empty,
     rg_nowFunc = None, rg_randIntn = None\<rparr>"]
  show ?thesis unfolding Let_def by blast
qed

text \<open>
  Claim C10.  The weighted draw is exactly proportional: of the numbers the random source
  can return, as many select the candidate at an index as its weight says (none for a
  weight of 0 or less), as long as the weights do not overflow 64 bits.
\<close>

theorem weighted_pick_proportional:
  assumes "(\<Sum>c\<leftarrow>cs. max 0 (rc_weight c)) < 2 ^ 63" and "i < length cs"
  shows "int (card {p. 0 \<le> p \<and> p < total_weight cs \<and>
      fst (weightedPickIndex sys (r\<lparr>rg_randIntn := Some (\<lambda>w n. (p, w))\<rparr>) cs w) = i})
    = max 0 (rc_weight (cs ! i))"
proof -
  have total: "total_weight cs = (\<Sum>c\<leftarrow>cs. pos_weight c)"
    using assms(1) by (intro total_weight_sum) (simp add: pos_weight_def)
  let ?lo = "\<Sum>c\<leftarrow>take i cs. pos_weight c" and ?hi = "\<Sum>c\<leftarrow>take (Suc i) cs. pos_weight c"
  have hi: "?hi = ?lo + pos_weight (cs ! i)"
    using assms(2) by (simp add: take_Suc_conv_app_nth)
  have "?hi + (\<Sum>c\<leftarrow>drop (Suc i) cs. pos_weight c) = total_weight cs"
    unfolding total by (metis append_take_drop_id map_append sum_list_append)
  then have hi_total: "?hi \<le> total_weight cs"
    using sum_pos_weight_nonneg [of "drop (Suc i) cs"] by linarith
  have lo: "0 \<le> ?lo" by (rule sum_pos_weight_nonneg)
  have pick: "fst (weightedPickIndex sys (r\<lparr>rg_randIntn := Some (\<lambda>w n. (p, w))\<rparr>) cs w) = i
      \<longleftrightarrow> ?lo \<le> p \<and> p < ?hi" if p: "0 \<le> p" "p < total_weight cs" for p
  proof -
    have rand: "registry_rand sys (r\<lparr>rg_randIntn := Some (\<lambda>w n. (p, w))\<rparr>) (total_weight cs) w = (p, w)"
      using p by (auto simp: registry_rand_def)
    obtain j where j: "pick_loop p 0 cs = Some j"
      using pick_loop_total [OF p(1)] p(2) total by metis
    have "fst (weightedPickIndex sys (r\<lparr>rg_randIntn := Some (\<lambda>w n. (p, w))\<rparr>) cs w) = j"
      using p rand j by (simp add: weightedPickIndex_def)
    moreover have "j = i \<longleftrightarrow> ?lo \<le> p \<and> p < ?hi"
      using pick_loop_interval [OF p(1), of 0 cs i] j assms(2) by simp
    ultimately show ?thesis by simp
  qed
  have "{p. 0 \<le> p \<and> p < total_weight cs \<and>
      fst (weightedPickIndex sys (r\<lparr>rg_randIntn := Some (\<lambda>w n. (p, w))\<rparr>) cs w) = i} = {?lo ..< ?hi}"
    using pick lo hi_total by force
  then show ?thesis using hi by (simp add: pos_weight_def)
qed

theorem weighted_pick_proportional_witness:
  "int (card {p. 0 \<le> p \<and> p < total_weight [\<lparr>rc_modelName = ''m'', rc_providerName = ''a'', rc_weight = 5, rc_fallback = ''''\<rparr>,
       \<lparr>rc_modelName = ''m'', rc_providerName = ''b'', rc_weight = 3, rc_fallback = ''''\<rparr>] \<and>
     fst (weightedPickIndex \<lparr>sys_now = (\<lambda>w::unit. (1, w)), sys_rand = (\<lambda>w n. (0, w))\<rparr>
       (\<lparr>rg_providers = Map.empty, rg_modelRoutes = Map.empty, rg_modelFallbacks = [],
         rg_circuits = Map.empty, rg_nowFunc = None, rg_randIntn = None\<rparr>
         \<lparr>rg_randIntn := Some (\<lambda>w n. (p, w))\<rparr>)
       [\<lparr>rc_modelName = ''m'', rc_providerName = ''a'', rc_weight = 5, rc_fallback = ''''\<rparr>,
        \<lparr>rc_modelName = ''m'', rc_providerName = ''b'', rc_weight = 3, rc_fallback = ''''\<rparr>] ()) = 1}) = 3"
  by (subst weighted_pick_proportional) simp_all

text \<open>
  Claim C11.  The route queue of a model tries each breaker key at most once, reaches the key
  of every candidate of every model in the fallback chain, keeps the models in the order of
  the chain, and is never empty for a non-empty model; whatever the random draws are.
\<close>

theorem buildRouteQueue_spec:
  "let q = fst (buildRouteQueue sys r model w); ms = resolveModelChain r model in
    distinct (map circuitKey q) \<and>
    circuitKey ` set q = (\<Union>m \<in> set ms. circuitKey ` set (routesForModel r m)) \<and>
    (\<exists>segs. q = concat segs \<and> list_all2 (\<lambda>seg m. set seg \<subseteq> set (routesForModel r m)) segs ms) \<and>
    (q = [] \<longleftrightarrow> model = '''')"
proof -
  obtain q w' where b: "buildRouteQueue sys r model w = (q, w')" by fastforce
  have "q = [] \<longleftrightarrow> model = ''''"
    using buildRouteQueue_facts [OF b] b
    by (cases "model = ''''") (simp_all add: buildRouteQueue_def resolveModelChain_def chain_loop_blank)
  then show ?thesis
    using buildRouteQueue_facts [OF b] queue_loop_spec [of "[]" "[]" sys r "resolveModelChain r model" w q w'] b
    by (simp add: buildRouteQueue_def Let_def)
qed

text \<open>
  The order in which the candidates of one model are tried is a permutation of
  the configured ones: a draw never loses, repeats or invents a candidate.
\<close>

lemma weightedOrder_permutation:
  "mset (fst (weightedOrder sys r cs w)) = mset cs"
  by (rule weightedOrder_mset)

lemma NewRegistry_tables:
  "rg_modelRoutes (NewRegistry sys mk cfg) n = (case filter (\<lambda>m. usable m \<and> mc_Name m = n) (cfg_Models cfg) of
      [] \<Rightarrow> None | xs \<Rightarrow> Some (map model_candidate xs))"
  "map_of (rg_modelFallbacks (NewRegistry sys mk cfg)) n =
      (case filter (\<lambda>m. usable m \<and> mc_Name m = n \<and> trim_space (mc_Fallback m) \<noteq> '''') (cfg_Models cfg) of
         [] \<Rightarrow> None | m # _ \<Rightarrow> Some (trim_space (mc_Fallback m)))"
  "rg_circuits (NewRegistry sys mk cfg) k =
      (if \<exists>m \<in> set (cfg_Models cfg). usable m \<and> circuitKey (model_candidate m) = k
       then Some (NewCircuitBreaker defaultFailureThreshold defaultOpenTimeout) else None)"
  by (simp add: NewRegistry_def add_models_routes split: list.split)
    (simp_all add: NewRegistry_def add_models_fallbacks add_models_circuits)

lemma NewRegistry_wf: "wf_registry (NewRegistry sys mk cfg)"
proof -
  let ?r = "NewRegistry sys mk cfg"
  note routes = NewRegistry_tables(1) and circuits = NewRegistry_tables(3)
  have "rc_modelName c = m \<and> 0 < rc_weight c \<and> rg_circuits ?r (circuitKey c) \<noteq> None"
    if cs: "rg_modelRoutes ?r m = Some cs" "c \<in> set cs" for m cs c
  proof -
    have "cs = map model_candidate (filter (\<lambda>x. usable x \<and> mc_Name x = m) (cfg_Models cfg))"
      using cs(1) unfolding routes by (simp split: list.splits)
    then obtain x where "x \<in> set (cfg_Models cfg)" "usable x" "mc_Name x = m" "c = model_candidate x"
      using cs(2) by auto
    then show ?thesis using circuits [of sys mk cfg "circuitKey c"] by auto
  qed
  moreover have "cb_inv b" if "rg_circuits ?r k = Some b" for k b
    using that by (auto simp: circuits split: if_splits)
  ultimately show ?thesis unfolding wf_registry_def by blast
qed

text \<open>
  \<open>NewRegistry\<close> registers, for each model name, the active entries of that name
  in their configured order, takes the first fallback configured for it, gives every
  candidate a fresh closed breaker, and satisfies the registry's invariant.
\<close>

lemma NewRegistry_spec:
  "wf_registry (NewRegistry sys mk cfg) \<and>
    rg_modelRoutes (NewRegistry sys mk cfg) n =
      (case filter (\<lambda>m. usable m \<and> mc_Name m = n) (cfg_Models cfg) of
         [] \<Rightarrow> None | xs \<Rightarrow> Some (map model_candidate xs)) \<and>
    map_of (rg_modelFallbacks (NewRegistry sys mk cfg)) n =
      (case filter (\<lambda>m. usable m \<and> mc_Name m = n \<and> trim_space (mc_Fallback m) \<noteq> '''') (cfg_Models cfg) of
         [] \<Rightarrow> None | m # _ \<Rightarrow> Some (trim_space (mc_Fallback m))) \<and>
    dom (rg_providers (NewRegistry sys mk cfg)) = {''openai'', ''anthropic'', ''minimax''}"
proof -
  have "dom (rg_providers (NewRegistry sys mk cfg)) = {''openai'', ''anthropic'', ''minimax''}"
    by (simp add: NewRegistry_def add_models_providers) blast
  then show ?thesis using NewRegistry_wf NewRegistry_tables by (intro conjI) simp_all
qed

end
