(* ===== verification/RegistryChat.thy ===== *)
theory RegistryChat
  imports Registry
begin

text \<open>
  \<open>Registry.ChatCompletion\<close>: the loop over the route queue, with the breaker test before
  each call, the breaker update after it, and the decision to fall back or to fail fast.
\<close>

definition not_configured_error :: "route_candidate \<Rightarrow> upstream_error" where
  "not_configured_error c = upstream_error_zero
     \<lparr>ue_Provider := rc_providerName c, ue_Model := rc_modelName c, ue_StatusCode := 503,
      ue_Message := ''provider client is not configured''\<rparr>"

text \<open>How the loop ended: by a return inside it, or with \<open>lastErr\<close> and the skip count.\<close>

datatype loop_result =
    Finished "upstream_error + prov_response"
  | Exhausted "upstream_error option" nat

text \<open>One pass of the loop body: what became of the candidate.\<close>

datatype attempt =
    NoClient
  | Blocked
  | Succeeded prov_response
  | Failed upstream_error

definition attempt_route ::
  "'w sys \<Rightarrow> 'w registry \<Rightarrow> prov_request \<Rightarrow> route_candidate \<Rightarrow> 'w \<Rightarrow> attempt \<times> 'w registry \<times> 'w" where
  "attempt_route sys r req c w =
     (case rg_providers r (rc_providerName c) of
        None \<Rightarrow> (NoClient, r, w)
      | Some client \<Rightarrow>
          let (b, r) = ensureCircuit r c;
              (now, w) = registry_now sys r w;
              (ok, b) = cb_Allow b now;
              r = put_circuit r c b
          in if \<not> ok then (Blocked, r, w)
             else
               (case client w (req\<lparr>pr_Model := rc_modelName c\<rparr>) of
                  (Inr resp, w) \<Rightarrow> (Succeeded resp, put_circuit r c (cb_RecordSuccess b), w)
                | (Inl err, w) \<Rightarrow>
                    let err = err\<lparr>ue_Provider := rc_providerName c, ue_Model := rc_modelName c\<rparr>
                    in (Failed err,
                        put_circuit r c (if shouldTripCircuit (Some err)
                                         then cb_RecordFailure b now else cb_RecordSuccess b),
                        w)))"

fun route_loop ::
  "'w sys \<Rightarrow> 'w registry \<Rightarrow> prov_request \<Rightarrow> route_candidate list \<Rightarrow> upstream_error option \<Rightarrow> nat
    \<Rightarrow> 'w \<Rightarrow> loop_result \<times> 'w registry \<times> 'w" where
  "route_loop sys r req [] lastErr skipped w = (Exhausted lastErr skipped, r, w)"
| "route_loop sys r req (c # cs) lastErr skipped w =
     (case attempt_route sys r req c w of
        (NoClient, r, w) \<Rightarrow> route_loop sys r req cs (Some (not_configured_error c)) skipped w
      | (Blocked, r, w) \<Rightarrow> route_loop sys r req cs lastErr (Suc skipped) w
      | (Succeeded resp, r, w) \<Rightarrow> (Finished (Inr resp), r, w)
      | (Failed err, r, w) \<Rightarrow>
          if \<not> shouldFallback (Some err) then (Finished (Inl err), r, w)
          else route_loop sys r req cs (Some err) skipped w)"

definition service_unavailable_error :: "string \<Rightarrow> upstream_error" where
  "service_unavailable_error msg =
     upstream_error_zero\<lparr>ue_StatusCode := 503, ue_Message := msg\<rparr>"

definition chat_model :: "prov_request \<Rightarrow> string" where
  "chat_model req =
     (let model = trim_space (pr_Model req)
      in if model = '''' then ''gpt-4'' else model)"

definition registry_chat ::
  "'w sys \<Rightarrow> 'w registry \<Rightarrow> prov_request \<Rightarrow> 'w
    \<Rightarrow> (upstream_error + prov_response) \<times> 'w registry \<times> 'w" where
  "registry_chat sys r req w =
     (let model = chat_model req
      in case buildRouteQueue sys r model w of
           (queue, w) \<Rightarrow>
             if queue = []
             then (Inl (service_unavailable_error (''no provider route available for model '' @ model)), r, w)
             else
               (case route_loop sys r req queue None 0 w of
                  (Finished res, r, w) \<Rightarrow> (res, r, w)
                | (Exhausted lastErr skipped, r, w) \<Rightarrow>
                    if skipped = length queue
                    then (Inl (service_unavailable_error ''all candidate routes are circuit-open''), r, w)
                    else (case lastErr of
                            Some err \<Rightarrow> (Inl err, r, w)
                          | None \<Rightarrow>
                              (Inl (service_unavailable_error (''all routes failed for model '' @ model)), r, w))))"

text \<open>The method on the pointer, which may be nil.\<close>

definition registry_ChatCompletion ::
  "'w sys \<Rightarrow> 'w registry option \<Rightarrow> prov_request \<Rightarrow> 'w
    \<Rightarrow> (upstream_error + prov_response) \<times> 'w registry option \<times> 'w" where
  "registry_ChatCompletion sys rp req w =
     (case rp of
        None \<Rightarrow> (Inl (service_unavailable_error ''provider registry is not initialized''), None, w)
      | Some r \<Rightarrow> (case registry_chat sys r req w of (res, r, w) \<Rightarrow> (res, Some r, w)))"

section \<open>The loop: composition, frame and invariant\<close>

text \<open>What a request may change: the breakers of the candidates it tries.\<close>

definition registry_frame :: "'w registry \<Rightarrow> 'w registry \<Rightarrow> route_candidate list \<Rightarrow> bool" where
  "registry_frame r r' cs \<longleftrightarrow>
     rg_providers r' = rg_providers r \<and> rg_modelRoutes r' = rg_modelRoutes r \<and>
     rg_modelFallbacks r' = rg_modelFallbacks r \<and> rg_nowFunc r' = rg_nowFunc r \<and>
     rg_randIntn r' = rg_randIntn r \<and>
     (\<forall>k. k \<notin> circuitKey ` set cs \<longrightarrow> rg_circuits r' k = rg_circuits r k)"

lemma registry_frame_refl [simp]: "registry_frame r r cs"
  by (simp add: registry_frame_def)

lemma registry_frame_trans:
  "registry_frame r r' [c] \<Longrightarrow> registry_frame r' r'' cs \<Longrightarrow> registry_frame r r'' (c # cs)"
  by (simp add: registry_frame_def)

lemma registry_frame_put: "registry_frame r r' [c] \<Longrightarrow> registry_frame r (put_circuit r' c b) [c]"
  by (simp add: registry_frame_def put_circuit_def)

lemma registry_frame_weaken: "registry_frame r r' cs \<Longrightarrow> registry_frame r r' (c # cs)"
  by (simp add: registry_frame_def)

lemma registry_frame_ensure: "ensureCircuit r c = (b, r') \<Longrightarrow> registry_frame r r' [c]"
  by (auto simp: registry_frame_def ensureCircuit_def Let_def split: option.splits)

lemma registry_now_frame: "registry_frame r r' cs \<Longrightarrow> registry_now sys r' = registry_now sys r"
  by (rule ext) (simp add: registry_frame_def registry_now_def)

lemma registry_now_put [simp]: "registry_now sys (put_circuit r c b) = registry_now sys r"
  by (rule ext) (simp add: registry_now_def put_circuit_def)

lemma put_circuit_same: "rg_circuits r (circuitKey c) = Some b \<Longrightarrow> put_circuit r c b = r"
  by (simp add: put_circuit_def map_upd_triv)

lemma put_circuit_twice [simp]: "put_circuit (put_circuit r c b) c b' = put_circuit r c b'"
  by (simp add: put_circuit_def)

lemma put_circuit_simps [simp]:
  "rg_providers (put_circuit r c b) = rg_providers r"
  "rg_modelRoutes (put_circuit r c b) = rg_modelRoutes r"
  "rg_modelFallbacks (put_circuit r c b) = rg_modelFallbacks r"
  "rg_circuits (put_circuit r c b) (circuitKey c) = Some b"
  by (simp_all add: put_circuit_def)

lemma ensureCircuit_known [simp]:
  "rg_circuits r (circuitKey c) = Some b \<Longrightarrow> ensureCircuit r c = (b, r)"
  by (simp add: ensureCircuit_def)

lemma route_loop_append:
  "route_loop sys r req (xs @ ys) lastErr skipped w =
    (case route_loop sys r req xs lastErr skipped w of
       (Finished res, r', w') \<Rightarrow> (Finished res, r', w')
     | (Exhausted l s, r', w') \<Rightarrow> route_loop sys r' req ys l s w')"
  by (induction xs arbitrary: r lastErr skipped w)
    (simp_all split: prod.split attempt.split)

lemma attempt_route_frame:
  "attempt_route sys r req c w = (a, r', w') \<Longrightarrow> registry_frame r r' [c]"
  by (auto simp: attempt_route_def Let_def registry_frame_ensure registry_frame_put
      split: option.splits prod.splits if_splits sum.splits)

lemma attempt_route_wf:
  assumes wf: "wf_registry r" and clock: "\<And>w. fst (registry_now sys r w) \<noteq> 0"
    and a: "attempt_route sys r req c w = (a, r', w')"
  shows "wf_registry r'"
proof (cases "rg_providers r (rc_providerName c)")
  case None
  with a wf show ?thesis by (simp add: attempt_route_def)
next
  case (Some client)
  obtain b r1 where e: "ensureCircuit r c = (b, r1)" by fastforce
  obtain now w1 where n: "registry_now sys r1 w = (now, w1)" by fastforce
  obtain ok b1 where al: "cb_Allow b now = (ok, b1)" by fastforce
  have wf1: "wf_registry r1" and b: "cb_inv b" using wf_ensureCircuit [OF wf e] by blast+
  have now: "now \<noteq> 0"
    using clock [of w] n registry_now_frame [OF registry_frame_ensure [OF e], of sys] by (metis fst_conv)
  have b1: "cb_inv b1" using cb.inv_allow [OF b, of now] al by simp
  show ?thesis
    using a wf_put_circuit [OF wf1] b1 cb.inv_fail [OF b1 now] cb.inv_succeed [OF b1]
    by (auto simp: attempt_route_def Some e n al Let_def split: if_splits sum.splits prod.splits)
qed

lemma attempt_route_blocked:
  assumes "rg_providers r (rc_providerName c) \<noteq> None" and "rg_circuits r (circuitKey c) = Some b"
    and "registry_now sys r w = (now, w')" and "cb_IsOpen b now"
  shows "attempt_route sys r req c w = (Blocked, r, w')"
  using assms by (auto simp: attempt_route_def cb_Allow_blocked put_circuit_same)

lemma attempt_route_called:
  assumes "rg_providers r (rc_providerName c) = Some client"
    and "rg_circuits r (circuitKey c) = Some b"
    and "registry_now sys r w = (now, w1)" and "\<not> cb_IsOpen b now"
    and "client w1 (req\<lparr>pr_Model := rc_modelName c\<rparr>) = (Inl err, w')"
    and "err' = err\<lparr>ue_Provider := rc_providerName c, ue_Model := rc_modelName c\<rparr>"
  shows "attempt_route sys r req c w =
    (Failed err',
     put_circuit r c (let b' = snd (cb_Allow b now)
        in if shouldTripCircuit (Some err') then cb_RecordFailure b' now else cb_RecordSuccess b'),
     w')"
proof -
  have "cb_Allow b now = (True, snd (cb_Allow b now))"
    using assms(4) cb_Allow_iff [of b now] by (simp add: prod_eq_iff)
  then obtain b' where "cb_Allow b now = (True, b')" by blast
  then show ?thesis using assms(1-3,5,6) by (simp add: attempt_route_def Let_def)
qed

text \<open>Where an outcome comes from: a client of the queue, asked for the candidate's model.\<close>

definition from_client ::
  "'w registry \<Rightarrow> prov_request \<Rightarrow> route_candidate list \<Rightarrow> (upstream_error + prov_response) \<Rightarrow> bool" where
  "from_client r req cs res \<longleftrightarrow>
     (\<exists>c \<in> set cs. \<exists>client w w'. rg_providers r (rc_providerName c) = Some client \<and>
        (case res of
           Inr resp \<Rightarrow> client w (req\<lparr>pr_Model := rc_modelName c\<rparr>) = (Inr resp, w')
         | Inl err \<Rightarrow> \<exists>e. client w (req\<lparr>pr_Model := rc_modelName c\<rparr>) = (Inl e, w') \<and>
             err = e\<lparr>ue_Provider := rc_providerName c, ue_Model := rc_modelName c\<rparr>))"

lemma attempt_route_from_client:
  assumes "attempt_route sys r req c w = (a, r', w')"
  shows "a = Succeeded resp \<Longrightarrow> from_client r req [c] (Inr resp)"
    and "a = Failed err \<Longrightarrow> from_client r req [c] (Inl err)"
  using assms
  by (auto simp: attempt_route_def from_client_def Let_def
      split: option.splits prod.splits if_splits sum.splits)

lemma from_client_Cons:
  "from_client r req [c] res \<Longrightarrow> from_client r req (c # cs) res"
  "from_client r req cs res \<Longrightarrow> from_client r req (c # cs) res"
  unfolding from_client_def list.set by blast+

lemma from_client_frame:
  "registry_frame r r' ds \<Longrightarrow> from_client r' req cs res = from_client r req cs res"
  by (simp add: from_client_def registry_frame_def)

lemma route_loop_frame:
  "route_loop sys r req cs l s w = (res, r', w') \<Longrightarrow> registry_frame r r' cs"
proof (induction cs arbitrary: r l s w)
  case (Cons c cs)
  obtain a r1 w1 where a: "attempt_route sys r req c w = (a, r1, w1)" by (metis prod_cases3)
  note fr = attempt_route_frame [OF a]
  then have weak: "registry_frame r r1 (c # cs)" by (simp add: registry_frame_def)
  show ?case
    using Cons.prems Cons.IH registry_frame_trans [OF fr] weak a
    by (auto split: attempt.splits if_splits)
qed simp

lemma route_loop_wf:
  assumes "wf_registry r" and "\<And>w. fst (registry_now sys r w) \<noteq> 0"
    and "route_loop sys r req cs l s w = (res, r', w')"
  shows "wf_registry r'"
  using assms
proof (induction cs arbitrary: r l s w)
  case (Cons c cs)
  obtain a r1 w1 where a: "attempt_route sys r req c w = (a, r1, w1)" by (metis prod_cases3)
  have wf1: "wf_registry r1" by (rule attempt_route_wf [OF Cons.prems(1,2) a])
  have clock1: "fst (registry_now sys r1 w) \<noteq> 0" for w
    using Cons.prems(2) registry_now_frame [OF attempt_route_frame [OF a], of sys] by simp
  show ?case
    using Cons.prems(3) Cons.IH [OF wf1 clock1] wf1 a
    by (auto split: attempt.splits if_splits)
qed simp

lemma route_loop_exhausted:
  "route_loop sys r req cs l s w = (Exhausted l' s', r', w') \<Longrightarrow>
   s' \<le> s + length cs \<and> (l' = None \<longrightarrow> l = None \<and> s' = s + length cs)"
proof (induction cs arbitrary: r l s w)
  case (Cons c cs)
  then show ?case by (fastforce split: prod.splits attempt.splits if_splits)
qed simp

text \<open>
  Every outcome of the loop is a client's answer, unless it is the \<open>lastErr\<close> it began
  with or the error for a candidate without a client.
\<close>

lemma route_loop_origin:
  assumes "route_loop sys r req cs l s w = (res, r', w')"
  shows "(\<forall>out. res = Finished out \<longrightarrow> from_client r req cs out) \<and>
    (\<forall>err s'. res = Exhausted (Some err) s' \<longrightarrow>
       l = Some err \<or> from_client r req cs (Inl err) \<or> (\<exists>c \<in> set cs. err = not_configured_error c))"
  using assms
proof (induction cs arbitrary: r l s w)
  case (Cons c cs)
  obtain a r1 w1 where a: "attempt_route sys r req c w = (a, r1, w1)" by (metis prod_cases3)
  note org = attempt_route_from_client [OF a]
  note fr = from_client_frame [OF attempt_route_frame [OF a], of req]
  show ?case
  proof (cases a)
    case NoClient
    then show ?thesis using Cons.prems Cons.IH [of r1 "Some (not_configured_error c)" s w1] a fr
      by (auto intro: from_client_Cons)
  next
    case Blocked
    then show ?thesis using Cons.prems Cons.IH [of r1 l "Suc s" w1] a fr
      by (auto intro: from_client_Cons)
  next
    case (Succeeded resp)
    then show ?thesis using Cons.prems a org(1) by (auto intro: from_client_Cons)
  next
    case (Failed err)
    then show ?thesis using Cons.prems Cons.IH [of r1 "Some err" s w1] a fr org(2) [of err]
      by (auto intro: from_client_Cons split: if_splits)
  qed
qed auto

text \<open>
  A queue whose breakers are all open: \<open>I\<close> is any predicate of the world that reading the
  clock keeps, so the clients have not been called.
\<close>

lemma route_loop_all_open:
  assumes "\<And>c. c \<in> set cs \<Longrightarrow> rg_providers r (rc_providerName c) \<noteq> None"
    and "\<And>c. c \<in> set cs \<Longrightarrow> \<exists>b. rg_circuits r (circuitKey c) = Some b \<and>
      (\<forall>w. I w \<longrightarrow> cb_IsOpen b (fst (registry_now sys r w)))"
    and "\<And>w. I w \<Longrightarrow> I (snd (registry_now sys r w))" and "I w"
  shows "\<exists>w'. route_loop sys r req cs l s w = (Exhausted l (s + length cs), r, w') \<and> I w'"
  using assms(1,2,4)
proof (induction cs arbitrary: s w)
  case Nil
  then show ?case by simp
next
  case (Cons c cs)
  obtain b where b: "rg_circuits r (circuitKey c) = Some b"
    "\<And>w. I w \<Longrightarrow> cb_IsOpen b (fst (registry_now sys r w))"
    using Cons.prems(2) [of c] by auto
  obtain now w1 where n: "registry_now sys r w = (now, w1)" by fastforce
  have "attempt_route sys r req c w = (Blocked, r, w1)"
    using attempt_route_blocked [of r c b sys w now w1] Cons.prems(1) [of c] b(1) b(2) [OF Cons.prems(3)] n
    by simp
  moreover have "I w1" using assms(3) [OF Cons.prems(3)] n by simp
  ultimately show ?case
    using Cons.IH [of w1 "Suc s"] Cons.prems(1,2) by simp
qed

section \<open>One route: the breaker across requests\<close>

text \<open>A model with one candidate and no fallback has that candidate as its queue.\<close>

lemma buildRouteQueue_single:
  assumes "rg_modelRoutes r m = Some [c]" and "fallback_of (rg_modelFallbacks r) m = ''''"
    and "trim_space m = m" and "m \<noteq> ''''"
  shows "buildRouteQueue sys r m w = ([c], w)"
proof -
  have "chain_loop (rg_modelFallbacks r) [] [] m = [m]"
    using assms(2,4) by (subst chain_loop.simps) (simp add: Let_def)
  then have "resolveModelChain r m = [m]" using assms(3) by (simp add: resolveModelChain_def)
  then show ?thesis
    using assms(1) by (simp add: buildRouteQueue_def routesForModel_def weightedOrder_def)
qed

definition single_route :: "'w registry \<Rightarrow> string \<Rightarrow> route_candidate \<Rightarrow> 'w client \<Rightarrow> bool" where
  "single_route r m c client \<longleftrightarrow>
     trim_space m = m \<and> m \<noteq> '''' \<and>
     rg_modelRoutes r m = Some [c] \<and> fallback_of (rg_modelFallbacks r) m = '''' \<and>
     rg_providers r (rc_providerName c) = Some client"

lemma single_route_put [simp]: "single_route (put_circuit r c' b) m c client = single_route r m c client"
  by (simp add: single_route_def)

lemma single_route_chat:
  assumes "single_route r m c client" and "trim_space (pr_Model req) = m"
  shows "registry_chat sys r req w =
    (case attempt_route sys r req c w of
       (NoClient, r, w) \<Rightarrow> (Inl (not_configured_error c), r, w)
     | (Blocked, r, w) \<Rightarrow> (Inl (service_unavailable_error ''all candidate routes are circuit-open''), r, w)
     | (Succeeded resp, r, w) \<Rightarrow> (Inr resp, r, w)
     | (Failed err, r, w) \<Rightarrow> (Inl err, r, w))"
  using assms buildRouteQueue_single [of r m c sys w]
  by (auto simp: registry_chat_def chat_model_def single_route_def split: prod.split attempt.split)

lemma single_route_blocked:
  assumes "single_route r m c client" and "trim_space (pr_Model req) = m"
    and "rg_circuits r (circuitKey c) = Some b" and "registry_now sys r w = (now, w')"
    and "cb_IsOpen b now"
  shows "registry_chat sys r req w =
    (Inl (service_unavailable_error ''all candidate routes are circuit-open''), r, w')"
  using attempt_route_blocked [of r c b sys w now w' req] assms
  by (simp add: single_route_chat single_route_def)

lemma single_route_tripping:
  assumes "single_route r m c client" and "trim_space (pr_Model req) = m"
    and "rg_circuits r (circuitKey c) = Some b" and "registry_now sys r w = (now, w1)"
    and "\<not> cb_IsOpen b now"
    and "client w1 (req\<lparr>pr_Model := rc_modelName c\<rparr>) = (Inl err, w')"
    and "shouldTripCircuit (Some err)"
  shows "registry_chat sys r req w =
    (Inl (err\<lparr>ue_Provider := rc_providerName c, ue_Model := rc_modelName c\<rparr>),
     put_circuit r c (cb_RecordFailure (snd (cb_Allow b now)) now), w')"
proof -
  let ?e = "err\<lparr>ue_Provider := rc_providerName c, ue_Model := rc_modelName c\<rparr>"
  have "shouldTripCircuit (Some ?e)" using assms(7) by (auto simp: shouldTripCircuit_def split: if_splits)
  then show ?thesis
    using attempt_route_called [of r c client b sys w now w1 req err w' ?e] assms(1-6)
    by (simp add: single_route_chat single_route_def Let_def)
qed

text \<open>Requests one after the other; the second component is the world before each of them.\<close>

fun chat_run :: "'w sys \<Rightarrow> prov_request list \<Rightarrow> 'w registry \<Rightarrow> 'w \<Rightarrow> 'w registry \<times> 'w" where
  "chat_run sys [] r w = (r, w)"
| "chat_run sys (q # qs) r w =
     (case registry_chat sys r q w of (_, r, w) \<Rightarrow> chat_run sys qs r w)"

section \<open>An outage of the upstream\<close>

text \<open>A breaker of the registry after \<open>n\<close> consecutive failures, opened at \<open>t\<close> (0 for never).\<close>

definition struck :: "int \<Rightarrow> time \<Rightarrow> circuit_breaker" where
  "struck n t = \<lparr>cb_failureThreshold = defaultFailureThreshold, cb_openTimeout = defaultOpenTimeout,
     cb_consecutiveFailures = n, cb_openedAt = t\<rparr>"

definition always_trips :: "'w client \<Rightarrow> bool" where
  "always_trips client \<longleftrightarrow>
     (\<forall>w q. \<exists>err w'. client w q = (Inl err, w') \<and> shouldTripCircuit (Some err))"

lemma struck_new: "NewCircuitBreaker defaultFailureThreshold defaultOpenTimeout = struck 0 0"
  by (simp add: NewCircuitBreaker_def struck_def)

lemma struck_closed:
  "\<not> cb_IsOpen (struck n 0) now"
  "cb_RecordFailure (snd (cb_Allow (struck n 0) now)) now = struck (n + 1) (if 3 \<le> n + 1 then now else 0)"
  by (simp_all add: struck_def cb_ops)

lemma struck_success: "cb_RecordSuccess (snd (cb_Allow (struck n 0) now)) = struck 0 0"
  by (simp add: struck_def cb_ops)

lemma struck_open: "t \<noteq> 0 \<Longrightarrow> cb_IsOpen (struck n t) now \<longleftrightarrow> time_sub now t < defaultOpenTimeout"
  by (simp add: struck_def cb_ops)

lemma outage_request:
  assumes "single_route r m c client" and "always_trips client"
    and "trim_space (pr_Model req) = m" and "rg_circuits r (circuitKey c) = Some b"
    and "registry_now sys r w = (now, w1)" and "\<not> cb_IsOpen b now"
  shows "\<exists>err w'. registry_chat sys r req w =
    (Inl err, put_circuit r c (cb_RecordFailure (snd (cb_Allow b now)) now), w')"
proof -
  obtain err w' where "client w1 (req\<lparr>pr_Model := rc_modelName c\<rparr>) = (Inl err, w')"
    and "shouldTripCircuit (Some err)"
    using assms(2) unfolding always_trips_def by blast
  then show ?thesis using single_route_tripping [OF assms(1,3,4,5,6)] by blast
qed

lemma outage_run:
  assumes "single_route r m c client" and "always_trips client"
    and "trim_space (pr_Model q1) = m" and "trim_space (pr_Model q2) = m"
    and "rg_circuits r (circuitKey c) = Some (struck 0 0)"
    and "chat_run sys [q1, q2] r w = (r2, w2)"
  shows "r2 = put_circuit r c (struck 2 0)"
proof -
  obtain n1 v1 where n1: "registry_now sys r w = (n1, v1)" by fastforce
  from outage_request [OF assms(1,2,3,5) n1 struck_closed(1)] struck_closed(2) [of 0 n1]
  obtain e1 u1 where 1: "registry_chat sys r q1 w = (Inl e1, put_circuit r c (struck 1 0), u1)"
    by auto
  let ?r1 = "put_circuit r c (struck 1 0)"
  have s1: "single_route ?r1 m c client" using assms(1) by simp
  obtain n2 v2 where n2: "registry_now sys ?r1 u1 = (n2, v2)" by fastforce
  from outage_request [OF s1 assms(2,4) put_circuit_simps(4) n2 struck_closed(1)] struck_closed(2) [of 1 n2]
  obtain e2 u2 where "registry_chat sys ?r1 q2 u1 = (Inl e2, put_circuit r c (struck 2 0), u2)"
    by auto
  then show ?thesis using assms(6) 1 by simp
qed

lemma chat_model_nonempty [simp]: "chat_model req \<noteq> ''''"
  by (simp add: chat_model_def Let_def)

section \<open>An upstream that hangs\<close>

text \<open>
  The clock reads \<open>T w\<close> and never goes back, and a call takes at least 30 seconds, as one that
  runs into the timeout of the HTTP client does.
\<close>

definition hanging :: "'w sys \<Rightarrow> 'w registry \<Rightarrow> ('w \<Rightarrow> time) \<Rightarrow> 'w client \<Rightarrow> bool" where
  "hanging sys r T client \<longleftrightarrow>
     (\<forall>w. fst (registry_now sys r w) = T w \<and> T w \<le> T (snd (registry_now sys r w))) \<and>
     (\<forall>w q. T w + defaultOpenTimeout \<le> T (snd (client w q)))"

text \<open>A breaker whose window, if it was ever opened, is over at \<open>t\<close>.\<close>

definition window_over :: "circuit_breaker \<Rightarrow> time \<Rightarrow> bool" where
  "window_over b t \<longleftrightarrow>
     cb_openTimeout b = defaultOpenTimeout \<and> (cb_openedAt b = 0 \<or> cb_openedAt b + defaultOpenTimeout \<le> t)"

lemma window_over_allows: "window_over b t \<Longrightarrow> \<not> cb_IsOpen b t"
  by (auto simp: window_over_def cb_ops time_sub_def)

lemma window_over_failure:
  "window_over b now \<Longrightarrow> now + defaultOpenTimeout \<le> t \<Longrightarrow>
    window_over (cb_RecordFailure (snd (cb_Allow b now)) now) t"
  by (auto simp: window_over_def cb_ops)

lemma hangingD: "hanging sys r T client \<Longrightarrow> T w + defaultOpenTimeout \<le> T (snd (client w q))"
  by (simp add: hanging_def)

lemma hanging_put [simp]: "hanging sys (put_circuit r c b) T client = hanging sys r T client"
  by (simp add: hanging_def)

lemma hanging_request:
  assumes "single_route r m c client" and "always_trips client" and "hanging sys r T client"
    and "trim_space (pr_Model q) = m" and "rg_circuits r (circuitKey c) = Some b" and "window_over b (T w)"
  obtains v e w' b' where "registry_now sys r w = (T w, v)" "client v (q\<lparr>pr_Model := rc_modelName c\<rparr>) = (Inl e, w')"
    "registry_chat sys r q w =
      (Inl (e\<lparr>ue_Provider := rc_providerName c, ue_Model := rc_modelName c\<rparr>), put_circuit r c b', w')"
    "window_over b' (T w')"
proof -
  have "fst (registry_now sys r w) = T w" "T w \<le> T (snd (registry_now sys r w))"
    using assms(3) by (simp_all add: hanging_def)
  then obtain v where now: "registry_now sys r w = (T w, v)" "T w \<le> T v"
    by (cases "registry_now sys r w") simp
  obtain e w' where call: "client v (q\<lparr>pr_Model := rc_modelName c\<rparr>) = (Inl e, w')" "shouldTripCircuit (Some e)"
    using assms(2) unfolding always_trips_def by blast
  have "T w + defaultOpenTimeout \<le> T w'"
    using assms(3) call(1) now(2) hangingD [of sys r T client v "q\<lparr>pr_Model := rc_modelName c\<rparr>"] by simp
  from window_over_failure [OF assms(6) this] show thesis
    by (rule that [OF now(1) call(1)
          single_route_tripping [OF assms(1,4,5) now(1) window_over_allows [OF assms(6)] call]])
qed

lemma hanging_run:
  assumes "single_route r m c client" and "always_trips client" and "hanging sys r T client"
    and "\<And>q. q \<in> set qs \<Longrightarrow> trim_space (pr_Model q) = m"
    and "rg_circuits r (circuitKey c) = Some b" and "window_over b (T w)"
    and "chat_run sys qs r w = (r', w')"
  shows "\<exists>b'. rg_circuits r' (circuitKey c) = Some b' \<and> window_over b' (T w') \<and>
    single_route r' m c client \<and> hanging sys r' T client"
  using assms(1,3-)
proof (induction qs arbitrary: r w b)
  case (Cons q qs)
  have "trim_space (pr_Model q) = m" using Cons.prems(3) by simp
  from hanging_request [OF Cons.prems(1) assms(2) Cons.prems(2) this Cons.prems(4,5)]
  obtain e w1 b1 where "registry_chat sys r q w = (Inl e, put_circuit r c b1, w1)" "window_over b1 (T w1)"
    by metis
  then show ?case
    using Cons.IH [of "put_circuit r c b1" b1 w1] Cons.prems by simp
qed auto

section \<open>Concrete inputs\<close>

text \<open>
  A clock that counts, one route, and a client that always fails: the hypotheses of the
  properties hold there.
\<close>

definition ex_sys :: "nat sys" where
  "ex_sys = \<lparr>sys_now = (\<lambda>w. (int w + 1, w + 1)), sys_rand = (\<lambda>w n. (0, w))\<rparr>"

definition ex_route :: route_candidate where
  "ex_route = \<lparr>rc_modelName = ''gpt-4'', rc_providerName = ''openai'', rc_weight = 1, rc_fallback = ''''\<rparr>"

definition ex_client :: "int \<Rightarrow> nat client" where
  "ex_client code = (\<lambda>w q. (Inl (upstream_error_zero\<lparr>ue_StatusCode := code\<rparr>), w))"

definition ex_registry :: "int \<Rightarrow> circuit_breaker \<Rightarrow> nat registry" where
  "ex_registry code b =
     \<lparr>rg_providers = [''openai'' \<mapsto> ex_client code], rg_modelRoutes = [''gpt-4'' \<mapsto> [ex_route]],
      rg_modelFallbacks = [], rg_circuits = [''openai:gpt-4'' \<mapsto> b],
      rg_nowFunc = None, rg_randIntn = None\<rparr>"

definition ex_request :: prov_request where
  "ex_request = \<lparr>pr_Model = ''gpt-4'', pr_Messages = [], pr_Temperature = 0,
     pr_MaxTokens = 0, pr_TopP = 0, pr_Stream = False, pr_Stop = []\<rparr>"

lemma ex_single: "single_route (ex_registry code b) ''gpt-4'' ex_route (ex_client code)"
proof -
  have "trim_space ''gpt-4'' = ''gpt-4''" by code_simp
  then show ?thesis by (simp add: single_route_def ex_registry_def ex_route_def fallback_of_def)
qed

lemma ex_model: "trim_space (pr_Model ex_request) = ''gpt-4''" "chat_model ex_request = ''gpt-4''"
  by code_simp+

lemma ex_key: "circuitKey ex_route = ''openai:gpt-4''"
  by code_simp

lemma ex_route_names: "rc_modelName ex_route = ''gpt-4''" "rc_providerName ex_route = ''openai''"
  by (simp_all add: ex_route_def)

lemma ex_queue: "buildRouteQueue ex_sys (ex_registry code b) ''gpt-4'' w = ([ex_route], w)"
  using ex_single [of code b] by (intro buildRouteQueue_single) (auto simp: single_route_def)

lemma ex_now: "registry_now ex_sys (ex_registry code b) w = (int w + 1, w + 1)"
  by (simp add: registry_now_def ex_registry_def ex_sys_def)

lemma ex_wf: "cb_inv b \<Longrightarrow> wf_registry (ex_registry code b)"
  by (auto simp: wf_registry_def ex_registry_def ex_route_def circuitKey_def split: if_splits)

lemma ex_put: "put_circuit (ex_registry code b) ex_route b' = ex_registry code b'"
  by (simp add: put_circuit_def ex_registry_def ex_key)

lemma ex_circuit: "rg_circuits (ex_registry code b) (circuitKey ex_route) = Some b"
  by (simp add: ex_key) (simp add: ex_registry_def)

lemma ex_always_trips: "always_trips (ex_client 503)"
  by (simp add: always_trips_def ex_client_def shouldTripCircuit_def upstream_error_zero_def)

text \<open>What a request does while the breaker is closed.\<close>

lemma ex_chat_closed:
  assumes "\<not> cb_IsOpen b (int w + 1)"
  shows "\<exists>err. registry_chat ex_sys (ex_registry 503 b) ex_request w =
    (Inl err, ex_registry 503 (cb_RecordFailure (snd (cb_Allow b (int w + 1))) (int w + 1)), w + 1)"
  using single_route_tripping [OF ex_single ex_model(1) ex_circuit ex_now assms, of 503
      "upstream_error_zero\<lparr>ue_StatusCode := 503\<rparr>" "w + 1"]
  by (simp add: ex_put ex_client_def shouldTripCircuit_def upstream_error_zero_def)

section \<open>Properties\<close>

text \<open>
  Claim C1.  An answer of the registry is the answer of a client of the route queue that was
  asked for the model of its route, or one of two errors of its own: the provider of a route is not
  configured, or every route is circuit-open.  The code's messages for no route and for
  \<open>all routes failed\<close> are never returned.
\<close>

theorem registry_chat_outcome:
  assumes "registry_chat sys r req w = (res, r', w')"
    and "queue = fst (buildRouteQueue sys r (chat_model req) w)"
  shows "from_client r req queue res \<or>
    (\<exists>c \<in> set queue. res = Inl (not_configured_error c)) \<or>
    res = Inl (service_unavailable_error ''all candidate routes are circuit-open'')"
proof -
  obtain w1 where b: "buildRouteQueue sys r (chat_model req) w = (queue, w1)"
    using assms(2) by (metis prod.collapse)
  have q: "queue \<noteq> []" using buildRouteQueue_facts(3) [OF b] by simp
  obtain lres r1 w2 where l: "route_loop sys r req queue None 0 w1 = (lres, r1, w2)"
    by (metis prod_cases3)
  note origin = route_loop_origin [OF l]
  show ?thesis
  proof (cases lres)
    case (Finished out)
    then have "res = out" using assms(1) b q l by (simp add: registry_chat_def Let_def)
    then show ?thesis using origin Finished by simp
  next
    case (Exhausted lastErr skipped)
    note ex = route_loop_exhausted [OF l [unfolded Exhausted]]
    show ?thesis
    proof (cases "skipped = length queue")
      case True
      then show ?thesis using assms(1) b q l Exhausted by (simp add: registry_chat_def Let_def)
    next
      case False
      then obtain err where err: "lastErr = Some err" using ex by auto
      then have "res = Inl err" using assms(1) b q l Exhausted False
        by (simp add: registry_chat_def Let_def)
      then show ?thesis using origin Exhausted err by auto
    qed
  qed
qed

theorem registry_chat_outcome_witness:
  "from_client (ex_registry 503 (struck 0 0)) ex_request [ex_route]
      (fst (registry_chat ex_sys (ex_registry 503 (struck 0 0)) ex_request 0)) \<or>
    (\<exists>c \<in> set [ex_route]. fst (registry_chat ex_sys (ex_registry 503 (struck 0 0)) ex_request 0) =
      Inl (not_configured_error c)) \<or>
    fst (registry_chat ex_sys (ex_registry 503 (struck 0 0)) ex_request 0) =
      Inl (service_unavailable_error ''all candidate routes are circuit-open'')"
proof -
  obtain res r' w' where run: "registry_chat ex_sys (ex_registry 503 (struck 0 0)) ex_request 0 = (res, r', w')"
    by (metis prod_cases3)
  have "[ex_route] = fst (buildRouteQueue ex_sys (ex_registry 503 (struck 0 0)) (chat_model ex_request) 0)"
    by (simp add: ex_model ex_queue)
  from registry_chat_outcome [OF run this] show ?thesis unfolding run fst_conv .
qed

text \<open>
  Claim C20.  A request changes nothing of the registry but the breakers of the routes in its
  queue, and keeps the registry's invariant, as long as the clock never reads the zero time.
\<close>

theorem registry_chat_frame_wf:
  assumes "wf_registry r" and "\<And>w. fst (registry_now sys r w) \<noteq> 0"
    and "registry_chat sys r req w = (res, r', w')"
  shows "wf_registry r' \<and> registry_frame r r' (fst (buildRouteQueue sys r (chat_model req) w))"
proof -
  obtain queue w1 where b: "buildRouteQueue sys r (chat_model req) w = (queue, w1)" by fastforce
  obtain lres r1 w2 where l: "route_loop sys r req queue None 0 w1 = (lres, r1, w2)"
    by (metis prod_cases3)
  have "r' = r \<or> r' = r1"
    using assms(3) b l by (auto simp: registry_chat_def Let_def split: loop_result.splits option.splits if_splits)
  then show ?thesis
    using assms(1) route_loop_wf [OF assms(1,2) l] route_loop_frame [OF l] b by auto
qed

theorem registry_chat_frame_wf_witness:
  "wf_registry (fst (snd (registry_chat ex_sys (ex_registry 503 (struck 0 0)) ex_request 0)))"
proof -
  have clock: "fst (registry_now ex_sys (ex_registry 503 (struck 0 0)) w) \<noteq> 0" for w
    by (simp add: ex_now)
  have "wf_registry (ex_registry 503 (struck 0 0))"
    unfolding struck_new [symmetric] by (rule ex_wf) simp
  from registry_chat_frame_wf [OF this clock] show ?thesis by (metis prod.collapse)
qed

text \<open>
  When the breaker of every route in the queue is open, the request ends with the
  circuit-open error (status 503), the registry is unchanged, and no client is called: any predicate
  of the world that clock readings keep still holds after the loop.
\<close>

lemma registry_chat_all_open:
  assumes "\<And>c. c \<in> set (fst (buildRouteQueue sys r (chat_model req) w)) \<Longrightarrow>
      rg_providers r (rc_providerName c) \<noteq> None \<and>
      (\<exists>b. rg_circuits r (circuitKey c) = Some b \<and> (\<forall>v. I v \<longrightarrow> cb_IsOpen b (fst (registry_now sys r v))))"
    and "\<And>v. I v \<Longrightarrow> I (snd (registry_now sys r v))"
    and "I (snd (buildRouteQueue sys r (chat_model req) w))"
  shows "\<exists>w'. registry_chat sys r req w =
      (Inl (service_unavailable_error ''all candidate routes are circuit-open''), r, w') \<and> I w'"
proof -
  obtain queue w1 where b: "buildRouteQueue sys r (chat_model req) w = (queue, w1)" by fastforce
  have "\<exists>w'. route_loop sys r req queue None 0 w1 = (Exhausted None (0 + length queue), r, w') \<and> I w'"
    using assms b by (intro route_loop_all_open) auto
  then show ?thesis
    using b buildRouteQueue_facts(3) [OF b] by (auto simp: registry_chat_def Let_def)
qed

text \<open>
  Claim C9.  The routes are tried in queue order: when the routes before one all failed over
  or were skipped, a success of that route is the answer at once, and so is its failure when the upstream
  says 400, with the later routes untouched.
\<close>

theorem registry_chat_decisive_route:
  assumes "buildRouteQueue sys r (chat_model req) w = (xs @ c # ys, w1)"
    and "route_loop sys r req xs None 0 w1 = (Exhausted l s, r1, w2)"
    and "attempt_route sys r1 req c w2 = (a, r2, w3)"
  shows "(a = Succeeded resp \<longrightarrow> registry_chat sys r req w = (Inr resp, r2, w3)) \<and>
    (a = Failed err \<and> ue_StatusCode err = 400 \<longrightarrow> registry_chat sys r req w = (Inl err, r2, w3))"
  using assms by (auto simp: registry_chat_def Let_def route_loop_append shouldFallback_def)

theorem registry_chat_decisive_route_witness:
  "\<exists>err. ue_StatusCode err = 400 \<and>
    registry_chat ex_sys (ex_registry 400 (struck 0 0)) ex_request 0 =
      (Inl err, ex_registry 400 (struck 0 0), 1)"
proof -
  let ?r = "ex_registry 400 (struck 0 0)"
  let ?err = "(upstream_error_zero\<lparr>ue_StatusCode := 400\<rparr>)
    \<lparr>ue_Provider := ''openai'', ue_Model := ''gpt-4''\<rparr>"
  have q: "buildRouteQueue ex_sys ?r (chat_model ex_request) 0 = ([] @ ex_route # [], 0)"
    by (simp add: ex_model ex_queue)
  have client: "rg_providers ?r (rc_providerName ex_route) = Some (ex_client 400)"
    using ex_single [of 400 "struck 0 0"] by (simp add: single_route_def)
  have a: "attempt_route ex_sys ?r ex_request ex_route 0 = (Failed ?err, ?r, 1)"
    using attempt_route_called [OF client ex_circuit ex_now struck_closed(1), where req = ex_request
        and err = "upstream_error_zero\<lparr>ue_StatusCode := 400\<rparr>" and w' = 1 and err' = ?err]
    by (simp add: ex_put ex_client_def shouldTripCircuit_def upstream_error_zero_def ex_route_names
        struck_success)
  have "route_loop ex_sys ?r ex_request [] None 0 0 = (Exhausted None 0, ?r, 0)" by simp
  from registry_chat_decisive_route [OF q this a, where err = ?err, THEN conjunct2] show ?thesis
    by (intro exI [of _ ?err]) (simp add: upstream_error_zero_def)
qed

text \<open>
  Claim C26.  An outage of the only upstream of a model: after three requests that failed
  with a tripping error, a further request is refused without calling the client, leaving the
  registry as it is, while its clock reading is less than 30 seconds after the reading of the third request.
\<close>

theorem outage_opens_circuit:
  assumes "single_route r m c client" and "always_trips client"
    and "rg_circuits r (circuitKey c) = Some (NewCircuitBreaker defaultFailureThreshold defaultOpenTimeout)"
    and "\<And>q. q \<in> {q1, q2, q3, q4} \<Longrightarrow> trim_space (pr_Model q) = m"
    and "chat_run sys [q1, q2] r w = (r2, w2)"
    and "registry_now sys r2 w2 = (t3, v)" and "t3 \<noteq> 0"
    and "registry_chat sys r2 q3 w2 = (res, r3, w3)"
    and "registry_now sys r3 w3 = (t4, w4)" and "time_sub t4 t3 < defaultOpenTimeout"
  shows "registry_chat sys r3 q4 w3 =
    (Inl (service_unavailable_error ''all candidate routes are circuit-open''), r3, w4)"
proof -
  have c0: "rg_circuits r (circuitKey c) = Some (struck 0 0)"
    using assms(3) unfolding struck_new .
  have r2: "r2 = put_circuit r c (struck 2 0)"
    by (rule outage_run [OF assms(1,2) _ _ c0 assms(5)]) (simp_all add: assms(4))
  have s2: "single_route r2 m c client" and k2: "rg_circuits r2 (circuitKey c) = Some (struck 2 0)"
    using assms(1) by (simp_all add: r2)
  have r3: "r3 = put_circuit r2 c (struck 3 t3)"
    using outage_request [OF s2 assms(2) assms(4) [of q3] k2 assms(6) struck_closed(1)]
      struck_closed(2) [of 2 t3] assms(8) by auto
  show ?thesis
    using single_route_blocked [of r3 m c client q4 "struck 3 t3" sys w3 t4 w4] s2 assms(4,7,9,10)
    by (simp add: r3 struck_open)
qed

theorem outage_opens_circuit_witness:
  "registry_chat ex_sys (ex_registry 503 (struck 3 3)) ex_request 3 =
    (Inl (service_unavailable_error ''all candidate routes are circuit-open''),
     ex_registry 503 (struck 3 3), 4)"
proof -
  have step: "\<exists>err. registry_chat ex_sys (ex_registry 503 (struck n 0)) ex_request w =
      (Inl err, ex_registry 503 (struck (n + 1) (if 3 \<le> n + 1 then int w + 1 else 0)), w + 1)" for n w
    using ex_chat_closed [OF struck_closed(1) [of n]] by (simp add: struck_closed)
  obtain e1 e2 e3 where 1: "registry_chat ex_sys (ex_registry 503 (struck 0 0)) ex_request 0 =
      (Inl e1, ex_registry 503 (struck 1 0), 1)"
    and 2: "registry_chat ex_sys (ex_registry 503 (struck 1 0)) ex_request 1 =
      (Inl e2, ex_registry 503 (struck 2 0), 2)"
    and 3: "registry_chat ex_sys (ex_registry 503 (struck 2 0)) ex_request 2 =
      (Inl e3, ex_registry 503 (struck 3 3), 3)"
    using step [of 0 0] step [of 1 1] step [of 2 2] by auto
  have run: "chat_run ex_sys [ex_request, ex_request] (ex_registry 503 (struck 0 0)) 0 =
      (ex_registry 503 (struck 2 0), 2)"
    by (simp add: 1 2 del: One_nat_def)
  have circuit: "rg_circuits (ex_registry 503 (struck 0 0)) (circuitKey ex_route) =
      Some (NewCircuitBreaker defaultFailureThreshold defaultOpenTimeout)"
    unfolding struck_new by (rule ex_circuit)
  show ?thesis
  proof (rule outage_opens_circuit [OF ex_single ex_always_trips circuit _ run _ _ 3])
    show "registry_now ex_sys (ex_registry 503 (struck 2 0)) 2 = (3, 3)"
      and "registry_now ex_sys (ex_registry 503 (struck 3 3)) 3 = (4, 4)"
      by (simp_all add: ex_now)
  qed (auto simp: ex_model time_sub_def)
qed


definition ex_slow_client :: "nat client" where
  "ex_slow_client = (\<lambda>w q. (Inl (upstream_error_zero\<lparr>ue_StatusCode := 503\<rparr>), w + 30000000000))"


end
