(* ===== verification/Http.thy ===== *)
theory Http
  imports Prelude
begin

text \<open>
  Go's \<open>net/http\<close> client as the gateway uses it, for the upstream providers and the embedding
  worker: a record of functions of the outside world, and the same record with a log of what
  it sends.  A Go \<open>error\<close> is its text.
\<close>

record http_request =
  hq_Method :: string
  hq_URL :: string
  hq_Headers :: "(string \<times> string) list"
  hq_Body :: string

text \<open>The status, and the body or the error of reading it.\<close>

record http_response =
  hs_StatusCode :: int
  hs_Body :: "string + string"

text \<open>
  \<open>ht_NewRequest\<close> is the error of \<open>http.NewRequestWithContext\<close> for a method and a URL;
  \<open>ht_Do\<close> sends the request; \<open>ht_Sleep\<close> waits on a timer and on the request's context, and
  gives the context's error when that ends first.
\<close>

record 'w http_ops =
  ht_NewRequest :: "string \<Rightarrow> string \<Rightarrow> string option"
  ht_Do :: "http_request \<Rightarrow> 'w \<Rightarrow> (string + http_response) \<times> 'w"
  ht_Sleep :: "duration \<Rightarrow> 'w \<Rightarrow> string option \<times> 'w"
  ht_Now :: "'w \<Rightarrow> time \<times> 'w"

text \<open>The transport with a log of the requests sent and the waits.\<close>

datatype http_event = EvDo http_request | EvSleep duration

definition logged :: "'w http_ops \<Rightarrow> ('w \<times> http_event list) http_ops" where
  "logged http =
     \<lparr>ht_NewRequest = ht_NewRequest http,
      ht_Do = (\<lambda>rq (w, l). case ht_Do http rq w of (r, w) \<Rightarrow> (r, w, l @ [EvDo rq])),
      ht_Sleep = (\<lambda>d (w, l). case ht_Sleep http d w of (r, w) \<Rightarrow> (r, w, l @ [EvSleep d])),
      ht_Now = (\<lambda>(w, l). case ht_Now http w of (t, w) \<Rightarrow> (t, w, l))\<rparr>"

end
