(* ===== verification/Json.thy ===== *)
theory Json
  imports GoStrings Float64
begin

text \<open>
  What the gateway uses of Go's \<open>encoding/json\<close>: the value syntax with its string escapes,
  number literals and nesting limit; the decoding of objects into structs (exact field name
  first, then the case-insensitive match; null leaves a field as it is; unknown keys are
  skipped); and the compact encoder with HTML escaping.  Strings are byte strings; bytes that
  are not UTF-8 decode to U+FFFD.
\<close>

datatype json =
    JNull
  | JBool bool
  | JNum string
  | JStr string
  | JArr "json list"
  | JObj "(string \<times> json) list"

section \<open>UTF-8\<close>

abbreviation byte :: "char \<Rightarrow> nat" where "byte \<equiv> of_char"

definition cont_byte :: "char \<Rightarrow> bool" where
  "cont_byte c \<longleftrightarrow> 128 \<le> byte c \<and> byte c < 192"

text \<open>The code point at the head of a byte string and its width; None for a malformed one.\<close>

definition rune_at :: "string \<Rightarrow> (nat \<times> nat) option" where
  "rune_at s =
     (case s of
        [] \<Rightarrow> None
      | c # r \<Rightarrow>
          let b = byte c in
          if b < 128 then Some (b, 1)
          else if 194 \<le> b \<and> b < 224 then
            (case r of c1 # _ \<Rightarrow>
               if cont_byte c1 then Some ((b - 192) * 64 + (byte c1 - 128), 2) else None
             | _ \<Rightarrow> None)
          else if 224 \<le> b \<and> b < 240 then
            (case r of c1 # c2 # _ \<Rightarrow>
               if cont_byte c1 \<and> cont_byte c2 \<and> (b = 224 \<longrightarrow> 160 \<le> byte c1) \<and> (b = 237 \<longrightarrow> byte c1 < 160)
               then Some ((b - 224) * 4096 + (byte c1 - 128) * 64 + (byte c2 - 128), 3) else None
             | _ \<Rightarrow> None)
          else if 240 \<le> b \<and> b < 245 then
            (case r of c1 # c2 # c3 # _ \<Rightarrow>
               if cont_byte c1 \<and> cont_byte c2 \<and> cont_byte c3 \<and>
                 (b = 240 \<longrightarrow> 144 \<le> byte c1) \<and> (b = 244 \<longrightarrow> byte c1 < 144)
               then Some ((b - 240) * 262144 + (byte c1 - 128) * 4096 + (byte c2 - 128) * 64 + (byte c3 - 128), 4)
               else None
             | _ \<Rightarrow> None)
          else None)"

definition encode_rune :: "nat \<Rightarrow> string" where
  "encode_rune r =
     map char_of
       (if r < 128 then [r]
        else if r < 2048 then [192 + r div 64, 128 + r mod 64]
        else if r < 65536 then [224 + r div 4096, 128 + r div 64 mod 64, 128 + r mod 64]
        else [240 + r div 262144, 128 + r div 4096 mod 64, 128 + r div 64 mod 64, 128 + r mod 64])"

definition replacement :: string where
  "replacement = map char_of [239, 191, 189 :: nat]"

section \<open>Lexical syntax\<close>

definition is_ws :: "char \<Rightarrow> bool" where
  "is_ws c \<longleftrightarrow> byte c \<in> {9, 10, 13, 32}"

definition skip_ws :: "string \<Rightarrow> string" where
  "skip_ws s = dropWhile is_ws s"

definition is_digit :: "char \<Rightarrow> bool" where
  "is_digit c \<longleftrightarrow> 48 \<le> byte c \<and> byte c < 58"

definition hex_val :: "char \<Rightarrow> nat option" where
  "hex_val c =
     (let b = byte c in
      if 48 \<le> b \<and> b < 58 then Some (b - 48)
      else if 97 \<le> b \<and> b < 103 then Some (b - 87)
      else if 65 \<le> b \<and> b < 71 then Some (b - 55)
      else None)"

fun hex4 :: "string \<Rightarrow> (nat \<times> string) option" where
  "hex4 (a # b # c # d # r) =
     (case (hex_val a, hex_val b, hex_val c, hex_val d) of
        (Some a, Some b, Some c, Some d) \<Rightarrow> Some (4096 * a + 256 * b + 16 * c + d, r)
      | _ \<Rightarrow> None)"
| "hex4 _ = None"

definition simple_escape :: "char \<Rightarrow> char option" where
  "simple_escape c =
     map_of [(CHR 0x22, CHR 0x22), (CHR 0x5C, CHR 0x5C), (CHR 0x2F, CHR 0x2F), (CHR 0x62, CHR 0x08),
       (CHR 0x66, CHR 0x0C), (CHR 0x6E, CHR 0x0A), (CHR 0x72, CHR 0x0D), (CHR 0x74, CHR 0x09)] c"

text \<open>A \<open>\u\<close> escape after its \<open>u\<close>: a surrogate pair is two escapes, a lone half is U+FFFD.\<close>

definition unicode_escape :: "string \<Rightarrow> (string \<times> string) option" where
  "unicode_escape s =
     (case hex4 s of
        None \<Rightarrow> None
      | Some (u, r) \<Rightarrow>
          if 55296 \<le> u \<and> u < 56320 then
            (case r of
               b # e # r' \<Rightarrow>
                 if b = CHR 0x5C \<and> e = CHR 0x75 then
                   (case hex4 r' of
                      Some (v, r'') \<Rightarrow>
                        if 56320 \<le> v \<and> v < 57344
                        then Some (encode_rune (65536 + (u - 55296) * 1024 + (v - 56320)), r'')
                        else Some (replacement, r)
                    | None \<Rightarrow> Some (replacement, r))
                 else Some (replacement, r)
             | _ \<Rightarrow> Some (replacement, r))
          else if 56320 \<le> u \<and> u < 57344 then Some (replacement, r)
          else Some (encode_rune u, r))"

lemma hex4_length: "hex4 s = Some (u, r) \<Longrightarrow> length r < length s"
  by (cases s rule: hex4.cases) (auto split: option.splits)

lemma unicode_escape_length: "unicode_escape s = Some (t, r) \<Longrightarrow> length r < length s"
  by (auto simp: unicode_escape_def split: option.splits if_splits list.splits dest!: hex4_length)

text \<open>The body of a string after its opening quote: the decoded bytes and what follows the closing quote.\<close>

function parse_str :: "string \<Rightarrow> (string \<times> string) option" where
  "parse_str [] = None"
| "parse_str (c # cs) =
     (if c = CHR 0x22 then Some ('''', cs)
      else if c = CHR 0x5C then
        (case cs of
           [] \<Rightarrow> None
         | e # r \<Rightarrow>
             if e = CHR 0x75 then
               (case unicode_escape r of
                  None \<Rightarrow> None
                | Some (t, r') \<Rightarrow> map_option (apfst ((@) t)) (parse_str r'))
             else
               (case simple_escape e of
                  None \<Rightarrow> None
                | Some x \<Rightarrow> map_option (apfst ((#) x)) (parse_str r)))
      else if byte c < 32 then None
      else
        (case rune_at (c # cs) of
           None \<Rightarrow> map_option (apfst ((@) replacement)) (parse_str cs)
         | Some (_, n) \<Rightarrow> map_option (apfst ((@) (take n (c # cs)))) (parse_str (drop (n - 1) cs))))"
  by pat_completeness auto

termination
  by (relation "measure length") (auto dest: unicode_escape_length)

definition parse_num :: "string \<Rightarrow> (string \<times> string) option" where
  "parse_num s =
     (let (sg, s1) = (case s of c # r \<Rightarrow> if c = CHR ''-'' then ([c], r) else ([], s) | [] \<Rightarrow> ([], s));
          ds = takeWhile is_digit s1;
          ip = (if ds \<noteq> [] \<and> hd ds = CHR ''0'' then [CHR ''0''] else ds);
          s2 = drop (length ip) s1
      in if ip = [] then None
         else
           let (fp, s3, ok) =
                 (case s2 of
                    c # r \<Rightarrow> if c = CHR ''.''
                      then let fs = takeWhile is_digit r in (c # fs, dropWhile is_digit r, fs \<noteq> [])
                      else ([], s2, True)
                  | [] \<Rightarrow> ([], s2, True))
           in if \<not> ok then None
              else
                let (ep, s4, ok) =
                      (case s3 of
                         c # r \<Rightarrow> if c = CHR ''e'' \<or> c = CHR ''E''
                           then let (es, r) = (case r of
                                    x # r' \<Rightarrow> if x = CHR ''+'' \<or> x = CHR ''-'' then ([x], r') else ([], r)
                                  | [] \<Rightarrow> ([], r));
                                    xs = takeWhile is_digit r
                                in (c # es @ xs, dropWhile is_digit r, xs \<noteq> [])
                           else ([], s3, True)
                       | [] \<Rightarrow> ([], s3, True))
                in if ok then Some (sg @ ip @ fp @ ep, s4) else None)"

section \<open>Values\<close>

abbreviation max_depth :: nat where "max_depth \<equiv> 10000"

fun parse_value :: "nat \<Rightarrow> nat \<Rightarrow> string \<Rightarrow> (json \<times> string) option"
  and parse_elems :: "nat \<Rightarrow> nat \<Rightarrow> string \<Rightarrow> (json list \<times> string) option"
  and parse_members :: "nat \<Rightarrow> nat \<Rightarrow> string \<Rightarrow> ((string \<times> json) list \<times> string) option" where
  "parse_value 0 d s = None"
| "parse_value (Suc n) d s =
     (case skip_ws s of
        [] \<Rightarrow> None
      | c # r \<Rightarrow>
          if c = CHR ''{'' then
            if max_depth \<le> d then None
            else (case skip_ws r of
                    x # r' \<Rightarrow> if x = CHR ''}'' then Some (JObj [], r')
                               else map_option (apfst JObj) (parse_members n (Suc d) r)
                  | [] \<Rightarrow> None)
          else if c = CHR ''['' then
            if max_depth \<le> d then None
            else (case skip_ws r of
                    x # r' \<Rightarrow> if x = CHR '']'' then Some (JArr [], r')
                               else map_option (apfst JArr) (parse_elems n (Suc d) r)
                  | [] \<Rightarrow> None)
          else if c = CHR 0x22 then map_option (apfst JStr) (parse_str r)
          else if has_prefix (c # r) ''true'' then Some (JBool True, drop 3 r)
          else if has_prefix (c # r) ''false'' then Some (JBool False, drop 4 r)
          else if has_prefix (c # r) ''null'' then Some (JNull, drop 3 r)
          else map_option (apfst JNum) (parse_num (c # r)))"
| "parse_elems 0 d s = None"
| "parse_elems (Suc n) d s =
     (case parse_value n d s of
        None \<Rightarrow> None
      | Some (v, r) \<Rightarrow>
          (case skip_ws r of
             x # r' \<Rightarrow> if x = CHR '','' then map_option (apfst ((#) v)) (parse_elems n d r')
                        else if x = CHR '']'' then Some ([v], r')
                        else None
           | [] \<Rightarrow> None))"
| "parse_members 0 d s = None"
| "parse_members (Suc n) d s =
     (case skip_ws s of
        q # r \<Rightarrow>
          if q \<noteq> CHR 0x22 then None
          else (case parse_str r of
             None \<Rightarrow> None
           | Some (k, r1) \<Rightarrow>
               (case skip_ws r1 of
                  x # r2 \<Rightarrow>
                    if x \<noteq> CHR '':'' then None
                    else (case parse_value n d r2 of
                       None \<Rightarrow> None
                     | Some (v, r3) \<Rightarrow>
                         (case skip_ws r3 of
                            y # r4 \<Rightarrow> if y = CHR '','' then map_option (apfst ((#) (k, v))) (parse_members n d r4)
                                       else if y = CHR ''}'' then Some ([(k, v)], r4)
                                       else None
                          | [] \<Rightarrow> None))
                | [] \<Rightarrow> None))
      | [] \<Rightarrow> None)"

text \<open>
  Every fuel unit but the step from a list to its element consumes a byte, so twice the
  length is enough.  \<open>json.Decoder.Decode\<close> reads the first value of its input,
  \<open>json.Unmarshal\<close> the whole input.
\<close>

definition json_decode :: "string \<Rightarrow> (json \<times> string) option" where
  "json_decode s = parse_value (2 * length s + 2) 0 s"

definition json_parse :: "string \<Rightarrow> json option" where
  "json_parse s =
     (case json_decode s of
        Some (v, r) \<Rightarrow> if skip_ws r = [] then Some v else None
      | None \<Rightarrow> None)"

section \<open>Decoding into Go values\<close>

text \<open>
  A decoder takes the JSON value and the old contents of the variable; None is the error
  that \<open>Unmarshal\<close> returns after a type mismatch.
\<close>

type_synonym 'a dec = "json \<Rightarrow> 'a \<Rightarrow> 'a option"

definition dec_string :: "string dec" where
  "dec_string j old = (case j of JStr s \<Rightarrow> Some s | JNull \<Rightarrow> Some old | _ \<Rightarrow> None)"

definition dec_bool :: "bool dec" where
  "dec_bool j old = (case j of JBool b \<Rightarrow> Some b | JNull \<Rightarrow> Some old | _ \<Rightarrow> None)"

definition nat_of_digits :: "string \<Rightarrow> nat" where
  "nat_of_digits s = foldl (\<lambda>n c. 10 * n + (byte c - 48)) 0 s"

definition strip_minus :: "string \<Rightarrow> bool \<times> string" where
  "strip_minus s = (case s of c # r \<Rightarrow> if c = CHR ''-'' then (True, r) else (False, s) | [] \<Rightarrow> (False, s))"

text \<open>Only a literal without fraction and exponent, in the range of the type, decodes into an integer.\<close>

definition dec_int :: "int dec" where
  "dec_int j old =
     (case j of
        JNum l \<Rightarrow>
          (case strip_minus l of
             (neg, ds) \<Rightarrow>
               let v = (if neg then - int (nat_of_digits ds) else int (nat_of_digits ds))
               in if list_all is_digit ds \<and> int64_ok v then Some v else None)
      | JNull \<Rightarrow> Some old
      | _ \<Rightarrow> None)"

text \<open>The rational value of a number literal.\<close>

definition literal_value :: "string \<Rightarrow> rat" where
  "literal_value l =
     (case strip_minus l of
        (neg, s) \<Rightarrow>
          let ip = takeWhile is_digit s;
              s2 = drop (length ip) s;
              fp = (case s2 of c # r \<Rightarrow> if c = CHR ''.'' then takeWhile is_digit r else [] | [] \<Rightarrow> []);
              s3 = (case s2 of c # r \<Rightarrow> if c = CHR ''.'' then dropWhile is_digit r else s2 | [] \<Rightarrow> []);
              e = (case s3 of
                     _ # x # r \<Rightarrow>
                       if x = CHR ''-'' then - int (nat_of_digits r)
                       else if x = CHR ''+'' then int (nat_of_digits r)
                       else int (nat_of_digits (x # r))
                   | _ \<Rightarrow> 0);
              m = of_nat (nat_of_digits (ip @ fp)) * 10 powi (e - int (length fp))
          in if neg then - m else m)"

definition dec_float :: "f64 dec" where
  "dec_float j old =
     (case j of
        JNum l \<Rightarrow> (case rnd (literal_value l) of Fin x \<Rightarrow> Some (Fin x) | _ \<Rightarrow> None)
      | JNull \<Rightarrow> Some old
      | _ \<Rightarrow> None)"

fun map_opt :: "('a \<Rightarrow> 'b option) \<Rightarrow> 'a list \<Rightarrow> 'b list option" where
  "map_opt f [] = Some []"
| "map_opt f (x # xs) =
     (case f x of None \<Rightarrow> None | Some y \<Rightarrow> map_option ((#) y) (map_opt f xs))"

text \<open>A slice: the elements start from the zero value; null is the nil slice.\<close>

definition dec_slice :: "'a dec \<Rightarrow> 'a \<Rightarrow> 'a list dec" where
  "dec_slice d zero j old =
     (case j of JArr xs \<Rightarrow> map_opt (\<lambda>x. d x zero) xs | JNull \<Rightarrow> Some [] | _ \<Rightarrow> None)"

text \<open>
  Names that differ in case only match; besides the ASCII letters two other letters fold to
  an ASCII one, U+017F to S and U+212A to K.
\<close>

function fold_name :: "string \<Rightarrow> string" where
  "fold_name [] = []"
| "fold_name (c # cs) =
     (if byte c = 197 \<and> map byte (take 1 cs) = [191] then CHR ''S'' # fold_name (drop 1 cs)
      else if byte c = 226 \<and> map byte (take 2 cs) = [132, 170] then CHR ''K'' # fold_name (drop 2 cs)
      else if 97 \<le> byte c \<and> byte c < 123 then char_of (byte c - 32) # fold_name cs
      else c # fold_name cs)"
  by pat_completeness auto

termination
  by (relation "measure length") auto

definition find_field :: "(string \<times> 'a dec) list \<Rightarrow> string \<Rightarrow> 'a dec option" where
  "find_field fields k =
     (case map_of fields k of
        Some f \<Rightarrow> Some f
      | None \<Rightarrow> map_option snd (find (\<lambda>(n, _). fold_name n = fold_name k) fields))"

fun dec_fields :: "(string \<times> 'a dec) list \<Rightarrow> (string \<times> json) list \<Rightarrow> 'a \<Rightarrow> 'a option" where
  "dec_fields fields [] v = Some v"
| "dec_fields fields ((k, j) # kvs) v =
     (case find_field fields k of
        None \<Rightarrow> dec_fields fields kvs v
      | Some f \<Rightarrow> (case f j v of None \<Rightarrow> None | Some v \<Rightarrow> dec_fields fields kvs v))"

definition dec_struct :: "(string \<times> 'a dec) list \<Rightarrow> 'a dec" where
  "dec_struct fields j v =
     (case j of JObj kvs \<Rightarrow> dec_fields fields kvs v | JNull \<Rightarrow> Some v | _ \<Rightarrow> None)"

text \<open>A field of a struct as a decoder of the struct.\<close>

definition dec_into :: "('s \<Rightarrow> 'a) \<Rightarrow> (('a \<Rightarrow> 'a) \<Rightarrow> 's \<Rightarrow> 's) \<Rightarrow> 'a dec \<Rightarrow> 's dec" where
  "dec_into get upd d j s = map_option (\<lambda>v. upd (\<lambda>_. v) s) (d j (get s))"

section \<open>Encoding\<close>

definition hex_digit :: "nat \<Rightarrow> char" where
  "hex_digit n = (if n < 10 then char_of (48 + n) else char_of (87 + n))"

definition u_escape :: "nat \<Rightarrow> string" where
  "u_escape r = [CHR 0x5C, CHR 0x75, hex_digit (r div 4096 mod 16), hex_digit (r div 256 mod 16),
     hex_digit (r div 16 mod 16), hex_digit (r mod 16)]"

definition escape_ascii :: "char \<Rightarrow> string" where
  "escape_ascii c =
     (if c = CHR 0x22 \<or> c = CHR 0x5C then [CHR 0x5C, c]
      else if c = CHR 0x08 then [CHR 0x5C, CHR 0x62]
      else if c = CHR 0x0C then [CHR 0x5C, CHR 0x66]
      else if c = CHR 0x0A then [CHR 0x5C, CHR 0x6E]
      else if c = CHR 0x0D then [CHR 0x5C, CHR 0x72]
      else if c = CHR 0x09 then [CHR 0x5C, CHR 0x74]
      else if byte c < 32 \<or> c = CHR ''<'' \<or> c = CHR ''>'' \<or> c = CHR ''&'' then u_escape (byte c)
      else [c])"

lemma rune_at_width: "rune_at s = Some (r, n) \<Longrightarrow> 1 \<le> n \<and> n \<le> length s"
  by (auto simp: rune_at_def Let_def split: list.splits if_splits)

function escape_str :: "string \<Rightarrow> string" where
  "escape_str [] = []"
| "escape_str (c # cs) =
     (case rune_at (c # cs) of
        None \<Rightarrow> u_escape 65533 @ escape_str cs
      | Some (r, n) \<Rightarrow>
          (if r < 128 then escape_ascii c
           else if r = 8232 \<or> r = 8233 then u_escape r
           else take n (c # cs)) @ escape_str (drop (n - 1) cs))"
  by pat_completeness auto

termination
  by (relation "measure length") auto

definition render_str :: "string \<Rightarrow> string" where
  "render_str s = CHR 0x22 # escape_str s @ [CHR 0x22]"

fun commas :: "string list \<Rightarrow> string" where
  "commas [] = []"
| "commas [x] = x"
| "commas (x # xs) = x @ '','' @ commas xs"

fun render :: "json \<Rightarrow> string" where
  "render JNull = ''null''"
| "render (JBool b) = (if b then ''true'' else ''false'')"
| "render (JNum l) = l"
| "render (JStr s) = render_str s"
| "render (JArr xs) = ''['' @ commas (map render xs) @ '']''"
| "render (JObj kvs) = ''{'' @ commas (map (\<lambda>kv. render_str (fst kv) @ '':'' @ render (snd kv)) kvs) @ ''}''"

text \<open>A string field with \<open>omitempty\<close>.\<close>

definition opt_str :: "string \<Rightarrow> string \<Rightarrow> (string \<times> json) list" where
  "opt_str k v = (if v = '''' then [] else [(k, JStr v)])"

section \<open>Numbers\<close>

definition JInt :: "int \<Rightarrow> json" where
  "JInt n = JNum (itoa n)"

text \<open>The decimal exponent of a positive rational: the largest power of ten not above it.\<close>

definition flog10 :: "rat \<Rightarrow> int" where
  "flog10 x =
     (case quotient_of x of (p, q) \<Rightarrow>
        let k = int (length (itoa p)) - int (length (itoa q)) in if 10 powi k \<le> x then k else k - 1)"

text \<open>
  The shortest decimal that reads back as \<open>x\<close>: the first number of digits for which one of
  the two neighbours of \<open>x\<close> does, and of these the nearer one (the even one on a tie).
\<close>

fun shortest :: "nat \<Rightarrow> nat \<Rightarrow> int \<Rightarrow> rat \<Rightarrow> int \<times> int" where
  "shortest 0 n e x = (0, 0)"
| "shortest (Suc fuel) n e x =
     (let k = e - int n; u = 10 powi k; lo = \<lfloor>x / u\<rfloor>; hi = (if of_int lo * u = x then lo else lo + 1);
          ok = (\<lambda>m. rnd (of_int m * u) = Fin x)
      in if ok lo \<and> ok hi then (round_even (x / u), k)
         else if ok lo then (lo, k)
         else if ok hi then (hi, k)
         else shortest fuel (Suc n) e x)"

definition shortest_digits :: "rat \<Rightarrow> string \<times> int" where
  "shortest_digits x =
     (case shortest 18 0 (flog10 x) x of
        (m, k) \<Rightarrow>
          let ds = itoa m; sig = rev (dropWhile (\<lambda>c. c = CHR ''0'') (rev ds))
          in (sig, k + int (length ds)))"

text \<open>
  The encoding of a float: plain decimals, or the exponent form below \<open>1e-6\<close> and from
  \<open>1e21\<close> on; NaN and the infinities are an error.  With digits \<open>ds\<close> and point position
  \<open>p\<close> the value is \<open>0.ds\<close> times ten to the \<open>p\<close>.
\<close>

definition plain_decimal :: "string \<Rightarrow> int \<Rightarrow> string" where
  "plain_decimal ds p =
     (if p \<le> 0 then ''0.'' @ replicate (nat (- p)) (CHR ''0'') @ ds
      else if int (length ds) \<le> p then ds @ replicate (nat p - length ds) (CHR ''0'')
      else take (nat p) ds @ ''.'' @ drop (nat p) ds)"

definition exp_decimal :: "string \<Rightarrow> int \<Rightarrow> string" where
  "exp_decimal ds p =
     take 1 ds @ (if length ds = 1 then '''' else ''.'' @ drop 1 ds) @ ''e'' @
     (if p - 1 < 0 then ''-'' @ itoa (1 - p) else ''+'' @ itoa (p - 1))"

definition float_literal :: "f64 \<Rightarrow> string option" where
  "float_literal v =
     (case v of
        Fin x \<Rightarrow>
          if x = 0 then Some ''0''
          else
            (case shortest_digits \<bar>x\<bar> of
               (ds, p) \<Rightarrow>
                 let s = (if \<bar>x\<bar> < 1 / 1000000 \<or> 1000000000000000000000 \<le> \<bar>x\<bar>
                          then exp_decimal ds p else plain_decimal ds p)
                 in Some (if x < 0 then ''-'' @ s else s))
      | _ \<Rightarrow> None)"

section \<open>The encoder emits no control bytes\<close>

definition printable :: "string \<Rightarrow> bool" where
  "printable s \<longleftrightarrow> (\<forall>c \<in> set s. 32 \<le> byte c)"

lemma printable_simps [simp]:
  "printable []" "printable (c # s) \<longleftrightarrow> 32 \<le> byte c \<and> printable s"
  "printable (s @ t) \<longleftrightarrow> printable s \<and> printable t"
  by (auto simp: printable_def)

lemma printable_take: "printable s \<Longrightarrow> printable (take n s)"
  by (meson in_set_takeD printable_def)

lemma printable_drop: "printable s \<Longrightarrow> printable (drop n s)"
  by (meson in_set_dropD printable_def)

lemma printable_replicate [simp]: "32 \<le> byte c \<Longrightarrow> printable (replicate n c)"
  by (simp add: printable_def)

lemma printable_no_newline: "printable s \<Longrightarrow> CHR 0x0A \<notin> set s"
  by (auto simp: printable_def)

lemma hex_digit_printable [simp]: "n < 16 \<Longrightarrow> 32 \<le> byte (hex_digit n)"
  by (simp add: hex_digit_def of_char_of)

lemma u_escape_printable [simp]: "printable (u_escape r)"
  by (simp add: u_escape_def)

lemma escape_ascii_printable [simp]: "printable (escape_ascii c)"
  by (auto simp: escape_ascii_def)

lemma cont_byte_printable: "cont_byte c \<Longrightarrow> 32 \<le> byte c"
  by (simp add: cont_byte_def)

lemma rune_at_printable:
  assumes "rune_at s = Some (r, n)" and "\<not> r < 128"
  shows "printable (take n s)"
  using assms
  by (auto simp: rune_at_def Let_def split: list.splits if_splits dest!: cont_byte_printable)

lemma escape_str_printable: "printable (escape_str s)"
proof (induction s rule: escape_str.induct)
  case (2 c cs)
  show ?case
  proof (cases "rune_at (c # cs)")
    case (Some p)
    obtain r n where p: "p = (r, n)" by fastforce
    show ?thesis
      using 2(2) [OF Some p [symmetric]] rune_at_printable [of "c # cs" r n] Some p by simp
  qed (use 2(1) in simp)
qed simp

lemma render_str_printable [simp]: "printable (render_str s)"
  by (simp add: render_str_def escape_str_printable)

lemma commas_printable: "(\<And>s. s \<in> set ss \<Longrightarrow> printable s) \<Longrightarrow> printable (commas ss)"
  by (induction ss rule: commas.induct) simp_all

text \<open>A tree whose number literals are printable.\<close>

fun json_printable :: "json \<Rightarrow> bool" where
  "json_printable (JNum l) \<longleftrightarrow> printable l"
| "json_printable (JArr xs) \<longleftrightarrow> (\<forall>x \<in> set xs. json_printable x)"
| "json_printable (JObj kvs) \<longleftrightarrow> (\<forall>kv \<in> set kvs. json_printable (snd kv))"
| "json_printable _ \<longleftrightarrow> True"

lemma render_printable: "json_printable j \<Longrightarrow> printable (render j)"
  by (induction j rule: render.induct) (auto intro!: commas_printable)

lemma digit_char_printable [simp]: "n < 10 \<Longrightarrow> 32 \<le> byte (digit_char n)"
  by (simp add: digit_char_def of_char_of)

lemma nat_digits_printable [simp]: "printable (nat_digits n)"
  by (induction n rule: nat_digits.induct) (subst nat_digits.simps, simp)

lemma itoa_printable [simp]: "printable (itoa n)"
  by (simp add: itoa_def)

lemma JInt_printable [simp]: "json_printable (JInt n)"
  by (simp add: JInt_def)

lemma printable_rev [simp]: "printable (rev s) \<longleftrightarrow> printable s"
  by (simp add: printable_def)

lemma printable_dropWhile [simp]: "printable s \<Longrightarrow> printable (dropWhile P s)"
  by (meson printable_def set_dropWhileD)

lemma float_literal_printable:
  assumes "float_literal v = Some l"
  shows "printable l"
proof -
  have "printable ds" if "shortest_digits x = (ds, p)" for x ds p
    using that by (auto simp: shortest_digits_def Let_def split: prod.splits)
  moreover have "printable (plain_decimal ds p)" "printable (exp_decimal ds p)" if "printable ds" for ds p
    using that by (auto simp: plain_decimal_def exp_decimal_def intro: printable_take printable_drop)
  ultimately show ?thesis
    using assms by (auto simp: float_literal_def Let_def split: f64.splits if_splits prod.splits)
qed

end
