(* ===== verification/JsonRoundtrip.thy ===== *)
theory JsonRoundtrip
  imports Json Prelude
begin

text \<open>
  What the encoder writes, the parser reads back: \<open>json_parse (render j) = Some j\<close> for every
  value whose strings are UTF-8, whose numbers are literals and whose nesting is at most 10000.
\<close>

section \<open>Strings\<close>

function valid_utf8 :: "string \<Rightarrow> bool" where
  "valid_utf8 [] = True"
| "valid_utf8 (c # cs) =
     (case rune_at (c # cs) of None \<Rightarrow> False | Some (_, n) \<Rightarrow> valid_utf8 (drop (n - 1) cs))"
  by pat_completeness auto

termination
  by (relation "measure length") auto

lemma byte_eq: "c = d \<longleftrightarrow> byte c = byte d"
  by simp

lemma char_of_byte [simp]: "char_of (byte c) = c"
  by simp

lemma hex_val_digit [simp]: "n < 16 \<Longrightarrow> hex_val (hex_digit n) = Some n"
  by (auto simp: hex_val_def hex_digit_def Let_def of_char_of)

lemma hex4_u_escape:
  assumes "r < 65536"
  shows "hex4 (drop 2 (u_escape r) @ t) = Some (r, t)"
proof -
  have "4096 * (r div 4096) + 256 * (r div 256 mod 16) + 16 * (r div 16 mod 16) + r mod 16 = r"
  proof -
    have "r = 16 * (r div 16) + r mod 16" "r div 16 = 16 * (r div 256) + r div 16 mod 16"
      "r div 256 = 16 * (r div 4096) + r div 256 mod 16"
      using div_mult2_eq [of r 16 16] div_mult2_eq [of r 256 16] by simp_all
    then show ?thesis by linarith
  qed
  moreover have "r div 4096 < 16" "r div 4096 mod 16 = r div 4096" using assms by simp_all
  ultimately show ?thesis by (simp add: u_escape_def)
qed

lemma parse_u_escape:
  assumes "r < 65536" and "r < 55296 \<or> 57344 \<le> r"
  shows "parse_str (u_escape r @ t) = map_option (apfst ((@) (encode_rune r))) (parse_str t)"
proof -
  have u: "u_escape r @ t = CHR 0x5C # CHR 0x75 # drop 2 (u_escape r) @ t"
    by (simp add: u_escape_def)
  have "unicode_escape (drop 2 (u_escape r) @ t) = Some (encode_rune r, t)"
    using assms(2) by (auto simp: unicode_escape_def hex4_u_escape [OF assms(1)])
  then show ?thesis unfolding u by simp
qed

lemma rune_ascii: "byte c < 128 \<Longrightarrow> rune_at (c # s) = Some (byte c, 1)"
  by (simp add: rune_at_def)

lemma parse_plain:
  "byte c < 128 \<Longrightarrow> 32 \<le> byte c \<Longrightarrow> c \<noteq> CHR 0x22 \<Longrightarrow> c \<noteq> CHR 0x5C \<Longrightarrow>
    parse_str (c # t) = map_option (apfst ((#) c)) (parse_str t)"
  by (simp add: rune_ascii) (cases "parse_str t"; simp)

lemma parse_simple_escape:
  "simple_escape e = Some c \<Longrightarrow> e \<noteq> CHR 0x75 \<Longrightarrow>
    parse_str (CHR 0x5C # e # t) = map_option (apfst ((#) c)) (parse_str t)"
  by simp

declare parse_str.simps(2) [simp del]

lemma parse_quote [simp]: "parse_str (CHR 0x22 # t) = Some ('''', t)"
  by (simp add: parse_str.simps)

lemma parse_escape_ascii:
  assumes "byte c < 128"
  shows "parse_str (escape_ascii c @ t) = map_option (apfst ((#) c)) (parse_str t)"
proof (cases "byte c < 32 \<or> c = CHR ''<'' \<or> c = CHR ''>'' \<or> c = CHR ''&''")
  case True
  have one: "(@) [c] = (#) c" by (rule ext) simp
  have "parse_str (u_escape (byte c) @ t) = map_option (apfst ((#) c)) (parse_str t)"
    using assms parse_u_escape [of "byte c" t] by (simp add: encode_rune_def one)
  moreover have "escape_ascii c @ t = u_escape (byte c) @ t \<or>
      (\<exists>e. escape_ascii c = [CHR 0x5C, e] \<and> simple_escape e = Some c \<and> e \<noteq> CHR 0x75)"
  proof (cases "c = CHR 0x08 \<or> c = CHR 0x0C \<or> c = CHR 0x0A \<or> c = CHR 0x0D \<or> c = CHR 0x09")
    case esc: True
    then show ?thesis by (elim disjE) (simp_all add: escape_ascii_def simple_escape_def)
  next
    case no_esc: False
    have "c \<noteq> CHR 0x22" "c \<noteq> CHR 0x5C" using True by auto
    then show ?thesis using no_esc True by (simp add: escape_ascii_def)
  qed
  ultimately show ?thesis by (auto simp: parse_simple_escape)
next
  case False
  show ?thesis
  proof (cases "c = CHR 0x22 \<or> c = CHR 0x5C")
    case True
    then have "escape_ascii c = [CHR 0x5C, c]" "simple_escape c = Some c" "c \<noteq> CHR 0x75"
      by (auto simp: escape_ascii_def simple_escape_def)
    then show ?thesis by (simp add: parse_simple_escape)
  next
    case neither: False
    have "c \<noteq> CHR 0x08" "c \<noteq> CHR 0x0C" "c \<noteq> CHR 0x0A" "c \<noteq> CHR 0x0D" "c \<noteq> CHR 0x09"
      using False by auto
    then have "escape_ascii c = [c]" using False neither by (simp add: escape_ascii_def)
    then show ?thesis using False neither assms by (simp add: parse_plain)
  qed
qed

text \<open>The four widths of a code point.\<close>

lemma rune_at_cases [consumes 1, case_names one two three four]:
  assumes "rune_at s = Some (r, n)"
  obtains c t where "s = c # t" "byte c < 128" "r = byte c" "n = 1"
  | c c1 t where "s = c # c1 # t" "194 \<le> byte c" "byte c < 224" "cont_byte c1"
      "r = (byte c - 192) * 64 + (byte c1 - 128)" "n = 2"
  | c c1 c2 t where "s = c # c1 # c2 # t" "224 \<le> byte c" "byte c < 240" "cont_byte c1" "cont_byte c2"
      "byte c = 224 \<longrightarrow> 160 \<le> byte c1" "byte c = 237 \<longrightarrow> byte c1 < 160"
      "r = (byte c - 224) * 4096 + (byte c1 - 128) * 64 + (byte c2 - 128)" "n = 3"
  | c c1 c2 c3 t where "s = c # c1 # c2 # c3 # t" "240 \<le> byte c" "byte c < 245"
      "cont_byte c1" "cont_byte c2" "cont_byte c3"
      "byte c = 240 \<longrightarrow> 144 \<le> byte c1" "byte c = 244 \<longrightarrow> byte c1 < 144"
      "r = (byte c - 240) * 262144 + (byte c1 - 128) * 4096 + (byte c2 - 128) * 64 + (byte c3 - 128)" "n = 4"
proof (cases s)
  case Nil
  then show ?thesis using assms by (simp add: rune_at_def)
next
  case s: (Cons c r1)
  consider "byte c < 128" | "194 \<le> byte c \<and> byte c < 224" | "224 \<le> byte c \<and> byte c < 240"
    | "240 \<le> byte c \<and> byte c < 245"
    using assms s by (force simp: rune_at_def Let_def split: if_splits)
  then show ?thesis
  proof cases
    case 1
    then show ?thesis using assms s that(1) by (simp add: rune_at_def)
  next
    case 2
    then show ?thesis using assms s that(2) by (simp add: rune_at_def Let_def split: list.splits if_splits)
  next
    case 3
    then show ?thesis using assms s that(3) by (simp add: rune_at_def Let_def split: list.splits if_splits)
  next
    case 4
    then show ?thesis using assms s that(4) by (simp add: rune_at_def Let_def split: list.splits if_splits)
  qed
qed

lemma rune_at_take: "rune_at s = Some (r, n) \<Longrightarrow> rune_at (take n s @ t) = Some (r, n)"
  by (erule rune_at_cases) (simp_all add: rune_at_def Let_def)

lemma parse_multibyte:
  assumes "rune_at (c # cs) = Some (r, n)" and "128 \<le> r"
  shows "parse_str (take n (c # cs) @ t) = map_option (apfst ((@) (take n (c # cs)))) (parse_str t)"
proof -
  have n: "1 \<le> n" "n \<le> length (c # cs)" using rune_at_width [OF assms(1)] by simp_all
  have c: "128 \<le> byte c" using assms by (auto simp: rune_at_def Let_def split: if_splits)
  then have "c \<noteq> CHR 0x22" "c \<noteq> CHR 0x5C" "\<not> byte c < 32" by auto
  moreover have eq: "take n (c # cs) @ t = c # take (n - 1) cs @ t" using n(1) by (cases n) simp_all
  moreover have "rune_at (c # take (n - 1) cs @ t) = Some (r, n)"
    using rune_at_take [OF assms(1), of t] by (simp add: eq)
  moreover have "take n (c # take (n - 1) cs @ t) = take n (c # cs)"
    "drop (n - 1) (take (n - 1) cs @ t) = t"
    using n by (cases n; simp)+
  ultimately show ?thesis unfolding eq parse_str.simps(2) by simp
qed

lemma rune_line_separator:
  assumes "rune_at s = Some (r, n)" and "r = 8232 \<or> r = 8233"
  shows "take n s = encode_rune r"
proof -
  have "\<exists>c c1 c2 t. s = c # c1 # c2 # t \<and> n = 3 \<and> byte c = 226 \<and> byte c1 = 128 \<and> byte c2 = r - 8064"
    using assms(1)
  proof (cases rule: rune_at_cases)
    case (three c c1 c2 t)
    obtain x y z where xyz: "byte c = 224 + x" "byte c1 = 128 + y" "byte c2 = 128 + z"
      using three by (auto simp: cont_byte_def le_iff_add)
    then have r: "r = x * 4096 + y * 64 + z" and yz: "y < 64" "z < 64"
      using three by (auto simp: cont_byte_def)
    have "\<not> 3 \<le> x" "\<not> x \<le> 1" using r yz assms(2) by linarith+
    then have x: "x = 2" by simp
    then have "\<not> 1 \<le> y" using r assms(2) by linarith
    then have "byte c = 226 \<and> byte c1 = 128 \<and> byte c2 = r - 8064"
      using xyz x r by simp
    then show ?thesis using three by blast
  next
    case (two c c1 t)
    then have "byte c - 192 \<le> 31" "byte c1 - 128 \<le> 63" by (auto simp: cont_byte_def)
    then show ?thesis using two(5) assms(2) by linarith
  next
    case (four c c1 c2 c3 t)
    show ?thesis
    proof (cases "byte c = 240")
      case True
      then have "16 \<le> byte c1 - 128" using four by (auto simp: cont_byte_def)
      then show ?thesis using four(9) assms(2) by linarith
    next
      case False
      then have "1 \<le> byte c - 240" using four by auto
      then show ?thesis using four(9) assms(2) by linarith
    qed
  qed (use assms(2) in auto)
  then obtain c c1 c2 t where s: "s = c # c1 # c2 # t" "n = 3" "byte c = 226" "byte c1 = 128"
    "byte c2 = r - 8064" by blast
  then have "c = char_of (226 :: nat)" "c1 = char_of (128 :: nat)" "c2 = char_of (r - 8064)"
    by (metis char_of_byte)+
  then show ?thesis using s assms(2) by (auto simp: encode_rune_def)
qed

lemma parse_escape_str:
  "valid_utf8 s \<Longrightarrow> parse_str (escape_str s @ CHR 0x22 # t) = Some (s, t)"
proof (induction s rule: escape_str.induct)
  case 1
  show ?case by simp
next
  case (2 c cs)
  obtain r n where rn: "rune_at (c # cs) = Some (r, n)" and v: "valid_utf8 (drop (n - 1) cs)"
    using 2(3) by (auto split: option.splits)
  have IH: "parse_str (escape_str (drop (n - 1) cs) @ CHR 0x22 # t) = Some (drop (n - 1) cs, t)"
    using 2(2) [OF rn refl] v by simp
  have n: "1 \<le> n" using rune_at_width [OF rn] by simp
  have join: "take n (c # cs) @ drop (n - 1) cs = c # cs"
    using n by (cases n) simp_all
  show ?case
  proof (cases "r < 128")
    case True
    then have "n = 1" "byte c = r" using rn by (auto simp: rune_at_def Let_def split: list.splits if_splits)
    then show ?thesis using rn True IH parse_escape_ascii [of c] by simp
  next
    case multi: False
    show ?thesis
    proof (cases "r = 8232 \<or> r = 8233")
      case True
      then have "parse_str (u_escape r @ escape_str (drop (n - 1) cs) @ CHR 0x22 # t) =
          Some (encode_rune r @ drop (n - 1) cs, t)"
        using IH by (subst parse_u_escape) auto
      then show ?thesis using rn multi True rune_line_separator [OF rn True] join
        by simp
    next
      case False
      then show ?thesis using rn multi IH join parse_multibyte [OF rn, of "escape_str (drop (n - 1) cs) @ CHR 0x22 # t"]
        by simp
    qed
  qed
qed

declare valid_utf8.simps(2) [simp del]

lemma valid_utf8_ascii_Cons [simp]: "byte c < 128 \<Longrightarrow> valid_utf8 (c # cs) = valid_utf8 cs"
  by (simp add: valid_utf8.simps rune_ascii)

lemma valid_utf8_ascii: "list_all (\<lambda>c. byte c < 128) s \<Longrightarrow> valid_utf8 s"
  by (induction s) simp_all

section \<open>Numbers\<close>

text \<open>The steps of \<open>parse_num\<close> after the integer part.\<close>

definition frac_part :: "string \<Rightarrow> string \<times> string \<times> bool" where
  "frac_part s =
     (case s of
        c # r \<Rightarrow> if c = CHR ''.''
          then let fs = takeWhile is_digit r in (c # fs, dropWhile is_digit r, fs \<noteq> [])
          else ([], s, True)
      | [] \<Rightarrow> ([], s, True))"

definition exp_part :: "string \<Rightarrow> string \<times> string \<times> bool" where
  "exp_part s =
     (case s of
        c # r \<Rightarrow> if c = CHR ''e'' \<or> c = CHR ''E''
          then let (es, r) = (case r of
                   x # r' \<Rightarrow> if x = CHR ''+'' \<or> x = CHR ''-'' then ([x], r') else ([], r)
                 | [] \<Rightarrow> ([], r));
                   xs = takeWhile is_digit r
               in (c # es @ xs, dropWhile is_digit r, xs \<noteq> [])
          else ([], s, True)
      | [] \<Rightarrow> ([], s, True))"

definition int_part :: "string \<Rightarrow> string" where
  "int_part s =
     (let ds = takeWhile is_digit s in if ds \<noteq> [] \<and> hd ds = CHR ''0'' then [CHR ''0''] else ds)"

definition sign_part :: "string \<Rightarrow> string \<times> string" where
  "sign_part s = (case s of c # r \<Rightarrow> if c = CHR ''-'' then ([c], r) else ([], s) | [] \<Rightarrow> ([], s))"

lemma parse_num_steps:
  "parse_num s =
     (case sign_part s of (sg, s1) \<Rightarrow>
        if int_part s1 = [] then None
        else (case frac_part (drop (length (int_part s1)) s1) of (fp, s3, ok) \<Rightarrow>
          if \<not> ok then None
          else (case exp_part s3 of (ep, s4, ok) \<Rightarrow>
            if ok then Some (sg @ int_part s1 @ fp @ ep, s4) else None)))"
  unfolding parse_num_def sign_part_def int_part_def frac_part_def exp_part_def Let_def by simp

text \<open>What may follow a number: nothing that would continue it.\<close>

definition num_end :: "string \<Rightarrow> bool" where
  "num_end r \<longleftrightarrow> (case r of [] \<Rightarrow> True | c # _ \<Rightarrow> \<not> is_digit c \<and> c \<notin> set ''.eE'')"

lemma num_end_Nil [simp]: "num_end []"
  by (simp add: num_end_def)

lemma while_append:
  assumes "num_end r"
  shows "takeWhile is_digit (s @ r) = takeWhile is_digit s" "dropWhile is_digit (s @ r) = dropWhile is_digit s @ r"
  using assms by (induction s) (auto simp: num_end_def split: list.splits)

lemma frac_part_append: "frac_part s = (fp, t, True) \<Longrightarrow> num_end r \<Longrightarrow> frac_part (s @ r) = (fp, t @ r, True)"
  by (cases s) (auto simp: frac_part_def while_append Let_def num_end_def split: if_splits list.split)

lemma exp_part_append: "exp_part s = (ep, t, True) \<Longrightarrow> num_end r \<Longrightarrow> exp_part (s @ r) = (ep, t @ r, True)"
proof (cases s)
  case Nil
  then show "exp_part s = (ep, t, True) \<Longrightarrow> num_end r \<Longrightarrow> exp_part (s @ r) = (ep, t @ r, True)"
    by (auto simp: exp_part_def num_end_def split: list.split)
next
  case (Cons c u)
  then show "exp_part s = (ep, t, True) \<Longrightarrow> num_end r \<Longrightarrow> exp_part (s @ r) = (ep, t @ r, True)"
    by (cases u) (auto simp: exp_part_def while_append Let_def split: if_splits)
qed

lemma int_part_le: "length (int_part s) \<le> length s"
  using length_takeWhile_le [of is_digit s] by (cases s) (auto simp: int_part_def Let_def)

lemma parse_num_append:
  assumes "parse_num s = Some (l, t)" and "num_end r"
  shows "parse_num (s @ r) = Some (l, t @ r)"
proof -
  obtain sg s1 where sg: "sign_part s = (sg, s1)" by fastforce
  obtain fp s3 ok where fp: "frac_part (drop (length (int_part s1)) s1) = (fp, s3, ok)" by (metis prod_cases3)
  obtain ep s4 ok' where ep: "exp_part s3 = (ep, s4, ok')" by (metis prod_cases3)
  have ip: "int_part s1 \<noteq> []" and ok: "ok" "ok'" and l: "l = sg @ int_part s1 @ fp @ ep" "t = s4"
    using assms(1) sg fp ep by (auto simp: parse_num_steps split: if_splits)
  have "s \<noteq> []" using sg ip by (auto simp: sign_part_def int_part_def)
  then have "sign_part (s @ r) = (sg, s1 @ r)"
    using sg by (cases s) (auto simp: sign_part_def split: if_splits)
  moreover have "int_part (s1 @ r) = int_part s1" by (simp add: int_part_def while_append assms(2))
  moreover have "drop (length (int_part s1)) (s1 @ r) = drop (length (int_part s1)) s1 @ r"
    using int_part_le by simp
  ultimately show ?thesis
    using ip ok l frac_part_append [of _ fp s3 r] exp_part_append [of s3 ep s4 r] fp ep assms(2)
    by (simp add: parse_num_steps)
qed

definition num_ok :: "string \<Rightarrow> bool" where
  "num_ok l \<longleftrightarrow> parse_num l = Some (l, [])"

lemma num_ok_head: "num_ok l \<Longrightarrow> \<exists>c r. l = c # r \<and> (c = CHR ''-'' \<or> is_digit c)"
proof -
  assume "num_ok l"
  then obtain sg s1 where *: "sign_part l = (sg, s1)" "int_part s1 \<noteq> []"
    by (auto simp: num_ok_def parse_num_steps split: prod.splits if_splits)
  then show ?thesis
    by (cases l; cases s1) (auto simp: sign_part_def int_part_def Let_def split: if_splits)
qed

text \<open>The decimal form of an integer.\<close>

lemma byte_digit [simp]: "n < 10 \<Longrightarrow> byte (digit_char n) = 48 + n"
  by (simp add: digit_char_def)

lemma nat_digits_small: "n < 10 \<Longrightarrow> nat_digits n = [digit_char n]"
  by (subst nat_digits.simps) simp

lemma nat_digits_large: "\<not> n < 10 \<Longrightarrow> nat_digits n = nat_digits (n div 10) @ [digit_char (n mod 10)]"
  by (subst nat_digits.simps) simp

lemma nat_digits_digits: "list_all is_digit (nat_digits n)"
proof (induction n rule: nat_digits.induct)
  case (1 n)
  then show ?case
    by (cases "n < 10") (simp_all add: nat_digits_small nat_digits_large is_digit_def)
qed

lemma nat_digits_nonempty [simp]: "nat_digits n \<noteq> []"
  by (subst nat_digits.simps) simp

lemma nat_digits_head: "0 < n \<Longrightarrow> hd (nat_digits n) \<noteq> CHR ''0''"
proof (induction n rule: nat_digits.induct)
  case (1 n)
  show ?case
  proof (cases "n < 10")
    case True
    then have "byte (hd (nat_digits n)) = 48 + n" by (simp add: nat_digits_small)
    then show ?thesis using 1(2) by auto
  next
    case False
    then have "hd (nat_digits (n div 10)) \<noteq> CHR ''0''" using 1(1) by simp
    then show ?thesis using False by (simp add: nat_digits_large)
  qed
qed

lemma nat_of_nat_digits [simp]: "nat_of_digits (nat_digits n) = n"
proof (induction n rule: nat_digits.induct)
  case (1 n)
  show ?case
  proof (cases "n < 10")
    case True
    then show ?thesis by (simp add: nat_of_digits_def nat_digits_small)
  next
    case False
    have "nat_of_digits (nat_digits n) = 10 * (n div 10) + n mod 10"
      using 1 False by (simp add: nat_of_digits_def nat_digits_large)
    then show ?thesis by simp
  qed
qed

lemma all_digits_while:
  "list_all is_digit s \<Longrightarrow> takeWhile is_digit s = s" "list_all is_digit s \<Longrightarrow> dropWhile is_digit s = []"
  by (induction s) auto

lemma nat_digits_zero: "nat_digits 0 = ''0''"
  by code_simp

lemma int_part_digits: "int_part (nat_digits n) = nat_digits n"
  using nat_digits_head [of n] nat_digits_digits [of n] nat_digits_zero
  by (cases "n = 0") (simp_all add: int_part_def all_digits_while is_digit_def)

lemma nat_digits_no_sign: "nat_digits n = c # r \<Longrightarrow> c \<noteq> CHR ''-''"
  using nat_digits_digits [of n] by (auto simp: is_digit_def)

lemma num_ok_itoa [simp]: "num_ok (itoa i)"
proof -
  have "sign_part (nat_digits n) = ([], nat_digits n)" for n
    using nat_digits_no_sign [of n] by (auto simp: sign_part_def split: list.splits)
  moreover have "sign_part (CHR ''-'' # s) = (''-'', s)" for s
    by (simp add: sign_part_def)
  moreover have "frac_part [] = ([], [], True)" "exp_part [] = ([], [], True)"
    by (simp_all add: frac_part_def exp_part_def)
  ultimately show ?thesis
    by (simp add: num_ok_def parse_num_steps int_part_digits itoa_def)
qed

lemma dec_int_itoa [simp]: "int64_ok i \<Longrightarrow> dec_int (JInt i) old = Some i"
proof -
  have strip: "strip_minus (nat_digits n) = (False, nat_digits n)" for n
    using nat_digits_no_sign [of n] by (auto simp: strip_minus_def split: list.splits)
  assume "int64_ok i"
  then show ?thesis
    using strip_minus_def [of "CHR ''-'' # nat_digits (nat (- i))"]
    by (cases "i < 0") (simp_all add: dec_int_def JInt_def itoa_def strip nat_digits_digits)
qed

section \<open>Values\<close>

fun json_ok :: "json \<Rightarrow> bool" where
  "json_ok JNull = True"
| "json_ok (JBool b) = True"
| "json_ok (JNum l) = num_ok l"
| "json_ok (JStr s) = valid_utf8 s"
| "json_ok (JArr xs) = list_all json_ok xs"
| "json_ok (JObj kvs) = list_all (\<lambda>kv. valid_utf8 (fst kv) \<and> json_ok (snd kv)) kvs"

fun json_depth :: "json \<Rightarrow> nat" where
  "json_depth (JArr xs) = Suc (Max (set (0 # map json_depth xs)))"
| "json_depth (JObj kvs) = Suc (Max (set (0 # map (\<lambda>kv. json_depth (snd kv)) kvs)))"
| "json_depth _ = 0"

lemma depth_JArr_le: "list_all (\<lambda>x. json_depth x \<le> n) xs \<Longrightarrow> json_depth (JArr xs) \<le> Suc n"
  by (auto simp: list_all_iff)

lemma depth_JObj_le: "list_all (\<lambda>kv. json_depth (snd kv) \<le> n) kvs \<Longrightarrow> json_depth (JObj kvs) \<le> Suc n"
  by (auto simp: list_all_iff)

lemma num_head_bytes: "c = CHR ''-'' \<or> is_digit c \<Longrightarrow> 45 \<le> byte c \<and> byte c < 58 \<and> \<not> is_ws c"
  by (auto simp: is_digit_def is_ws_def)

text \<open>Every text the encoder writes begins with a byte that is no white space.\<close>

lemma render_head:
  assumes "json_ok j"
  obtains c s where "render j = c # s" "\<not> is_ws c" "c \<noteq> CHR '']''" "c \<noteq> CHR ''}''"
proof (cases j)
  case (JNum l)
  have "num_ok l" using assms JNum by simp
  then obtain c s where "l = c # s" "c = CHR ''-'' \<or> is_digit c" using num_ok_head [of l] by blast
  moreover from this have "c \<noteq> CHR '']''" "c \<noteq> CHR ''}''" using num_head_bytes [of c] by auto
  ultimately show ?thesis
    using JNum that [of c s] num_head_bytes [of c] by simp
next
  case (JBool b)
  then show ?thesis using that by (cases b) (auto simp: is_ws_def)
qed (use that in \<open>auto simp: render_str_def is_ws_def\<close>)

lemma skip_ws_id: "\<not> is_ws c \<Longrightarrow> skip_ws (c # s) = c # s"
  by (simp add: skip_ws_def)

lemma num_no_word:
  assumes "num_ok l"
  shows "\<not> has_prefix (l @ r) ''true''" "\<not> has_prefix (l @ r) ''false''" "\<not> has_prefix (l @ r) ''null''"
    "\<exists>c s. l = c # s \<and> c \<notin> set ''{['' \<and> c \<noteq> CHR 0x22 \<and> \<not> is_ws c"
proof -
  obtain c s where l: "l = c # s" and c: "c = CHR ''-'' \<or> is_digit c" using num_ok_head [OF assms] by blast
  have b: "45 \<le> byte c" "byte c < 58" "\<not> is_ws c" using num_head_bytes [OF c] by simp_all
  have ne: "c \<noteq> CHR ''t''" "c \<noteq> CHR ''f''" "c \<noteq> CHR ''n''" "c \<noteq> CHR ''{''" "c \<noteq> CHR ''[''" "c \<noteq> CHR 0x22"
    using b by auto
  show "\<not> has_prefix (l @ r) ''true''" "\<not> has_prefix (l @ r) ''false''" "\<not> has_prefix (l @ r) ''null''"
    using ne by (simp_all add: has_prefix_def l)
  show "\<exists>c s. l = c # s \<and> c \<notin> set ''{['' \<and> c \<noteq> CHR 0x22 \<and> \<not> is_ws c"
    using l ne b by simp
qed

text \<open>Lists and members, given what holds of their values.\<close>

definition reads_back :: "nat \<Rightarrow> json \<Rightarrow> bool" where
  "reads_back d j \<longleftrightarrow>
     (\<forall>n r. 2 * length (render j) \<le> n \<longrightarrow> num_end r \<longrightarrow> parse_value n d (render j @ r) = Some (j, r))"

lemma parse_elems_render:
  assumes "xs \<noteq> []" and "\<And>x. x \<in> set xs \<Longrightarrow> json_ok x \<and> reads_back d x"
    and "2 * length (commas (map render xs)) + 1 \<le> n"
  shows "parse_elems n d (commas (map render xs) @ '']'' @ r) = Some (xs, r)"
  using assms
proof (induction xs arbitrary: n)
  case Nil
  then show ?case by simp
next
  case (Cons x xs)
  obtain m where n: "n = Suc m" using Cons.prems(3) by (cases n) auto
  have x: "reads_back d x" using Cons.prems(2) by simp
  have ends: "num_end (CHR '']'' # t)" "num_end (CHR '','' # t)" for t
    by (simp_all add: num_end_def is_digit_def)
  have ws: "skip_ws (CHR '']'' # t) = CHR '']'' # t" "skip_ws (CHR '','' # t) = CHR '','' # t" for t
    by (simp_all add: skip_ws_def is_ws_def)
  show ?case
  proof (cases xs)
    case Nil
    then have "parse_value m d (render x @ CHR '']'' # r) = Some (x, CHR '']'' # r)"
      using x Cons.prems(3) n ends unfolding reads_back_def by simp
    then show ?thesis by (simp add: n Nil ws)
  next
    case (Cons y ys)
    let ?rest = "commas (map render xs)"
    have split: "commas (map render (x # xs)) = render x @ '','' @ ?rest"
      by (simp add: Cons)
    have len: "2 * length (render x) \<le> m" "2 * length ?rest + 1 \<le> m"
      using Cons.prems(3) n unfolding split by simp_all
    have "parse_value m d (render x @ '','' @ ?rest @ '']'' @ r) = Some (x, '','' @ ?rest @ '']'' @ r)"
      using x len(1) ends unfolding reads_back_def by simp
    moreover have "parse_elems m d (?rest @ '']'' @ r) = Some (xs, r)"
      using Cons.IH [of m] Cons.prems(2) len(2) Cons by simp
    ultimately show ?thesis
      unfolding split n by (simp add: ws)
  qed
qed

abbreviation render_member :: "string \<times> json \<Rightarrow> string" where
  "render_member kv \<equiv> render_str (fst kv) @ '':'' @ render (snd kv)"

lemma parse_members_render:
  assumes "kvs \<noteq> []"
    and "\<And>kv. kv \<in> set kvs \<Longrightarrow> valid_utf8 (fst kv) \<and> json_ok (snd kv) \<and> reads_back d (snd kv)"
    and "2 * length (commas (map render_member kvs)) + 1 \<le> n"
  shows "parse_members n d (commas (map render_member kvs) @ ''}'' @ r) = Some (kvs, r)"
  using assms
proof (induction kvs arbitrary: n)
  case Nil
  then show ?case by simp
next
  case (Cons kv kvs)
  obtain k v where kv: "kv = (k, v)" by fastforce
  obtain m where n: "n = Suc m" using Cons.prems(3) by (cases n) auto
  have v: "reads_back d v" "valid_utf8 k" using Cons.prems(2) [of kv] kv by simp_all
  have ends: "num_end (CHR ''}'' # t)" "num_end (CHR '','' # t)" for t
    by (simp_all add: num_end_def is_digit_def)
  have ws: "skip_ws (CHR ''}'' # t) = CHR ''}'' # t" "skip_ws (CHR '','' # t) = CHR '','' # t"
    "skip_ws (CHR '':'' # t) = CHR '':'' # t" "skip_ws (CHR 0x22 # t) = CHR 0x22 # t" for t
    by (simp_all add: skip_ws_def is_ws_def)
  have key: "parse_str (escape_str k @ CHR 0x22 # t) = Some (k, t)" for t
    by (rule parse_escape_str [OF v(2)])
  show ?case
  proof (cases kvs)
    case Nil
    have "2 * length (render v) \<le> m" using Cons.prems(3) n kv Nil by simp
    then have "parse_value m d (render v @ CHR ''}'' # r) = Some (v, CHR ''}'' # r)"
      using v(1) ends unfolding reads_back_def by simp
    then show ?thesis by (simp add: n Nil ws key kv render_str_def)
  next
    case (Cons y ys)
    let ?rest = "commas (map render_member kvs)"
    have split: "commas (map render_member (kv # kvs)) = render_str k @ '':'' @ render v @ '','' @ ?rest"
      by (simp add: Cons kv)
    have len: "2 * length (render v) \<le> m" "2 * length ?rest + 1 \<le> m"
      using Cons.prems(3) n unfolding split by simp_all
    have "parse_value m d (render v @ '','' @ ?rest @ ''}'' @ r) = Some (v, '','' @ ?rest @ ''}'' @ r)"
      using v(1) len(1) ends unfolding reads_back_def by simp
    moreover have "parse_members m d (?rest @ ''}'' @ r) = Some (kvs, r)"
      using Cons.IH [of m] Cons.prems(2) len(2) Cons by simp
    ultimately show ?thesis
      unfolding split n by (simp add: ws key kv render_str_def)
  qed
qed

lemma commas_head: "xs \<noteq> [] \<Longrightarrow> hd xs = c # s \<Longrightarrow> \<exists>t. commas xs = c # t"
  by (cases xs rule: commas.cases) auto

lemma depth_member: "x \<in> set xs \<Longrightarrow> d + Suc (Max (set (0 # map f xs))) \<le> k \<Longrightarrow> Suc d + f x \<le> (k :: nat)"
proof -
  assume "x \<in> set xs" "d + Suc (Max (set (0 # map f xs))) \<le> k"
  moreover have "f x \<le> Max (set (0 # map f xs))" using \<open>x \<in> set xs\<close> by (intro Max_ge) auto
  ultimately show ?thesis by linarith
qed

lemma reads_backI:
  assumes "render j \<noteq> []"
    and "\<And>m r. num_end r \<Longrightarrow> parse_value (Suc m) d (render j @ r) = Some (j, r)"
  shows "reads_back d j"
  unfolding reads_back_def
proof (intro allI impI)
  fix n r
  assume "2 * length (render j) \<le> n" and r: "num_end r"
  then obtain m where "n = Suc m" using assms(1) by (cases n) auto
  then show "parse_value n d (render j @ r) = Some (j, r)" using assms(2) [OF r] by simp
qed

lemma parse_value_render: "json_ok j \<Longrightarrow> d + json_depth j \<le> max_depth \<Longrightarrow> reads_back d j"
proof (induction j arbitrary: d)
  case JNull
  then show ?case by (intro reads_backI) (simp_all add: has_prefix_def skip_ws_def is_ws_def)
next
  case (JBool b)
  then show ?case by (intro reads_backI) (simp_all add: has_prefix_def skip_ws_def is_ws_def)
next
  case (JNum l)
  have l: "num_ok l" using JNum.prems by simp
  obtain c s where c: "l = c # s" "c \<notin> set ''{[''" "c \<noteq> CHR 0x22" "\<not> is_ws c"
    using num_no_word(4) [OF l] by blast
  show ?case
  proof (rule reads_backI)
    show "render (JNum l) \<noteq> []" using c by simp
    fix m r
    assume "num_end r"
    then have "parse_num (l @ r) = Some (l, r)"
      using parse_num_append [of l l "[]" r] l by (simp add: num_ok_def)
    then show "parse_value (Suc m) d (render (JNum l) @ r) = Some (JNum l, r)"
      using num_no_word(1-3) [OF l, of r] c by (simp add: skip_ws_id)
  qed
next
  case (JStr s)
  show ?case
    using JStr.prems parse_escape_str [of s]
    by (intro reads_backI) (simp_all add: skip_ws_def is_ws_def render_str_def)
next
  case (JArr xs)
  have x: "json_ok x \<and> reads_back (Suc d) x" if "x \<in> set xs" for x
    using JArr.IH [OF that, of "Suc d"] JArr.prems depth_member [OF that, of d json_depth max_depth] that
    by (auto simp: list_all_iff)
  have d: "\<not> max_depth \<le> d" using JArr.prems(2) by simp
  show ?case
    unfolding reads_back_def
  proof (intro allI impI)
    fix n r
    assume n: "2 * length (render (JArr xs)) \<le> n" and r: "num_end r"
    obtain m where m: "n = Suc m" using n by (cases n) auto
    show "parse_value n d (render (JArr xs) @ r) = Some (JArr xs, r)"
    proof (cases xs)
      case Nil
      then show ?thesis using d by (simp add: m skip_ws_def is_ws_def)
    next
      case (Cons y ys)
      have len: "2 * length (commas (map render xs)) + 1 \<le> m" using n m by simp
      have "parse_elems m (Suc d) (commas (map render xs) @ '']'' @ r) = Some (xs, r)"
        by (rule parse_elems_render [OF _ _ len]) (use Cons x in auto)
      moreover obtain c s where c: "render y = c # s" "\<not> is_ws c" "c \<noteq> CHR '']''"
        by (rule render_head [of y]) (use x [of y] Cons in auto)
      moreover obtain t where t: "commas (map render xs) = c # t"
        using commas_head [of "map render xs" c s] c Cons by auto
      ultimately show ?thesis using d by (simp add: m skip_ws_def is_ws_def t)
    qed
  qed
next
  case (JObj kvs)
  have x: "valid_utf8 (fst kv) \<and> json_ok (snd kv) \<and> reads_back (Suc d) (snd kv)" if "kv \<in> set kvs" for kv
    using JObj.IH [OF that, of "snd kv" "Suc d"] JObj.prems
      depth_member [OF that, of d "\<lambda>kv. json_depth (snd kv)" max_depth] that
    by (auto simp: list_all_iff snds.simps)
  have d: "\<not> max_depth \<le> d" using JObj.prems(2) by simp
  show ?case
    unfolding reads_back_def
  proof (intro allI impI)
    fix n r
    assume n: "2 * length (render (JObj kvs)) \<le> n" and r: "num_end r"
    obtain m where m: "n = Suc m" using n by (cases n) auto
    show "parse_value n d (render (JObj kvs) @ r) = Some (JObj kvs, r)"
    proof (cases kvs)
      case Nil
      then show ?thesis using d by (simp add: m skip_ws_def is_ws_def)
    next
      case (Cons y ys)
      have len: "2 * length (commas (map render_member kvs)) + 1 \<le> m" using n m by simp
      have "parse_members m (Suc d) (commas (map render_member kvs) @ ''}'' @ r) = Some (kvs, r)"
        by (rule parse_members_render [OF _ _ len]) (use Cons x in auto)
      moreover obtain t where t: "commas (map render_member kvs) = CHR 0x22 # t"
        using commas_head [of "map render_member kvs" "CHR 0x22"] Cons by (auto simp: render_str_def)
      ultimately show ?thesis using d by (simp add: m skip_ws_def is_ws_def t)
    qed
  qed
qed

lemma json_roundtrip:
  assumes "json_ok j" and "json_depth j \<le> max_depth"
  shows "json_parse (render j) = Some j"
proof -
  have "parse_value (2 * length (render j) + 2) 0 (render j @ []) = Some (j, [])"
    using parse_value_render [of j 0] assms num_end_Nil unfolding reads_back_def
    by (simp del: parse_value.simps append_Nil2)
  then show ?thesis by (simp add: json_parse_def json_decode_def skip_ws_def)
qed

end
