(* ===== verification/FloatText.thy ===== *)
theory FloatText
  imports JsonRoundtrip
begin

text \<open>
  The text of a \<open>float64\<close> reads back as the same number: the digits that the encoder picks
  denote a decimal that rounds to the value, seventeen of them always being enough, and the
  literal made of them is a JSON number that denotes that decimal.
\<close>

section \<open>Decimal digits\<close>

lemma nat_digits_length:
  "0 < n \<Longrightarrow> 10 ^ (length (nat_digits n) - 1) \<le> n \<and> n < 10 ^ length (nat_digits n)"
proof (induction n rule: nat_digits.induct)
  case (1 n)
  show ?case
  proof (cases "n < 10")
    case True
    then show ?thesis using 1(2) by (simp add: nat_digits_small)
  next
    case False
    let ?l = "length (nat_digits (n div 10))"
    have IH: "10 ^ (?l - 1) \<le> n div 10" "n div 10 < 10 ^ ?l" using 1(1) False by simp_all
    have "?l \<noteq> 0" by simp
    then have "(10 :: nat) ^ ?l = 10 * 10 ^ (?l - 1)" by (simp flip: power_Suc)
    also have "\<dots> \<le> 10 * (n div 10)" using IH(1) by simp
    also have "\<dots> \<le> n" by simp
    finally have "10 ^ ?l \<le> n" .
    moreover have "n < 10 * 10 ^ ?l"
      using IH(2) by (metis div_less_iff_less_mult mult.commute zero_less_numeral)
    ultimately show ?thesis using False by (simp add: nat_digits_large)
  qed
qed

lemma ten_powi_le: "j \<le> k \<Longrightarrow> (10 :: rat) powi j \<le> 10 powi k"
  by (rule power_int_increasing) simp_all

lemma itoa_bounds:
  assumes "0 < n"
  shows "10 powi (int (length (itoa n)) - 1) \<le> (of_int n :: rat)"
    "(of_int n :: rat) < 10 powi int (length (itoa n))"
proof -
  let ?l = "length (nat_digits (nat n))"
  have l: "length (itoa n) = ?l" "1 \<le> ?l"
    using assms nat_digits_nonempty [of "nat n"] by (simp_all add: itoa_def Suc_le_eq del: nat_digits_nonempty)
  have b: "10 ^ (?l - 1) \<le> nat n" "nat n < 10 ^ ?l" using nat_digits_length [of "nat n"] assms by simp_all
  have "(of_nat (10 ^ (?l - 1)) :: rat) \<le> of_nat (nat n)" using b(1) by (simp only: of_nat_le_iff)
  then show "10 powi (int (length (itoa n)) - 1) \<le> (of_int n :: rat)"
    using assms l by (simp add: power_int_nonneg_exp nat_diff_distrib)
  have "(of_nat (nat n) :: rat) < of_nat (10 ^ ?l)" using b(2) by (simp only: of_nat_less_iff)
  then show "(of_int n :: rat) < 10 powi int (length (itoa n))"
    using assms l by simp
qed

lemma flog10_le:
  assumes "0 < x"
  shows "10 powi flog10 x \<le> x"
proof -
  obtain p q where pq: "quotient_of x = (p, q)" by fastforce
  have q: "0 < q" using quotient_of_denom_pos [OF pq] .
  have x: "x = of_int p / of_int q" using quotient_of_div [OF pq] .
  have p: "0 < p" using assms x q by (simp add: zero_less_divide_iff)
  have "10 powi (int (length (itoa p)) - 1) / (10 powi int (length (itoa q))) \<le> (of_int p / of_int q :: rat)"
    using itoa_bounds [OF p] itoa_bounds [OF q] q p by (intro frac_le) simp_all
  moreover have "(10 :: rat) powi (a - b - 1) = 10 powi (a - 1) / 10 powi b" for a b
    by (simp flip: power_int_diff add: algebra_simps)
  ultimately have "10 powi (int (length (itoa p)) - int (length (itoa q)) - 1) \<le> x"
    unfolding x by simp
  then show ?thesis by (simp add: flog10_def pq Let_def)
qed

section \<open>Enough digits\<close>

text \<open>A number just below a value of the format rounds to it.\<close>

lemma round_rat_just_below:
  assumes "0 < x" and "round_rat x = x" and "y \<le> x" and "x - y < x / 2 ^ 55"
  shows "round_rat y = x"
proof -
  let ?u = "2 powi ulp_exp y :: rat"
  have "x / 2 ^ 55 \<le> x / 2" using assms(1) by (intro divide_left_mono) simp_all
  then have y: "x / 2 < y" using assms by simp
  then have y0: "0 < y" using assms(1) by simp
  have fx: "2 powi flog2 x \<le> x" "x < 2 powi (flog2 x + 1)" using flog2_bounds [of x] assms(1) by simp_all
  have "2 powi (flog2 x - 1) \<le> x / 2" using fx(1) by (simp add: power_int_diff)
  also have "\<dots> < 2 powi (flog2 y + 1)" using y flog2_bounds(2) [of y] y0 by simp
  finally have fy: "flog2 x - 1 \<le> flog2 y" by (simp add: powi_lt_iff)
  have "flog2 y \<le> flog2 x" using assms y0 by (intro flog2_mono) simp_all
  then have "ulp_exp y \<le> ulp_exp x" by (simp add: ulp_exp_def)
  then obtain n where "(2 :: rat) powi ulp_exp x = of_int n * ?u" using powi_multiple by blast
  moreover have "x = of_int (round_even (x / 2 powi ulp_exp x)) * 2 powi ulp_exp x"
    using assms(1,2) by (simp add: round_rat_def Let_def)
  ultimately obtain m where m: "x = of_int m * ?u" by (metis mult.assoc of_int_mult)
  have "x / 2 ^ 55 < 2 powi (flog2 x + 1) / 2 ^ 55" using fx(2) by (rule divide_strict_right_mono) simp
  also have "\<dots> = 2 powi (flog2 x - 54)"
    by (simp add: power_int_diff power_int_add)
  also have "\<dots> \<le> 2 powi (ulp_exp y - 1)" using fy by (intro powi_le) (simp add: ulp_exp_def)
  also have "\<dots> = ?u / 2" by (simp add: power_int_diff)
  finally have "x - y < ?u / 2" using assms(4) by simp
  then have "of_int m - y / ?u < 1 / 2" "y / ?u \<le> of_int m"
    using assms(3) by (simp_all add: m field_simps)
  then have "round_even (y / ?u) = m"
    by (cases "y / ?u = of_int m") (simp_all add: round_even_def Let_def floor_unique [of "m - 1" "y / ?u"])
  then show ?thesis using y0 m by (simp add: round_rat_def Let_def)
qed

lemma rnd_Fin_iff: "rnd y = Fin x \<longleftrightarrow> round_rat y = x \<and> (x = 0 \<or> flog2 x < 1024)"
  by (auto simp: rnd_def Let_def)

lemma shortest_ok:
  assumes "0 < x" and "rnd x = Fin x" and "18 \<le> n + fuel" and "n \<le> 17"
  shows "\<exists>m k. shortest fuel n (flog10 x) x = (m, k) \<and> rnd (of_int m * 10 powi k) = Fin x"
  using assms(3,4)
proof (induction fuel arbitrary: n)
  case 0
  then show ?case by simp
next
  case (Suc fuel)
  define k where "k = flog10 x - int n"
  define u where "u = (10 :: rat) powi k"
  define lo where "lo = \<lfloor>x / u\<rfloor>"
  define hi where "hi = (if of_int lo * u = x then lo else lo + 1)"
  define ok where "ok m \<longleftrightarrow> rnd (of_int m * u) = Fin x" for m
  have u: "0 < u" by (simp add: u_def)
  have step: "shortest (Suc fuel) n (flog10 x) x =
      (if ok lo \<and> ok hi then (round_even (x / u), k) else if ok lo then (lo, k)
       else if ok hi then (hi, k) else shortest fuel (Suc n) (flog10 x) x)"
    unfolding shortest.simps Let_def k_def [symmetric] u_def [symmetric] lo_def [symmetric]
      hi_def [symmetric] ok_def ..
  have "x / u = of_int lo \<or> hi = lo + 1"
  proof (cases "of_int lo * u = x")
    case True
    then have "x / u = of_int lo" using u by (metis nonzero_eq_divide_eq order_less_irrefl)
    then show ?thesis ..
  qed (simp add: hi_def)
  moreover have "round_even (x / u) = lo \<or> round_even (x / u) = lo + 1"
    unfolding round_even_def Let_def lo_def by meson
  ultimately have "round_even (x / u) = lo \<or> round_even (x / u) = hi"
    by (metis round_even_of_int)
  then have both: "ok lo \<Longrightarrow> ok hi \<Longrightarrow> ok (round_even (x / u))" by auto
  have "ok lo \<or> n < 17"
  proof (cases "n < 17")
    case False
    then have n: "n = 17" using Suc.prems by simp
    have lo: "of_int lo \<le> x / u" "x / u < of_int lo + 1" unfolding lo_def by linarith+
    then have d: "of_int lo * u \<le> x" "x - of_int lo * u < u" using u by (simp_all add: field_simps)
    have "u = 10 powi flog10 x / 10 ^ 17" by (simp add: u_def k_def n power_int_diff)
    also have "\<dots> \<le> x / 10 ^ 17" using flog10_le [OF assms(1)] by (rule divide_right_mono) simp
    also have "\<dots> \<le> x / 2 ^ 55" using assms(1) by (intro divide_left_mono) simp_all
    finally have "x - of_int lo * u < x / 2 ^ 55" using d(2) by linarith
    moreover have "round_rat x = x" using assms(2) by (simp add: rnd_Fin_iff)
    ultimately have "round_rat (of_int lo * u) = x"
      using round_rat_just_below [OF assms(1) _ d(1)] by blast
    then show ?thesis using assms(2) by (simp add: ok_def rnd_Fin_iff)
  qed simp
  then consider "ok lo \<or> ok hi" | "n < 17" "\<not> ok lo" "\<not> ok hi" by blast
  then show ?case
  proof cases
    case 1
    then show ?thesis using both unfolding step ok_def u_def by auto
  next
    case 2
    then show ?thesis unfolding step using Suc.IH [of "Suc n"] Suc.prems by simp
  qed
qed

section \<open>The literal\<close>

text \<open>The digits without trailing zeros: \<open>sig\<close> times ten to the \<open>p\<close>, less its length.\<close>

definition digits_value :: "string \<Rightarrow> int \<Rightarrow> rat" where
  "digits_value sig p = of_nat (nat_of_digits sig) * 10 powi (p - int (length sig))"

lemma nat_of_digits_append:
  "nat_of_digits (a @ b) = nat_of_digits a * 10 ^ length b + nat_of_digits b"
proof -
  have "foldl (\<lambda>n c. 10 * n + (byte c - 48)) v b = v * 10 ^ length b + nat_of_digits b" for v
  proof (induction b arbitrary: v)
    case (Cons c b)
    show ?case
      using Cons [of "10 * v + (byte c - 48)"] Cons [of "byte c - 48"]
      by (simp add: nat_of_digits_def algebra_simps)
  qed (simp add: nat_of_digits_def)
  then show ?thesis by (metis foldl_append nat_of_digits_def)
qed

lemma nat_of_digits_zeros [simp]: "nat_of_digits (replicate n (CHR ''0'')) = 0"
  by (induction n) (simp_all add: nat_of_digits_def)

lemma digits_value_strip:
  assumes "0 \<le> m"
  defines "ds \<equiv> itoa m"
  defines "sig \<equiv> rev (dropWhile (\<lambda>c. c = CHR ''0'') (rev ds))"
  shows "digits_value sig (k + int (length ds)) = of_int m * 10 powi k"
proof -
  define z where "z = length (takeWhile (\<lambda>c. c = CHR ''0'') (rev ds))"
  have zs: "takeWhile (\<lambda>c. c = CHR ''0'') (rev ds) = replicate z (CHR ''0'')"
    unfolding z_def by (rule sym, rule replicate_length_same) (auto dest: set_takeWhileD)
  have "ds = rev (dropWhile (\<lambda>c. c = CHR ''0'') (rev ds)) @ rev (takeWhile (\<lambda>c. c = CHR ''0'') (rev ds))"
    by (metis rev_append rev_rev_ident takeWhile_dropWhile_id)
  then have ds: "ds = sig @ replicate z (CHR ''0'')" by (simp add: zs sig_def)
  then have "nat_of_digits ds = nat_of_digits sig * 10 ^ z"
    using nat_of_digits_append [of sig "replicate z (CHR ''0'')"] by simp
  moreover have "nat_of_digits ds = nat m" using assms(1) by (simp add: ds_def itoa_def)
  ultimately have m: "(of_int m :: rat) = of_nat (nat_of_digits sig) * 10 ^ z"
    using assms(1) by (metis of_nat_mult of_nat_nat of_nat_numeral of_nat_power of_int_of_nat_eq)
  have e: "k + int (length ds) - int (length sig) = int z + k" by (simp add: ds)
  have "(10 :: rat) powi (int z + k) = 10 ^ z * 10 powi k" by (simp add: power_int_add)
  then show ?thesis
    unfolding digits_value_def e m by (simp add: mult.assoc)
qed

definition sig_ok :: "string \<Rightarrow> bool" where
  "sig_ok sig \<longleftrightarrow> sig \<noteq> [] \<and> list_all is_digit sig \<and> hd sig \<noteq> CHR ''0''"

lemma strip_sig_ok:
  assumes "0 < m"
  shows "sig_ok (rev (dropWhile (\<lambda>c. c = CHR ''0'') (rev (itoa m))))"
proof -
  let ?ds = "nat_digits (nat m)" and ?P = "\<lambda>c. c = CHR ''0''"
  let ?sig = "rev (dropWhile ?P (rev ?ds))"
  have h: "hd ?ds \<noteq> CHR ''0''" using nat_digits_head [of "nat m"] assms by simp
  have "hd ?ds \<in> set (rev ?ds)" by simp
  then have "dropWhile ?P (rev ?ds) \<noteq> []" unfolding dropWhile_eq_Nil_conv using h by blast
  then have ne: "?sig \<noteq> []" by simp
  have split: "?ds = ?sig @ rev (takeWhile ?P (rev ?ds))"
    by (metis rev_append rev_rev_ident takeWhile_dropWhile_id)
  then have "hd ?sig = hd ?ds" using ne by (metis hd_append2)
  moreover have "set ?sig \<subseteq> set ?ds" using set_dropWhileD by fastforce
  ultimately show ?thesis
    using ne h nat_digits_digits [of "nat m"] assms by (auto simp: sig_ok_def list_all_iff itoa_def)
qed

lemma digit_bytes: "is_digit c \<Longrightarrow> c \<noteq> CHR ''.'' \<and> c \<noteq> CHR ''e'' \<and> c \<noteq> CHR ''E'' \<and> c \<noteq> CHR ''-'' \<and> c \<noteq> CHR ''+''"
  by (auto simp: is_digit_def)

lemma digits_before:
  assumes "list_all is_digit ds" and "num_end r \<or> (\<exists>c t. r = c # t \<and> \<not> is_digit c)"
  shows "takeWhile is_digit (ds @ r) = ds" "dropWhile is_digit (ds @ r) = r"
  using assms by (induction ds) (auto simp: num_end_def split: list.splits)

lemma digit_zero [simp]: "is_digit (CHR ''0'')"
  by (simp add: is_digit_def)

text \<open>The value of a literal without sign, by its parts.\<close>

lemma literal_value_parts:
  assumes "list_all is_digit ip" and "ip \<noteq> []" and "list_all is_digit fp"
  shows "literal_value ip = of_nat (nat_of_digits ip)"
    "literal_value (ip @ CHR ''.'' # fp) = of_nat (nat_of_digits (ip @ fp)) * 10 powi (- int (length fp))"
    "literal_value (ip @ ''e+'' @ itoa (int n)) = of_nat (nat_of_digits ip) * 10 powi int n"
    "literal_value (ip @ ''e-'' @ itoa (int n)) = of_nat (nat_of_digits ip) * 10 powi (- int n)"
    "literal_value (ip @ CHR ''.'' # fp @ ''e+'' @ itoa (int n)) =
      of_nat (nat_of_digits (ip @ fp)) * 10 powi (int n - int (length fp))"
    "literal_value (ip @ CHR ''.'' # fp @ ''e-'' @ itoa (int n)) =
      of_nat (nat_of_digits (ip @ fp)) * 10 powi (- int n - int (length fp))"
proof -
  have strip: "strip_minus (ip @ r) = (False, ip @ r)" for r
    using assms digit_bytes by (cases ip) (auto simp: strip_minus_def)
  have nd: "\<not> is_digit (CHR ''.'')" "\<not> is_digit (CHR ''e'')" by (simp_all add: is_digit_def)
  have it: "itoa (int n) = nat_digits n" by (simp add: itoa_def)
  have i: "takeWhile is_digit (ip @ c # t) = ip" "dropWhile is_digit (ip @ c # t) = c # t"
    if "\<not> is_digit c" for c t
    using digits_before [OF assms(1), of "c # t"] that by blast+
  have f: "takeWhile is_digit (fp @ c # t) = fp" "dropWhile is_digit (fp @ c # t) = c # t"
    if "\<not> is_digit c" for c t
    using digits_before [OF assms(3), of "c # t"] that by blast+
  have e: "takeWhile is_digit ip = ip" "takeWhile is_digit fp = fp" "dropWhile is_digit fp = []"
    using assms by (simp_all add: all_digits_while)
  show "literal_value ip = of_nat (nat_of_digits ip)"
    using strip [of "[]"] by (simp add: literal_value_def e(1))
  show "literal_value (ip @ CHR ''.'' # fp) = of_nat (nat_of_digits (ip @ fp)) * 10 powi (- int (length fp))"
    by (simp add: literal_value_def strip i nd e)
  show "literal_value (ip @ ''e+'' @ itoa (int n)) = of_nat (nat_of_digits ip) * 10 powi int n"
    by (simp add: literal_value_def strip i nd it)
  show "literal_value (ip @ ''e-'' @ itoa (int n)) = of_nat (nat_of_digits ip) * 10 powi (- int n)"
    by (simp add: literal_value_def strip i nd it)
  show "literal_value (ip @ CHR ''.'' # fp @ ''e+'' @ itoa (int n)) =
      of_nat (nat_of_digits (ip @ fp)) * 10 powi (int n - int (length fp))"
    by (simp add: literal_value_def strip i f nd it)
  show "literal_value (ip @ CHR ''.'' # fp @ ''e-'' @ itoa (int n)) =
      of_nat (nat_of_digits (ip @ fp)) * 10 powi (- int n - int (length fp))"
    by (simp add: literal_value_def strip i f nd it)
qed

text \<open>The two layouts of the digits denote the same number.\<close>

lemma nat_of_digits_lead0 [simp]: "nat_of_digits (CHR ''0'' # s) = nat_of_digits s"
  using nat_of_digits_append [of "''0''" s] by (simp add: nat_of_digits_def)

lemma plain_decimal_value:
  assumes "sig_ok sig"
  shows "literal_value (plain_decimal sig p) = digits_value sig p"
proof -
  have d: "list_all is_digit sig" "sig \<noteq> []" using assms by (simp_all add: sig_ok_def)
  consider "p \<le> 0" | "0 < p" "int (length sig) \<le> p" | "0 < p" "p < int (length sig)" by linarith
  then show ?thesis
  proof cases
    case 1
    let ?z = "replicate (nat (- p)) (CHR ''0'')"
    have "list_all is_digit (?z @ sig)" using d by (auto simp: list_all_iff)
    then have "literal_value (''0'' @ CHR ''.'' # ?z @ sig) =
        of_nat (nat_of_digits (''0'' @ ?z @ sig)) * 10 powi (- int (length (?z @ sig)))"
      by (intro literal_value_parts(2)) simp_all
    moreover have "nat_of_digits (''0'' @ ?z @ sig) = nat_of_digits sig"
      using nat_of_digits_append [of ?z sig] by simp
    moreover have "- int (length (?z @ sig)) = p - int (length sig)" using 1 by simp
    ultimately show ?thesis using 1 by (simp add: plain_decimal_def digits_value_def)
  next
    case 2
    let ?z = "replicate (nat p - length sig) (CHR ''0'')"
    have "list_all is_digit (sig @ ?z)" using d by (auto simp: list_all_iff)
    then have "literal_value (sig @ ?z) = of_nat (nat_of_digits (sig @ ?z))"
      using d by (intro literal_value_parts(1) [where fp = "[]"]) simp_all
    also have "\<dots> = of_nat (nat_of_digits sig) * 10 ^ (nat p - length sig)"
      by (simp add: nat_of_digits_append)
    also have "(10 :: rat) ^ (nat p - length sig) = 10 powi (p - int (length sig))"
      using 2 by (simp add: power_int_nonneg_exp nat_diff_distrib)
    finally show ?thesis using 2 by (simp add: plain_decimal_def digits_value_def)
  next
    case 3
    let ?k = "nat p"
    have "list_all is_digit (take ?k sig)" "list_all is_digit (drop ?k sig)" "take ?k sig \<noteq> []"
      using d 3 by (auto simp: list_all_iff dest: in_set_takeD in_set_dropD)
    then have "literal_value (take ?k sig @ CHR ''.'' # drop ?k sig) =
        of_nat (nat_of_digits (take ?k sig @ drop ?k sig)) * 10 powi (- int (length (drop ?k sig)))"
      by (intro literal_value_parts(2))
    moreover have "- int (length (drop ?k sig)) = p - int (length sig)" using 3 by (simp add: of_nat_diff)
    ultimately show ?thesis using 3 by (simp add: plain_decimal_def digits_value_def)
  qed
qed

lemma exp_decimal_value:
  assumes "sig_ok sig"
  shows "literal_value (exp_decimal sig p) = digits_value sig p"
proof -
  obtain c r where sig: "sig = c # r" using assms by (cases sig) (auto simp: sig_ok_def)
  have d: "list_all is_digit [c]" "list_all is_digit r" using assms by (simp_all add: sig_ok_def sig)
  have n: "p - 1 = int (nat (p - 1)) \<or> p - 1 < 0 \<and> 1 - p = int (nat (1 - p))" by linarith
  have e: "- int (nat (1 - p)) = p - 1" if "p - 1 < 0" using that by simp
  show ?thesis
  proof (cases "p - 1 < 0")
    case True
    then have "exp_decimal sig p = (if r = [] then [c] @ ''e-'' @ itoa (int (nat (1 - p)))
        else [c] @ CHR ''.'' # r @ ''e-'' @ itoa (int (nat (1 - p))))"
      by (simp add: exp_decimal_def sig)
    then show ?thesis
      using literal_value_parts(4,6) [OF d(1) _ d(2), of "nat (1 - p)"] True
      by (simp add: digits_value_def sig e algebra_simps split: if_splits)
  next
    case False
    then have "exp_decimal sig p = (if r = [] then [c] @ ''e+'' @ itoa (int (nat (p - 1)))
        else [c] @ CHR ''.'' # r @ ''e+'' @ itoa (int (nat (p - 1))))"
      by (simp add: exp_decimal_def sig)
    then show ?thesis
      using literal_value_parts(3,5) [OF d(1) _ d(2), of "nat (p - 1)"] False
      by (simp add: digits_value_def sig algebra_simps split: if_splits)
  qed
qed

text \<open>Both layouts are JSON numbers.\<close>

definition int_ok :: "string \<Rightarrow> bool" where
  "int_ok ip \<longleftrightarrow> ip \<noteq> [] \<and> list_all is_digit ip \<and> (hd ip = CHR ''0'' \<longrightarrow> ip = ''0'')"

lemma int_part_ok:
  assumes "int_ok ip" and "num_end r \<or> (\<exists>c t. r = c # t \<and> \<not> is_digit c)"
  shows "int_part (ip @ r) = ip" "sign_part (ip @ r) = ([], ip @ r)"
proof -
  have "takeWhile is_digit (ip @ r) = ip"
    using digits_before(1) [OF _ assms(2), of ip] assms(1) by (simp add: int_ok_def)
  then show "int_part (ip @ r) = ip" using assms(1) by (auto simp: int_part_def int_ok_def)
  show "sign_part (ip @ r) = ([], ip @ r)"
    using assms(1) digit_bytes by (cases ip) (auto simp: sign_part_def int_ok_def)
qed

lemma num_ok_parts:
  assumes "int_ok ip" and "list_all is_digit fp" and "fp \<noteq> []" and "x = CHR ''+'' \<or> x = CHR ''-''"
  shows "num_ok ip" "num_ok (ip @ CHR ''.'' # fp)"
    "num_ok (ip @ CHR ''e'' # x # nat_digits n)"
    "num_ok (ip @ CHR ''.'' # fp @ CHR ''e'' # x # nat_digits n)"
proof -
  have ip: "ip \<noteq> []" using assms(1) by (simp add: int_ok_def)
  have nd: "\<not> is_digit (CHR ''.'')" "\<not> is_digit (CHR ''e'')" by (simp_all add: is_digit_def)
  have parts: "int_part (ip @ c # t) = ip" "sign_part (ip @ c # t) = ([], ip @ c # t)"
    "int_part ip = ip" "sign_part ip = ([], ip)"
    if "c = CHR ''.'' \<or> c = CHR ''e''" for c t
    using int_part_ok [OF assms(1), of "c # t"] int_part_ok [OF assms(1), of "[]"] nd that by auto
  have frac: "frac_part [] = ([], [], True)" "frac_part (CHR ''e'' # t) = ([], CHR ''e'' # t, True)"
    "frac_part (CHR ''.'' # fp) = (CHR ''.'' # fp, [], True)"
    "frac_part (CHR ''.'' # fp @ CHR ''e'' # t) = (CHR ''.'' # fp, CHR ''e'' # t, True)" for t
    using assms(2,3) digits_before [OF assms(2), of "CHR ''e'' # t" for t] nd
    by (simp_all add: frac_part_def all_digits_while)
  have ex: "exp_part [] = ([], [], True)"
    "exp_part (CHR ''e'' # x # nat_digits n) = (CHR ''e'' # x # nat_digits n, [], True)"
    using assms(4) by (auto simp: exp_part_def all_digits_while nat_digits_digits)
  show "num_ok ip" "num_ok (ip @ CHR ''.'' # fp)" "num_ok (ip @ CHR ''e'' # x # nat_digits n)"
    "num_ok (ip @ CHR ''.'' # fp @ CHR ''e'' # x # nat_digits n)"
    using ip parts(3,4) [of "CHR ''e''"] by (simp_all add: num_ok_def parse_num_steps parts(1,2) frac ex)
qed

lemma num_ok_minus:
  assumes "num_ok s" and "list_all (\<lambda>c. c \<noteq> CHR ''-'') (take 1 s)"
  shows "num_ok (CHR ''-'' # s)" "literal_value (CHR ''-'' # s) = - literal_value s"
proof -
  have sg: "sign_part s = ([], s)" "strip_minus s = (False, s)"
    using assms(2) by (cases s; simp add: sign_part_def strip_minus_def)+
  then show "num_ok (CHR ''-'' # s)"
    using assms(1) by (auto simp: num_ok_def parse_num_steps sign_part_def split: prod.splits if_splits)
  show "literal_value (CHR ''-'' # s) = - literal_value s"
    using sg(2) by (simp add: literal_value_def strip_minus_def Let_def)
qed

lemma sig_int_ok: "sig_ok sig \<Longrightarrow> int_ok sig"
  by (simp add: sig_ok_def int_ok_def)

lemma plain_decimal_ok:
  assumes "sig_ok sig"
  shows "num_ok (plain_decimal sig p)"
proof -
  have d: "list_all is_digit sig" "sig \<noteq> []" "hd sig \<noteq> CHR ''0''" using assms by (simp_all add: sig_ok_def)
  have z: "int_ok ''0''" by (simp add: int_ok_def)
  consider "p \<le> 0" | "0 < p" "int (length sig) \<le> p" | "0 < p" "p < int (length sig)" by linarith
  then show ?thesis
  proof cases
    case 1
    let ?f = "replicate (nat (- p)) (CHR ''0'') @ sig"
    have "list_all is_digit ?f" "?f \<noteq> []" using d by (auto simp: list_all_iff)
    then show ?thesis using num_ok_parts(2) [OF z, of ?f "CHR ''+''"] 1 by (simp add: plain_decimal_def)
  next
    case 2
    have "int_ok (sig @ replicate (nat p - length sig) (CHR ''0''))"
      using d by (auto simp: int_ok_def list_all_iff)
    then show ?thesis using num_ok_parts(1) [of _ "''0''" "CHR ''+''"] 2 by (simp add: plain_decimal_def)
  next
    case 3
    have "int_ok (take (nat p) sig)" "list_all is_digit (drop (nat p) sig)" "drop (nat p) sig \<noteq> []"
      using d 3 by (auto simp: int_ok_def list_all_iff dest: in_set_takeD in_set_dropD)
    then show ?thesis
      using num_ok_parts(2) [of "take (nat p) sig" "drop (nat p) sig" "CHR ''+''"] 3 by (simp add: plain_decimal_def)
  qed
qed

lemma exp_decimal_ok:
  assumes "sig_ok sig"
  shows "num_ok (exp_decimal sig p)"
proof -
  obtain c r where sig: "sig = c # r" using assms by (cases sig) (auto simp: sig_ok_def)
  have d: "int_ok [c]" "list_all is_digit r" using assms by (simp_all add: sig_ok_def sig int_ok_def)
  have it: "itoa i = nat_digits (nat i)" if "0 \<le> i" for i using that by (simp add: itoa_def)
  show ?thesis
    using num_ok_parts(3) [OF d(1), of "''0''" "if p - 1 < 0 then CHR ''-'' else CHR ''+''"
        "nat (if p - 1 < 0 then 1 - p else p - 1)"]
      num_ok_parts(4) [OF d, of "if p - 1 < 0 then CHR ''-'' else CHR ''+''"
        "nat (if p - 1 < 0 then 1 - p else p - 1)"]
    by (cases "r = []"; cases "p - 1 < 0") (simp_all add: exp_decimal_def sig it)
qed

section \<open>Reading back\<close>

lemma rnd_minus: "rnd (- y) = Fin (- x) \<longleftrightarrow> rnd y = Fin x"
  by (auto simp: rnd_Fin_iff round_rat_minus)

lemma literal_positive:
  assumes "0 < x" and "rnd x = Fin x" and "shortest_digits x = (ds, p)"
  shows "sig_ok ds" "rnd (digits_value ds p) = Fin x"
proof -
  obtain m k where mk: "shortest 18 0 (flog10 x) x = (m, k)" "rnd (of_int m * 10 powi k) = Fin x"
    using shortest_ok [OF assms(1,2), of 0 18] by auto
  have "0 < m"
  proof (rule ccontr)
    assume "\<not> 0 < m"
    then have "of_int m * 10 powi k \<le> (0 :: rat)" by (simp add: mult_nonpos_nonneg)
    then have "round_rat (of_int m * 10 powi k) \<le> 0" by (rule round_rat_nonpos)
    then show False using mk(2) assms(1) by (simp add: rnd_Fin_iff)
  qed
  moreover have "ds = rev (dropWhile (\<lambda>c. c = CHR ''0'') (rev (itoa m)))" "p = k + int (length (itoa m))"
    using assms(3) mk(1) by (simp_all add: shortest_digits_def Let_def)
  ultimately show "sig_ok ds" "rnd (digits_value ds p) = Fin x"
    using strip_sig_ok [of m] digits_value_strip [of m k] mk(2) by simp_all
qed

text \<open>A number the format holds.\<close>

definition f64_wf :: "f64 \<Rightarrow> bool" where
  "f64_wf v \<longleftrightarrow> (case v of Fin x \<Rightarrow> rnd x = Fin x | _ \<Rightarrow> False)"

lemma float_roundtrip:
  assumes "f64_wf v"
  shows "\<exists>l. float_literal v = Some l \<and> num_ok l \<and> (\<forall>old. dec_float (JNum l) old = Some v)"
proof -
  obtain x where v: "v = Fin x" and x: "rnd x = Fin x"
    using assms by (auto simp: f64_wf_def split: f64.splits)
  have lit: "num_ok t \<and> rnd (literal_value t) = Fin y \<and> list_all (\<lambda>c. c \<noteq> CHR ''-'') (take 1 t)"
    if "0 < y" "rnd y = Fin y" "shortest_digits y = (ds, p)" "t = exp_decimal ds p \<or> t = plain_decimal ds p"
    for y ds p t
  proof -
    note ds = literal_positive [OF that(1-3)]
    have "ds \<noteq> []" "is_digit (hd ds)" using ds(1) by (auto simp: sig_ok_def list_all_iff)
    then have "list_all (\<lambda>c. c \<noteq> CHR ''-'') (take 1 (exp_decimal ds p))"
      "list_all (\<lambda>c. c \<noteq> CHR ''-'') (take 1 (plain_decimal ds p))"
      using digit_bytes by (cases ds; auto simp: exp_decimal_def plain_decimal_def take_Cons')+
    then show ?thesis
      using that(4) ds exp_decimal_ok [OF ds(1)] plain_decimal_ok [OF ds(1)]
        exp_decimal_value [OF ds(1)] plain_decimal_value [OF ds(1)] by auto
  qed
  consider "x = 0" | "0 < x" | "x < 0" by linarith
  then show ?thesis
  proof cases
    case 1
    have "literal_value ''0'' = 0" using literal_value_parts(1) [of "''0''" "[]"] by (simp add: nat_of_digits_def)
    moreover have "num_ok ''0''" using num_ok_itoa [of 0] nat_digits_zero by (simp add: itoa_def)
    ultimately show ?thesis using 1 x by (simp add: v float_literal_def dec_float_def)
  next
    case 2
    obtain ds p where dp: "shortest_digits x = (ds, p)" by fastforce
    obtain t where t: "float_literal v = Some t" "t = exp_decimal ds p \<or> t = plain_decimal ds p"
      using 2 dp by (auto simp: v float_literal_def Let_def)
    show ?thesis using lit [OF 2 x dp t(2)] t(1) by (simp add: v dec_float_def)
  next
    case 3
    have pos: "0 < - x" "rnd (- x) = Fin (- x)" using 3 x by (simp_all add: rnd_minus)
    obtain ds p where dp: "shortest_digits (- x) = (ds, p)" by fastforce
    obtain t where t: "float_literal v = Some (CHR ''-'' # t)" "t = exp_decimal ds p \<or> t = plain_decimal ds p"
      using 3 dp by (auto simp: v float_literal_def Let_def)
    note tx = lit [OF pos dp t(2)]
    have "rnd (- literal_value t) = Fin x" using tx rnd_minus [of "literal_value t" "- x"] by simp
    then show ?thesis
      using t(1) tx num_ok_minus [of t] by (simp add: v dec_float_def)
  qed
qed

end
