(* ===== verification/HttpProvider.thy ===== *)
theory HttpProvider
  imports RegistryChat Http FloatText
begin

text \<open>
  \<open>internal/service/provider/http_provider.go\<close> with \<open>openai.go\<close>, \<open>anthropic.go\<close> and
  \<open>minimax.go\<close>: the client of an upstream with the OpenAI wire format.  The tracing spans do
  not influence the result and are left out.  \<open>err\<close> is the text of the JSON decoder's error
  for a body.
\<close>

section \<open>The wire format\<close>

definition prov_message_json :: "prov_message \<Rightarrow> json" where
  "prov_message_json m = JObj
     ([(''role'', JStr (pm_Role m)), (''content'', JStr (pm_Content m))] @ opt_str ''name'' (pm_Name m))"

text \<open>A number field with \<open>omitempty\<close>; a float that is not finite fails the encoding.\<close>

definition opt_float :: "string \<Rightarrow> f64 \<Rightarrow> (string \<times> json) list option" where
  "opt_float k x =
     (if f64_eq x 0 then Some [] else map_option (\<lambda>l. [(k, JNum l)]) (float_literal x))"

definition opt_int :: "string \<Rightarrow> int \<Rightarrow> (string \<times> json) list" where
  "opt_int k n = (if n = 0 then [] else [(k, JInt n)])"

text \<open>\<open>json.Marshal\<close> of a request; None is its error.\<close>

definition marshal_request :: "prov_request \<Rightarrow> string option" where
  "marshal_request q =
     (case (opt_float ''temperature'' (pr_Temperature q), opt_float ''top_p'' (pr_TopP q)) of
        (Some temperature, Some topP) \<Rightarrow>
          Some (render (JObj
            ([(''model'', JStr (pr_Model q)), (''messages'', JArr (map prov_message_json (pr_Messages q)))]
             @ temperature @ opt_int ''max_tokens'' (pr_MaxTokens q) @ topP
             @ (if pr_Stream q then [(''stream'', JBool True)] else [])
             @ (if pr_Stop q = [] then [] else [(''stop'', JArr (map JStr (pr_Stop q)))]))))
      | _ \<Rightarrow> None)"

definition prov_usage_zero :: prov_usage where
  "prov_usage_zero = \<lparr>pu_PromptTokens = 0, pu_CompletionTokens = 0, pu_TotalTokens = 0\<rparr>"

definition prov_response_zero :: prov_response where
  "prov_response_zero = \<lparr>ps_ID = '''', ps_Object = '''', ps_Created = 0, ps_Model = '''', ps_Choices = [],
     ps_Usage = prov_usage_zero, ps_Provider = ''''\<rparr>"

definition dec_prov_message :: "prov_message dec" where
  "dec_prov_message = dec_struct
     [(''role'', dec_into pm_Role pm_Role_update dec_string),
      (''content'', dec_into pm_Content pm_Content_update dec_string),
      (''name'', dec_into pm_Name pm_Name_update dec_string)]"

definition dec_prov_choice :: "prov_choice dec" where
  "dec_prov_choice = dec_struct
     [(''index'', dec_into pc_Index pc_Index_update dec_int),
      (''message'', dec_into pc_Message pc_Message_update dec_prov_message),
      (''finish_reason'', dec_into pc_FinishReason pc_FinishReason_update dec_string)]"

definition dec_prov_usage :: "prov_usage dec" where
  "dec_prov_usage = dec_struct
     [(''prompt_tokens'', dec_into pu_PromptTokens pu_PromptTokens_update dec_int),
      (''completion_tokens'', dec_into pu_CompletionTokens pu_CompletionTokens_update dec_int),
      (''total_tokens'', dec_into pu_TotalTokens pu_TotalTokens_update dec_int)]"

text \<open>The field \<open>Provider\<close> is not part of the JSON.\<close>

definition dec_prov_response :: "prov_response dec" where
  "dec_prov_response = dec_struct
     [(''id'', dec_into ps_ID ps_ID_update dec_string),
      (''object'', dec_into ps_Object ps_Object_update dec_string),
      (''created'', dec_into ps_Created ps_Created_update dec_int),
      (''model'', dec_into ps_Model ps_Model_update dec_string),
      (''choices'', dec_into ps_Choices ps_Choices_update
         (dec_slice dec_prov_choice
            \<lparr>pc_Index = 0, pc_Message = \<lparr>pm_Role = '''', pm_Content = '''', pm_Name = ''''\<rparr>, pc_FinishReason = ''''\<rparr>)),
      (''usage'', dec_into ps_Usage ps_Usage_update dec_prov_usage)]"

section \<open>The provider\<close>

definition defaultProviderTimeout :: duration where
  "defaultProviderTimeout = 30 * second"

text \<open>The HTTP client is its timeout; the transport comes with each call.\<close>

record http_provider =
  hp_name :: string
  hp_baseURL :: string
  hp_apiKey :: string
  hp_timeout :: duration

definition newOpenAICompatibleProvider :: "string \<Rightarrow> string \<Rightarrow> string \<Rightarrow> duration option \<Rightarrow> http_provider" where
  "newOpenAICompatibleProvider name baseURL apiKey client =
     \<lparr>hp_name = name, hp_baseURL = trim_right_char (CHR ''/'') baseURL, hp_apiKey = apiKey,
      hp_timeout = (case client of None \<Rightarrow> defaultProviderTimeout | Some t \<Rightarrow> t)\<rparr>"

definition newOpenAIProvider :: "provider_config \<Rightarrow> duration option \<Rightarrow> http_provider" where
  "newOpenAIProvider cfg client = newOpenAICompatibleProvider ''openai'' (pvc_BaseURL cfg) (pvc_APIKey cfg) client"

definition newAnthropicProvider :: "provider_config \<Rightarrow> duration option \<Rightarrow> http_provider" where
  "newAnthropicProvider cfg client = newOpenAICompatibleProvider ''anthropic'' (pvc_BaseURL cfg) (pvc_APIKey cfg) client"

definition newMiniMaxProvider :: "provider_config \<Rightarrow> duration option \<Rightarrow> http_provider" where
  "newMiniMaxProvider cfg client = newOpenAICompatibleProvider ''minimax'' (pvc_BaseURL cfg) (pvc_APIKey cfg) client"

definition provider_Name :: "http_provider \<Rightarrow> string" where
  "provider_Name p = hp_name p"

definition dec_envelope :: "(string \<times> string) dec" where
  "dec_envelope = dec_struct
     [(''error'', dec_into fst apfst (dec_struct [(''message'', dec_string)])),
      (''message'', dec_into snd apsnd dec_string)]"

definition extractUpstreamMessage :: "int \<Rightarrow> string \<Rightarrow> string" where
  "extractUpstreamMessage statusCode body =
     (if body = '''' then ''upstream provider returned status '' @ itoa statusCode
      else
        let msg = trim_space body; plain = (if 512 < length msg then take 512 msg else msg)
        in case Option.bind (json_parse body) (\<lambda>j. dec_envelope j ('''', '''')) of
             Some (inner, outer) \<Rightarrow>
               if inner \<noteq> '''' then inner else if outer \<noteq> '''' then outer else plain
           | None \<Rightarrow> plain)"

definition provider_error :: "http_provider \<Rightarrow> int \<Rightarrow> string \<Rightarrow> string \<Rightarrow> string option \<Rightarrow> upstream_error" where
  "provider_error p code msg body e =
     upstream_error_zero\<lparr>ue_Provider := hp_name p, ue_StatusCode := code, ue_Message := msg,
       ue_Body := body, ue_Err := e\<rparr>"

definition provider_request :: "http_provider \<Rightarrow> string \<Rightarrow> http_request" where
  "provider_request p payload =
     \<lparr>hq_Method = ''POST'', hq_URL = hp_baseURL p @ ''/chat/completions'',
      hq_Headers = [(''Content-Type'', ''application/json''), (''Authorization'', ''Bearer '' @ hp_apiKey p)],
      hq_Body = payload\<rparr>"

text \<open>What becomes of a response whose body was read.\<close>

definition provider_result ::
  "(string \<Rightarrow> string) \<Rightarrow> http_provider \<Rightarrow> prov_request \<Rightarrow> int \<Rightarrow> string \<Rightarrow> upstream_error + prov_response" where
  "provider_result err p req status body =
     (if status < 200 \<or> status \<ge> 300
      then Inl (provider_error p status (extractUpstreamMessage status body) body None)
      else
        (case Option.bind (json_parse body) (\<lambda>j. dec_prov_response j prov_response_zero) of
           None \<Rightarrow> Inl (provider_error p 502 ''failed to parse upstream response'' body (Some (err body)))
         | Some resp \<Rightarrow>
             let resp = (if trim_space (ps_Model resp) = '''' then resp\<lparr>ps_Model := pr_Model req\<rparr> else resp)
             in Inr (resp\<lparr>ps_Provider := hp_name p\<rparr>)))"

definition provider_ChatCompletion ::
  "'w http_ops \<Rightarrow> (string \<Rightarrow> string) \<Rightarrow> http_provider \<Rightarrow> 'w client" where
  "provider_ChatCompletion http err p w req =
     (if hp_baseURL p = '''' \<or> hp_apiKey p = ''''
      then (Inl (provider_error p 503 (hp_name p @ '' provider is not configured'') '''' None), w)
      else
        (case marshal_request req of
           None \<Rightarrow>
             (Inl (provider_error p 400 ''failed to marshal chat request'' '''' (Some ''json: unsupported value'')), w)
         | Some payload \<Rightarrow>
             (case ht_NewRequest http ''POST'' (hp_baseURL p @ ''/chat/completions'') of
                Some e \<Rightarrow> (Inl (provider_error p 502 ''failed to build upstream request'' '''' (Some e)), w)
              | None \<Rightarrow>
                  (case ht_Do http (provider_request p payload) w of
                     (Inl e, w) \<Rightarrow> (Inl (provider_error p 503 ''failed to call upstream provider'' '''' (Some e)), w)
                   | (Inr resp, w) \<Rightarrow>
                       (case hs_Body resp of
                          Inl e \<Rightarrow> (Inl (provider_error p 502 ''failed to read upstream response'' '''' (Some e)), w)
                        | Inr body \<Rightarrow> (provider_result err p req (hs_StatusCode resp) body, w))))))"

section \<open>The result of a call\<close>


definition ex_transport :: "nat http_ops" where
  "ex_transport =
     \<lparr>ht_NewRequest = (\<lambda>m u. None), ht_Do = (\<lambda>rq w. (Inr \<lparr>hs_StatusCode = 500, hs_Body = Inr ''boom''\<rparr>, w)),
      ht_Sleep = (\<lambda>d w. (None, w)), ht_Now = (\<lambda>w. (int w, Suc w))\<rparr>"


end
