(* ===== verification/GoTime.thy ===== *)
theory GoTime
  imports Prelude GoStrings Float64
begin

text \<open>
  The parts of Go's \<open>time\<close> package that the gateway uses beyond subtraction: the calendar
  date of an instant in UTC (proleptic Gregorian, as \<open>time.Time\<close> has it), \<open>Format\<close> with
  the \<open>RFC3339\<close> layout, and \<open>Duration.Seconds\<close>.  An instant counts nanoseconds from the
  zero time, January 1 of year 1, 00:00:00 UTC.
\<close>

section \<open>Calendar\<close>

text \<open>Year and day of the year (from 0) of a day number; every 400 years have 146097 days.\<close>

definition year_day :: "int \<Rightarrow> int \<times> int" where
  "year_day d =
     (let n400 = d div 146097; r400 = d mod 146097;
          n100 = min 3 (r400 div 36524); r100 = r400 - n100 * 36524;
          n4 = r100 div 1461; r4 = r100 mod 1461;
          n1 = min 3 (r4 div 365); r1 = r4 - n1 * 365
      in (400 * n400 + 100 * n100 + 4 * n4 + n1 + 1, r1))"

definition leap :: "int \<Rightarrow> bool" where
  "leap y \<longleftrightarrow> y mod 4 = 0 \<and> (y mod 100 \<noteq> 0 \<or> y mod 400 = 0)"

definition month_days :: "int \<Rightarrow> int list" where
  "month_days y = [31, if leap y then 29 else 28, 31, 30, 31, 30, 31, 31, 30, 31, 30, 31]"

fun month_of :: "int list \<Rightarrow> int \<Rightarrow> int \<Rightarrow> int \<times> int" where
  "month_of [] m d = (m, d)"
| "month_of (k # ks) m d = (if d < k then (m, d) else month_of ks (m + 1) (d - k))"

text \<open>Year, month and day of the month of an instant.\<close>

definition civil_date :: "time \<Rightarrow> int \<times> int \<times> int" where
  "civil_date t =
     (case year_day (t div (86400 * second)) of
        (y, yd) \<Rightarrow> (case month_of (month_days y) 1 yd of (m, d) \<Rightarrow> (y, m, d + 1)))"

text \<open>The number of days before a year, and the day number of a date.\<close>

definition days_before_year :: "int \<Rightarrow> int" where
  "days_before_year y = 365 * (y - 1) + (y - 1) div 4 - (y - 1) div 100 + (y - 1) div 400"

section \<open>Formatting\<close>

definition pad :: "nat \<Rightarrow> int \<Rightarrow> string" where
  "pad n k = (let s = itoa k in replicate (n - length s) (CHR ''0'') @ s)"

definition format_rfc3339 :: "time \<Rightarrow> string" where
  "format_rfc3339 t =
     (case civil_date t of
        (y, m, d) \<Rightarrow>
          let s = t div second
          in pad 4 y @ ''-'' @ pad 2 m @ ''-'' @ pad 2 d @ ''T'' @
             pad 2 (s div 3600 mod 24) @ '':'' @ pad 2 (s div 60 mod 60) @ '':'' @ pad 2 (s mod 60) @ ''Z'')"

text \<open>
  \<open>Duration.Seconds\<close>: the whole seconds and the remaining nanoseconds, both truncated
  towards zero, added as floating-point numbers.
\<close>

definition duration_seconds :: "duration \<Rightarrow> f64" where
  "duration_seconds d =
     (let s = sgn d * (\<bar>d\<bar> div second); n = d - s * second
      in f64_of_int s + f64_of_int n / f64_of_int 1000000000)"

section \<open>Lemmas\<close>

text \<open>The day number splits into the days before the year and the day of the year.\<close>

text \<open>A quotient capped at \<open>c\<close>, and the remainder that is left.\<close>

lemma capped_div:
  assumes "0 \<le> x" "x \<le> (c + 1) * k" "0 < k" "0 \<le> (c :: int)"
  shows "0 \<le> min c (x div k)" "min c (x div k) \<le> c" "0 \<le> x - min c (x div k) * k"
    "min c (x div k) < c \<Longrightarrow> x - min c (x div k) * k < k"
    "x - min c (x div k) * k \<le> x - c * k \<or> x - min c (x div k) * k < k"
proof -
  have d: "x div k * k + x mod k = x" "0 \<le> x mod k" "x mod k < k" using assms(3) by simp_all
  have nn: "0 \<le> x div k" using assms(1,3) by (simp add: pos_imp_zdiv_nonneg_iff)
  show "0 \<le> min c (x div k)" "min c (x div k) \<le> c" using nn assms(4) by simp_all
  show "0 \<le> x - min c (x div k) * k"
    using mult_right_mono [of "min c (x div k)" "x div k" k] d assms(3) by linarith
  show "x - min c (x div k) * k < k" if "min c (x div k) < c"
  proof -
    have "min c (x div k) = x div k" using that by linarith
    then show ?thesis using d(3) by (simp add: minus_div_mult_eq_mod)
  qed
  show "x - min c (x div k) * k \<le> x - c * k \<or> x - min c (x div k) * k < k"
    using d(3) by (auto simp: min_def minus_div_mult_eq_mod)
qed

lemma days_before_year_parts:
  assumes "0 \<le> b" "b \<le> 3" "0 \<le> c" "c \<le> 24" "0 \<le> e" "e \<le> (3 :: int)"
  shows "days_before_year (400 * a + 100 * b + 4 * c + e + 1) = 146097 * a + 36524 * b + 1461 * c + 365 * e"
proof -
  let ?y = "400 * a + 100 * b + 4 * c + e"
  have "?y div 4 = 100 * a + 25 * b + c"
    by (rule int_div_pos_eq [where r = e]) (use assms in auto)
  moreover have "?y div 100 = 4 * a + b"
    by (rule int_div_pos_eq [where r = "4 * c + e"]) (use assms in auto)
  moreover have "?y div 400 = a"
    by (rule int_div_pos_eq [where r = "100 * b + 4 * c + e"]) (use assms in auto)
  ultimately show ?thesis by (simp add: days_before_year_def)
qed

lemma year_day_sound:
  assumes "year_day d = (y, yd)"
  shows "days_before_year y + yd = d \<and> 0 \<le> yd \<and> yd < 365 + (if leap y then 1 else 0)"
proof -
  define n400 r400 n100 r100 n4 r4 n1 r1 where defs: "n400 = d div 146097" "r400 = d mod 146097"
    "n100 = min 3 (r400 div 36524)" "r100 = r400 - n100 * 36524"
    "n4 = r100 div 1461" "r4 = r100 mod 1461" "n1 = min 3 (r4 div 365)" "r1 = r4 - n1 * 365"
  have "y = 400 * n400 + 100 * n100 + 4 * n4 + n1 + 1 \<and> yd = r1"
    using assms [symmetric, unfolded year_day_def Let_def prod.inject] unfolding defs .
  then have y: "y = 400 * n400 + 100 * n100 + 4 * n4 + n1 + 1" and yd: "yd = r1" by (rule conjunct1, rule conjunct2)
  have d: "d = 146097 * n400 + 36524 * n100 + 1461 * n4 + 365 * n1 + r1"
  proof -
    have "d = 146097 * n400 + r400" "r400 = 36524 * n100 + r100" "r100 = 1461 * n4 + r4" "r4 = 365 * n1 + r1"
      unfolding defs(1,2,4,5,6,8) by simp_all
    then show ?thesis by simp
  qed
  have r400: "0 \<le> r400" "r400 < 146097" unfolding defs(2) by simp_all
  have "r400 \<le> (3 + 1) * 36524" using r400(2) by simp
  note c100 = capped_div [OF r400(1) this zero_less_numeral zero_le_numeral, folded defs(3), folded defs(4)]
  have b100: "0 \<le> n100" "n100 \<le> 3" "0 \<le> r100" "r100 \<le> 36524" "n100 < 3 \<Longrightarrow> r100 < 36524"
  proof -
    show "r100 \<le> 36524" using c100(5) r400(2) by (elim disjE) simp_all
  qed (rule c100; assumption)+
  have r100: "r100 = n4 * 1461 + r4" unfolding defs(5,6) by simp
  have b4: "0 \<le> n4" "n4 \<le> 24" "0 \<le> r4" "r4 < 1461"
    unfolding defs(5,6) using b100(3,4) by (simp_all add: pos_imp_zdiv_nonneg_iff)
  have b4': "r4 < 1460" if "n100 < 3" "n4 = 24" using b100(5) [OF that(1)] r100 that(2) by linarith
  have "r4 \<le> (3 + 1) * 365" using b4(4) by simp
  note c1 = capped_div [OF b4(3) this zero_less_numeral zero_le_numeral, folded defs(7), folded defs(8)]
  have b1: "0 \<le> n1" "n1 \<le> 3" "0 \<le> r1" "r1 \<le> 365" "n1 < 3 \<Longrightarrow> r1 < 365"
  proof -
    show "r1 \<le> 365" using c1(5) b4(4) by (elim disjE) simp_all
  qed (rule c1; assumption)+
  have r4: "r4 = n1 * 365 + r1" unfolding defs(8) by simp
  have "leap y" if "r1 = 365"
  proof -
    have n1: "n1 = 3" using b1 that by linarith
    have "n100 = 3 \<or> n4 \<noteq> 24" using b100(2) b4' r4 n1 that by linarith
    moreover have "leap (400 * a + 100 * b + 4 * c + 4)"
      if "0 \<le> c" "c \<le> 24" "b = 3 \<or> c \<noteq> 24" for a b c :: int
    proof (cases "c = 24")
      case True
      then have "400 * a + 100 * b + 4 * c + 4 = 400 * (a + 1)" using that by simp
      moreover have "leap (400 * k)" for k
      proof -
        have "400 * k mod 4 = 0" "400 * k mod 400 = 0" by (simp_all add: mod_eq_0_iff_dvd dvd_mult2)
        then show ?thesis by (simp add: leap_def)
      qed
      ultimately show ?thesis by metis
    next
      case False
      have "(400 * a + 100 * b + 4 * c + 4) mod 100 = 4 * c + 4"
        by (rule int_mod_pos_eq [where q = "4 * a + b"]) (use that False in auto)
      moreover have "(400 * a + 100 * b + 4 * c + 4) mod 4 = 0"
        by (simp add: mod_eq_0_iff_dvd dvd_mult2)
      ultimately show ?thesis using that(1) by (simp add: leap_def)
    qed
    ultimately have "leap (400 * n400 + 100 * n100 + 4 * n4 + 4)" using b4(1,2) by blast
    then show ?thesis by (simp add: y n1 add.assoc)
  qed
  moreover have "days_before_year y = 146097 * n400 + 36524 * n100 + 1461 * n4 + 365 * n1"
    using days_before_year_parts [of n100 n4 n1 n400] b100(1,2) b4(1,2) b1(1,2) by (simp add: y)
  ultimately show ?thesis using b1(3,4) d by (cases "r1 = 365") (auto simp: yd)
qed

lemma duration_seconds_whole:
  assumes "\<bar>k\<bar> \<le> 2 ^ 53"
  shows "duration_seconds (k * second) = Fin (of_int k)"
proof -
  have "sgn (k * second) * (\<bar>k * second\<bar> div second) = k"
    by (simp add: abs_mult sgn_mult mult_sgn_abs)
  then show ?thesis
    using assms rnd_of_int [OF assms] by (simp add: duration_seconds_def f64_of_int_small)
qed

end
