(* ===== verification/EmbeddingWorker.thy ===== *)
theory EmbeddingWorker
  imports Http FloatText Config GoTime "HOL-Library.Sublist"
begin

text \<open>
  \<open>internal/service/embeddingworker/client.go\<close>: the client of the embedding worker with its
  cached health check and its retries.  The HTTP transport, the timers and the clock are
  parameters, functions of the outside world; a Go \<open>error\<close> is its text.
\<close>

section \<open>Data\<close>

record worker_config =
  wk_Address :: string
  wk_Timeout :: duration
  wk_RetryMax :: int
  wk_RetryBackoff :: duration
  wk_HealthTTL :: duration

text \<open>\<open>httpClient\<close> is its timeout; the health fields are the state under the mutex.\<close>

record worker_client =
  wc_baseURL :: string
  wc_timeout :: duration
  wc_retryMax :: int
  wc_retryBackoff :: duration
  wc_healthTTL :: duration
  wc_lastHealthAt :: time
  wc_lastHealthValue :: bool

text \<open>\<open>Input\<close> is any JSON value.\<close>

record worker_request =
  wq_Input :: json
  wq_Model :: string

record worker_usage =
  wu_PromptTokens :: int
  wu_CompletionTokens :: int
  wu_TotalTokens :: int

record data_entry =
  de_Object :: string
  de_Embedding :: "f64 list"
  de_Index :: int

record worker_response =
  wr_Object :: string
  wr_Data :: "data_entry list"
  wr_Model :: string
  wr_Usage :: worker_usage

record worker_error =
  we_StatusCode :: int
  we_Message :: string
  we_Err :: "string option"

definition WorkerError_Error :: "worker_error option \<Rightarrow> string" where
  "WorkerError_Error e =
     (case e of
        None \<Rightarrow> ''''
      | Some e \<Rightarrow>
          if we_Message e \<noteq> '''' then we_Message e
          else (case we_Err e of Some t \<Rightarrow> t | None \<Rightarrow> ''embedding worker error''))"

definition Retryable :: "worker_error option \<Rightarrow> bool" where
  "Retryable e =
     (case e of
        None \<Rightarrow> False
      | Some e \<Rightarrow>
          if we_Err e \<noteq> None then True else we_StatusCode e \<in> {429, 500, 502, 503, 504})"

definition NewClient :: "worker_config \<Rightarrow> worker_client" where
  "NewClient cfg =
     (let timeout = (if wk_Timeout cfg \<le> 0 then 5 * second else wk_Timeout cfg);
          retryMax = (if wk_RetryMax cfg \<le> 0 then 3 else wk_RetryMax cfg);
          retryBackoff = (if wk_RetryBackoff cfg \<le> 0 then 300 * millisecond else wk_RetryBackoff cfg);
          healthTTL = (if wk_HealthTTL cfg \<le> 0 then 10 * second else wk_HealthTTL cfg)
      in \<lparr>wc_baseURL = trim_right_char (CHR ''/'') (trim_space (wk_Address cfg)),
          wc_timeout = timeout, wc_retryMax = retryMax, wc_retryBackoff = retryBackoff,
          wc_healthTTL = healthTTL, wc_lastHealthAt = 0, wc_lastHealthValue = False\<rparr>)"

section \<open>Health\<close>

fun probe_paths :: "'w http_ops \<Rightarrow> string \<Rightarrow> string list \<Rightarrow> 'w \<Rightarrow> bool \<times> 'w" where
  "probe_paths http base [] w = (False, w)"
| "probe_paths http base (path # paths) w =
     (case ht_NewRequest http ''GET'' (base @ path) of
        Some _ \<Rightarrow> probe_paths http base paths w
      | None \<Rightarrow>
          (case ht_Do http \<lparr>hq_Method = ''GET'', hq_URL = base @ path, hq_Headers = [], hq_Body = ''''\<rparr> w of
             (Inl _, w) \<Rightarrow> probe_paths http base paths w
           | (Inr resp, w) \<Rightarrow>
               if hs_StatusCode resp < 500 then (True, w) else probe_paths http base paths w))"

definition probeHealth :: "'w http_ops \<Rightarrow> worker_client \<Rightarrow> 'w \<Rightarrow> bool \<times> 'w" where
  "probeHealth http c w = probe_paths http (wc_baseURL c) [''/health'', ''/healthz''] w"

text \<open>
  \<open>Healthy\<close> on a client pointer.  The lock is not held during the probe; a call is modelled
  as running alone.
\<close>

definition Healthy :: "'w http_ops \<Rightarrow> worker_client option \<Rightarrow> 'w \<Rightarrow> bool \<times> worker_client option \<times> 'w" where
  "Healthy http cp w =
     (case cp of
        None \<Rightarrow> (False, None, w)
      | Some c \<Rightarrow>
          if wc_baseURL c = '''' then (False, Some c, w)
          else
            (case ht_Now http w of
               (now, w) \<Rightarrow>
                 if \<not> is_zero_time (wc_lastHealthAt c) \<and> time_sub now (wc_lastHealthAt c) < wc_healthTTL c
                 then (wc_lastHealthValue c, Some c, w)
                 else
                   (case probeHealth http c w of
                      (healthy, w) \<Rightarrow>
                        (healthy, Some (c\<lparr>wc_lastHealthAt := now, wc_lastHealthValue := healthy\<rparr>), w))))"

section \<open>Generation\<close>

definition dec_worker_error :: "(string \<times> string) dec" where
  "dec_worker_error = dec_struct
     [(''error'', dec_into fst apfst (dec_struct [(''message'', dec_string)])),
      (''message'', dec_into snd apsnd dec_string)]"

definition parseWorkerErrorMessage :: "string \<Rightarrow> string" where
  "parseWorkerErrorMessage body =
     (if body = '''' then ''embedding worker returned empty error response''
      else
        let msg = trim_space body; plain = (if 512 < length msg then take 512 msg else msg)
        in case Option.bind (json_parse body) (\<lambda>j. dec_worker_error j ('''', '''')) of
             Some (inner, outer) \<Rightarrow>
               if inner \<noteq> '''' then inner else if outer \<noteq> '''' then outer else plain
           | None \<Rightarrow> plain)"

definition dec_data_entry :: "data_entry dec" where
  "dec_data_entry = dec_struct
     [(''object'', dec_into de_Object de_Object_update dec_string),
      (''embedding'', dec_into de_Embedding de_Embedding_update (dec_slice dec_float 0)),
      (''index'', dec_into de_Index de_Index_update dec_int)]"

definition dec_worker_usage :: "worker_usage dec" where
  "dec_worker_usage = dec_struct
     [(''prompt_tokens'', dec_into wu_PromptTokens wu_PromptTokens_update dec_int),
      (''completion_tokens'', dec_into wu_CompletionTokens wu_CompletionTokens_update dec_int),
      (''total_tokens'', dec_into wu_TotalTokens wu_TotalTokens_update dec_int)]"

definition worker_usage_zero :: worker_usage where
  "worker_usage_zero = \<lparr>wu_PromptTokens = 0, wu_CompletionTokens = 0, wu_TotalTokens = 0\<rparr>"

definition worker_response_zero :: worker_response where
  "worker_response_zero = \<lparr>wr_Object = '''', wr_Data = [], wr_Model = '''', wr_Usage = worker_usage_zero\<rparr>"

definition dec_worker_response :: "worker_response dec" where
  "dec_worker_response = dec_struct
     [(''object'', dec_into wr_Object wr_Object_update dec_string),
      (''data'', dec_into wr_Data wr_Data_update
         (dec_slice dec_data_entry \<lparr>de_Object = '''', de_Embedding = [], de_Index = 0\<rparr>)),
      (''model'', dec_into wr_Model wr_Model_update dec_string),
      (''usage'', dec_into wr_Usage wr_Usage_update dec_worker_usage)]"

definition worker_payload :: "worker_request \<Rightarrow> string" where
  "worker_payload req = render (JObj [(''input'', wq_Input req), (''model'', JStr (wq_Model req))])"

definition worker_failure :: "int \<Rightarrow> string \<Rightarrow> string option \<Rightarrow> worker_error" where
  "worker_failure code msg err = \<lparr>we_StatusCode = code, we_Message = msg, we_Err = err\<rparr>"

text \<open>
  One attempt.  \<open>json.Marshal\<close> of a decoded JSON value cannot fail; \<open>err\<close> is the text of the
  decoder's error for a body.
\<close>

definition generateOnce ::
  "'w http_ops \<Rightarrow> (string \<Rightarrow> string) \<Rightarrow> worker_client \<Rightarrow> worker_request \<Rightarrow> 'w
    \<Rightarrow> (worker_error + worker_response) \<times> 'w" where
  "generateOnce http err c req w =
     (let url = wc_baseURL c @ ''/embeddings''
      in case ht_NewRequest http ''POST'' url of
           Some e \<Rightarrow> (Inl (worker_failure 502 ''failed to build embedding worker request'' (Some e)), w)
         | None \<Rightarrow>
             (case ht_Do http \<lparr>hq_Method = ''POST'', hq_URL = url,
                     hq_Headers = [(''Content-Type'', ''application/json'')], hq_Body = worker_payload req\<rparr> w of
                (Inl e, w) \<Rightarrow> (Inl (worker_failure 503 ''failed to call embedding worker'' (Some e)), w)
              | (Inr resp, w) \<Rightarrow>
                  (case hs_Body resp of
                     Inl e \<Rightarrow> (Inl (worker_failure 502 ''failed to read embedding worker response'' (Some e)), w)
                   | Inr body \<Rightarrow>
                       if hs_StatusCode resp \<noteq> 200
                       then (Inl (worker_failure (hs_StatusCode resp) (parseWorkerErrorMessage body) None), w)
                       else
                         (case Option.bind (json_parse body) (\<lambda>j. dec_worker_response j worker_response_zero) of
                            None \<Rightarrow>
                              (Inl (worker_failure 502 ''failed to parse embedding worker response'' (Some (err body))), w)
                          | Some out \<Rightarrow> (Inr out, w)))))"

text \<open>
  The loop over the attempts, with the doubled wait between them: \<open>n\<close> of them are left, \<open>last\<close> is \<open>lastErr\<close>.  With no attempt
  at all the result is a nil response and a nil error, \<open>Inl None\<close>.
\<close>

definition next_backoff :: "duration \<Rightarrow> duration" where
  "next_backoff backoff =
     (let b = wrap64 (backoff * 2) in if b > 2 * second then 2 * second else b)"

fun generate_loop ::
  "'w http_ops \<Rightarrow> (string \<Rightarrow> string) \<Rightarrow> worker_client \<Rightarrow> worker_request \<Rightarrow> nat \<Rightarrow> duration
    \<Rightarrow> worker_error option \<Rightarrow> 'w \<Rightarrow> (worker_error option + worker_response) \<times> 'w" where
  "generate_loop http err c req 0 backoff lastErr w = (Inl lastErr, w)"
| "generate_loop http err c req (Suc n) backoff lastErr w =
     (case generateOnce http err c req w of
        (Inr resp, w) \<Rightarrow> (Inr resp, w)
      | (Inl e, w) \<Rightarrow>
          if \<not> Retryable (Some e) \<or> n = 0 then (Inl (Some e), w)
          else
            (case ht_Sleep http backoff w of
               (Some ce, w) \<Rightarrow>
                 (Inl (Some (worker_failure 503 ''embedding worker request cancelled'' (Some ce))), w)
             | (None, w) \<Rightarrow>
                 generate_loop http err c req n (next_backoff backoff) (Some e) w))"

definition Generate ::
  "'w http_ops \<Rightarrow> (string \<Rightarrow> string) \<Rightarrow> worker_client option \<Rightarrow> worker_request \<Rightarrow> 'w
    \<Rightarrow> (worker_error option + worker_response) \<times> 'w" where
  "Generate http err cp req w =
     (case cp of
        None \<Rightarrow> (Inl (Some (worker_failure 503 ''embedding worker is not configured'' None)), w)
      | Some c \<Rightarrow>
          if wc_baseURL c = '''' then (Inl (Some (worker_failure 503 ''embedding worker is not configured'' None)), w)
          else
            let req = (if trim_space (wq_Model req) = '''' then req\<lparr>wq_Model := ''text-embedding-ada-002''\<rparr> else req)
            in generate_loop http err c req (nat (wc_retryMax c)) (wc_retryBackoff c) None w)"

section \<open>What a call sends\<close>

text \<open>The full schedule of \<open>n\<close> attempts: one request each, and the waits between them.\<close>

fun retry_schedule :: "http_request \<Rightarrow> nat \<Rightarrow> duration \<Rightarrow> http_event list" where
  "retry_schedule rq 0 b = []"
| "retry_schedule rq (Suc 0) b = [EvDo rq]"
| "retry_schedule rq (Suc (Suc n)) b = EvDo rq # EvSleep b # retry_schedule rq (Suc n) (next_backoff b)"

definition post_request :: "worker_client \<Rightarrow> worker_request \<Rightarrow> http_request" where
  "post_request c req =
     \<lparr>hq_Method = ''POST'', hq_URL = wc_baseURL c @ ''/embeddings'',
      hq_Headers = [(''Content-Type'', ''application/json'')], hq_Body = worker_payload req\<rparr>"

lemma generateOnce_logged:
  assumes "ht_NewRequest http ''POST'' (wc_baseURL c @ ''/embeddings'') = None"
    and "generateOnce (logged http) err c req (w, l) = (r, w', l')"
  shows "l' = l @ [EvDo (post_request c req)]"
  using assms
  by (auto simp: generateOnce_def logged_def post_request_def Let_def split: prod.splits sum.splits if_splits option.splits)

lemma schedule_Suc:
  "\<exists>t. retry_schedule rq (Suc n) b = EvDo rq # t"
  by (cases n) simp_all

text \<open>
  The log of the loop is a prefix of the schedule; it ends early only after a success, an error
  that is not retryable, or a wait that was cancelled.
\<close>

lemma generate_loop_log:
  assumes "ht_NewRequest http ''POST'' (wc_baseURL c @ ''/embeddings'') = None"
    and "generate_loop (logged http) err c req (Suc n) b le (w, l) = (res, w', l')"
  shows "\<exists>log. l' = l @ log \<and> log \<noteq> [] \<and> prefix log (retry_schedule (post_request c req) (Suc n) b) \<and>
    (\<forall>e. res = Inl (Some e) \<longrightarrow> Retryable (Some e) \<longrightarrow>
       log = retry_schedule (post_request c req) (Suc n) b \<or> (\<exists>d. last log = EvSleep d)) \<and>
    res \<noteq> Inl None"
  using assms(2)
proof (induction n arbitrary: b le w l)
  case 0
  obtain r w1 l1 where once: "generateOnce (logged http) err c req (w, l) = (r, w1, l1)" by (metis prod_cases3)
  have "l1 = l @ [EvDo (post_request c req)]" by (rule generateOnce_logged [OF assms(1) once])
  then show ?case using 0 once by (cases r) auto
next
  case (Suc n)
  obtain r w1 l1 where once: "generateOnce (logged http) err c req (w, l) = (r, w1, l1)" by (metis prod_cases3)
  have l1: "l1 = l @ [EvDo (post_request c req)]" by (rule generateOnce_logged [OF assms(1) once])
  show ?case
  proof (cases "\<exists>e. r = Inl e \<and> Retryable (Some e)")
    case False
    then have "l' = l1" "res \<noteq> Inl None" "\<And>e. res = Inl (Some e) \<Longrightarrow> \<not> Retryable (Some e)"
      using Suc.prems once by (cases r; auto)+
    then show ?thesis using l1 by auto
  next
    case True
    then obtain e where e: "r = Inl e" "Retryable (Some e)" by blast
    obtain ce w2 l2 where sl: "ht_Sleep (logged http) b (w1, l1) = (ce, w2, l2)" by (metis prod_cases3)
    have l2: "l2 = l1 @ [EvSleep b]" using sl by (auto simp: logged_def split: prod.splits)
    show ?thesis
    proof (cases ce)
      case (Some t)
      then have "l' = l2" "res = Inl (Some (worker_failure 503 ''embedding worker request cancelled'' (Some t)))"
        using Suc.prems once e sl by simp_all
      then show ?thesis using l1 l2 by (intro exI [of _ "[EvDo (post_request c req), EvSleep b]"]) auto
    next
      case None
      then have "generate_loop (logged http) err c req (Suc n) (next_backoff b) (Some e) (w2, l2) = (res, w', l')"
        using Suc.prems once e sl by simp
      from Suc.IH [OF this] obtain log where log: "l' = l2 @ log" "log \<noteq> []"
        "prefix log (retry_schedule (post_request c req) (Suc n) (next_backoff b))"
        "(\<forall>e. res = Inl (Some e) \<longrightarrow> Retryable (Some e) \<longrightarrow>
          log = retry_schedule (post_request c req) (Suc n) (next_backoff b) \<or> (\<exists>d. last log = EvSleep d))"
        "res \<noteq> Inl None" by blast
      then show ?thesis
        using l1 l2 by (intro exI [of _ "EvDo (post_request c req) # EvSleep b # log"]) auto
    qed
  qed
qed

lemma schedule_sleeps:
  assumes "b \<le> 2 * second" and "0 < b" and "EvSleep d \<in> set (retry_schedule rq n b)"
  shows "0 < d \<and> d \<le> 2 * second"
  using assms
proof (induction rq n b rule: retry_schedule.induct)
  case (3 rq n b)
  have "int64_ok (b * 2)" using 3(2,3) by (simp add: int64_ok_def)
  then have "next_backoff b \<le> 2 * second" "0 < next_backoff b"
    using 3(3) by (simp_all add: next_backoff_def Let_def)
  then show ?case using 3 by auto
qed simp_all

lemma schedule_requests: "length (filter (\<lambda>e. \<exists>rq. e = EvDo rq) (retry_schedule rq n b)) = n"
  by (induction rq n b rule: retry_schedule.induct) auto


text \<open>A worker that is always overloaded.\<close>

definition ex_http :: "int \<Rightarrow> nat http_ops" where
  "ex_http code =
     \<lparr>ht_NewRequest = (\<lambda>m u. None),
      ht_Do = (\<lambda>rq w. (Inr \<lparr>hs_StatusCode = code, hs_Body = Inr ''{}''\<rparr>, w)),
      ht_Sleep = (\<lambda>d w. (None, w)), ht_Now = (\<lambda>w. (int w + 1, Suc w))\<rparr>"

definition ex_worker :: worker_client where
  "ex_worker = NewClient \<lparr>wk_Address = ''w/'', wk_Timeout = 0, wk_RetryMax = 0, wk_RetryBackoff = 0, wk_HealthTTL = 0\<rparr>"

lemma ex_worker_url: "wc_baseURL ex_worker = ''w''"
  by code_simp


section \<open>The cached health\<close>

text \<open>
  Health checks are cached: after a \<open>Healthy\<close> call that probed, a later call whose
  clock reading is less than the TTL after it returns the same answer, sends nothing and
  leaves the client as it was; a call after the TTL probes again and its answer is the
  probe's.
\<close>
lemma Healthy_cached:
  assumes "wc_baseURL c \<noteq> ''''" and "ht_Now http w = (now, w1)" and "probeHealth http c w1 = (h, w2)"
    and "is_zero_time (wc_lastHealthAt c) \<or> wc_healthTTL c \<le> time_sub now (wc_lastHealthAt c)" and "now \<noteq> 0"
    and "ht_Now http v = (later, v1)"
  shows "\<exists>c'. Healthy http (Some c) w = (h, Some c', w2) \<and>
    Healthy http (Some c') v =
      (if time_sub later now < wc_healthTTL c then (h, Some c', v1)
       else case probeHealth http c v1 of
         (h', v2) \<Rightarrow> (h', Some (c'\<lparr>wc_lastHealthAt := later, wc_lastHealthValue := h'\<rparr>), v2))"
proof -
  have "probeHealth http (c\<lparr>wc_lastHealthAt := now, wc_lastHealthValue := h\<rparr>) v1 = probeHealth http c v1"
    by (simp add: probeHealth_def)
  then show ?thesis
    using assms by (auto simp: Healthy_def is_zero_time_def split: prod.splits)
qed

end
