(* ===== verification/Redis.thy ===== *)
theory Redis
  imports Config "HOL-Library.AList"
begin

text \<open>
  \<open>internal/storage/redis.go\<close>: the wrapper of the Redis connection.  The client library
  (go-redis) and the server are outside the repository: the commands the code issues are the
  fields of a record, functions of the outside world.  \<open>hash_laws\<close> and \<open>string_laws\<close> are
  what the documentation of the commands promises; a command may also fail, and the laws say
  what is known then.  A value is given as the text the library sends.
\<close>

section \<open>The commands\<close>

text \<open>\<open>redis.Nil\<close> reports a missing key or field; any other error carries its text.\<close>

datatype redis_err = RedisNil | RedisErr string

fun redis_err_text :: "redis_err \<Rightarrow> string" where
  "redis_err_text RedisNil = ''redis: nil''"
| "redis_err_text (RedisErr t) = t"

record 'w redis_ops =
  rd_Ping :: "'w \<Rightarrow> redis_err option \<times> 'w"
  rd_Close :: "'w \<Rightarrow> redis_err option \<times> 'w"
  rd_Get :: "string \<Rightarrow> 'w \<Rightarrow> (redis_err + string) \<times> 'w"
  rd_Set :: "string \<Rightarrow> string \<Rightarrow> duration \<Rightarrow> 'w \<Rightarrow> redis_err option \<times> 'w"
  rd_Del :: "string list \<Rightarrow> 'w \<Rightarrow> redis_err option \<times> 'w"
  rd_Exists :: "string \<Rightarrow> 'w \<Rightarrow> (redis_err + int) \<times> 'w"
  rd_Keys :: "string \<Rightarrow> 'w \<Rightarrow> (redis_err + string list) \<times> 'w"
  rd_Expire :: "string \<Rightarrow> duration \<Rightarrow> 'w \<Rightarrow> redis_err option \<times> 'w"
  rd_HGet :: "string \<Rightarrow> string \<Rightarrow> 'w \<Rightarrow> (redis_err + string) \<times> 'w"
  rd_HSet :: "string \<Rightarrow> string \<Rightarrow> string \<Rightarrow> 'w \<Rightarrow> redis_err option \<times> 'w"
  rd_HGetAll :: "string \<Rightarrow> 'w \<Rightarrow> (redis_err + (string \<times> string) list) \<times> 'w"
  rd_HDel :: "string \<Rightarrow> string \<Rightarrow> 'w \<Rightarrow> redis_err option \<times> 'w"
  rd_HLen :: "string \<Rightarrow> 'w \<Rightarrow> (redis_err + int) \<times> 'w"
  rd_HKeys :: "string \<Rightarrow> 'w \<Rightarrow> (redis_err + string list) \<times> 'w"

section \<open>The wrapper\<close>

record redis_options =
  ro_Addr :: string
  ro_Password :: string
  ro_DB :: int

record 'w redis_client =
  rc_client :: "'w redis_ops"

text \<open>\<open>dial\<close> is \<open>redis.NewClient\<close>, which connects lazily and does not fail.\<close>

definition NewRedis ::
  "(redis_options \<Rightarrow> 'w redis_ops) \<Rightarrow> redis_config \<Rightarrow> 'w \<Rightarrow> (string + 'w redis_client) \<times> 'w" where
  "NewRedis dial cfg w =
     (let cl = dial \<lparr>ro_Addr = rdc_Address cfg, ro_Password = rdc_Password cfg, ro_DB = rdc_DB cfg\<rparr>
      in case rd_Ping cl w of
           (Some e, w) \<Rightarrow> (Inl (''failed to connect to Redis: '' @ redis_err_text e), w)
         | (None, w) \<Rightarrow> (Inr \<lparr>rc_client = cl\<rparr>, w))"

definition redis_Close :: "'w redis_client \<Rightarrow> 'w \<Rightarrow> redis_err option \<times> 'w" where
  "redis_Close r = rd_Close (rc_client r)"

definition redis_Client :: "'w redis_client \<Rightarrow> 'w redis_ops" where
  "redis_Client r = rc_client r"

definition redis_Get :: "'w redis_client \<Rightarrow> string \<Rightarrow> 'w \<Rightarrow> (redis_err + string) \<times> 'w" where
  "redis_Get r key = rd_Get (rc_client r) key"

text \<open>Both setters send expiration 0, which means none, whatever \<open>ttl\<close> is.\<close>

definition redis_Set :: "'w redis_client \<Rightarrow> string \<Rightarrow> string \<Rightarrow> int \<Rightarrow> 'w \<Rightarrow> redis_err option \<times> 'w" where
  "redis_Set r key value ttl = rd_Set (rc_client r) key value 0"

definition redis_SetWithTTL ::
  "'w redis_client \<Rightarrow> string \<Rightarrow> string \<Rightarrow> int \<Rightarrow> 'w \<Rightarrow> redis_err option \<times> 'w" where
  "redis_SetWithTTL r key value ttl = rd_Set (rc_client r) key value 0"

definition redis_HGet :: "'w redis_client \<Rightarrow> string \<Rightarrow> string \<Rightarrow> 'w \<Rightarrow> (redis_err + string) \<times> 'w" where
  "redis_HGet r key field = rd_HGet (rc_client r) key field"

definition redis_HSet ::
  "'w redis_client \<Rightarrow> string \<Rightarrow> string \<Rightarrow> string \<Rightarrow> 'w \<Rightarrow> redis_err option \<times> 'w" where
  "redis_HSet r key field value = rd_HSet (rc_client r) key field value"

definition redis_HGetAll ::
  "'w redis_client \<Rightarrow> string \<Rightarrow> 'w \<Rightarrow> (redis_err + (string \<times> string) list) \<times> 'w" where
  "redis_HGetAll r key = rd_HGetAll (rc_client r) key"

definition redis_Del :: "'w redis_client \<Rightarrow> string list \<Rightarrow> 'w \<Rightarrow> redis_err option \<times> 'w" where
  "redis_Del r keys = rd_Del (rc_client r) keys"

text \<open>The result and the error are returned together; after an error the count is 0.\<close>

definition redis_Exists :: "'w redis_client \<Rightarrow> string \<Rightarrow> 'w \<Rightarrow> (bool \<times> redis_err option) \<times> 'w" where
  "redis_Exists r key w =
     (case rd_Exists (rc_client r) key w of
        (Inl e, w) \<Rightarrow> ((False, Some e), w)
      | (Inr n, w) \<Rightarrow> ((n > 0, None), w))"

section \<open>What the commands promise\<close>

text \<open>
  \<open>H w k\<close> is the hash stored at key \<open>k\<close>.  Reads leave every hash alone and, when they
  succeed, report it; a write that succeeds has its effect on its own key only, and one that
  fails has it or has none.
\<close>

definition reads :: "('w \<Rightarrow> 's) \<Rightarrow> ('w \<Rightarrow> (redis_err + 'a) \<times> 'w) \<Rightarrow> ('w \<Rightarrow> 'a \<Rightarrow> bool) \<Rightarrow> bool" where
  "reads V cmd ok \<longleftrightarrow>
     (\<forall>w. V (snd (cmd w)) = V w \<and>
          (case fst (cmd w) of Inr a \<Rightarrow> ok w a | Inl e \<Rightarrow> e \<noteq> RedisNil))"

definition writes :: "('w \<Rightarrow> 's) \<Rightarrow> ('w \<Rightarrow> redis_err option \<times> 'w) \<Rightarrow> ('s \<Rightarrow> 's) \<Rightarrow> bool" where
  "writes V cmd f \<longleftrightarrow>
     (\<forall>w. (fst (cmd w) = None \<longrightarrow> V (snd (cmd w)) = f (V w)) \<and>
          (fst (cmd w) \<noteq> None \<longrightarrow> V (snd (cmd w)) \<in> {V w, f (V w)}))"

type_synonym hashes = "string \<Rightarrow> string \<rightharpoonup> string"

definition hash_laws :: "'w redis_ops \<Rightarrow> ('w \<Rightarrow> hashes) \<Rightarrow> bool" where
  "hash_laws ops H \<longleftrightarrow>
     (\<forall>w k. finite (dom (H w k))) \<and>
     (\<forall>k f w. H (snd (rd_HGet ops k f w)) = H w \<and>
        (case fst (rd_HGet ops k f w) of
           Inr v \<Rightarrow> H w k f = Some v
         | Inl e \<Rightarrow> e = RedisNil \<longrightarrow> H w k f = None)) \<and>
     (\<forall>k. reads H (rd_HGetAll ops k) (\<lambda>w kvs. distinct (map fst kvs) \<and> map_of kvs = H w k)) \<and>
     (\<forall>k. reads H (rd_HLen ops k) (\<lambda>w n. n = int (card (dom (H w k))))) \<and>
     (\<forall>k. reads H (rd_HKeys ops k) (\<lambda>w ks. distinct ks \<and> set ks = dom (H w k))) \<and>
     (\<forall>k f v. writes H (rd_HSet ops k f v) (\<lambda>h. h(k := (h k)(f \<mapsto> v)))) \<and>
     (\<forall>k f. writes H (rd_HDel ops k f) (\<lambda>h. h(k := (h k)(f := None)))) \<and>
     (\<forall>k d. d > 0 \<longrightarrow> writes H (rd_Expire ops k d) (\<lambda>h. h)) \<and>
     (\<forall>ks. writes H (rd_Del ops ks) (\<lambda>h k. if k \<in> set ks then Map.empty else h k))"

text \<open>
  The string values \<open>S w\<close>: \<open>KEYS p*\<close> lists the keys that begin with \<open>p\<close>, where \<open>p\<close> holds
  none of the pattern characters.
\<close>

definition plain_pattern :: "string \<Rightarrow> bool" where
  "plain_pattern p \<longleftrightarrow> list_all (\<lambda>c. c \<notin> set ''*?[]^'' \<and> c \<noteq> CHR 0x5C) p"

definition string_laws :: "'w redis_ops \<Rightarrow> ('w \<Rightarrow> string \<rightharpoonup> string) \<Rightarrow> bool" where
  "string_laws ops S \<longleftrightarrow>
     (\<forall>w. finite (dom (S w))) \<and>
     (\<forall>k w. S (snd (rd_Get ops k w)) = S w \<and>
        (case fst (rd_Get ops k w) of
           Inr v \<Rightarrow> S w k = Some v
         | Inl e \<Rightarrow> e = RedisNil \<longrightarrow> S w k = None)) \<and>
     (\<forall>p. plain_pattern p \<longrightarrow>
        reads S (rd_Keys ops (p @ ''*''))
          (\<lambda>w ks. distinct ks \<and> set ks = {k \<in> dom (S w). has_prefix k p})) \<and>
     (\<forall>k v d. d \<ge> 0 \<longrightarrow> writes S (rd_Set ops k v d) (\<lambda>s. s(k \<mapsto> v))) \<and>
     (\<forall>ks. writes S (rd_Del ops ks) (\<lambda>s k. if k \<in> set ks then None else s k))"

text \<open>The laws in the form the proofs use.\<close>

lemma reads_elim:
  assumes "reads V cmd ok" and "cmd w = (r, w')"
  shows "V w' = V w" "r = Inr a \<Longrightarrow> ok w a" "r = Inl e \<Longrightarrow> e \<noteq> RedisNil"
  using assms(1) [unfolded reads_def, rule_format, of w] assms(2) by simp_all

lemma writes_elim:
  assumes "writes V cmd f" and "cmd w = (r, w')"
  shows "r = None \<Longrightarrow> V w' = f (V w)" "V w' = V w \<or> V w' = f (V w)"
  using assms(1) [unfolded writes_def, rule_format, of w] assms(2) by (cases r; simp)+

lemma hash_laws_elim:
  assumes "hash_laws ops H"
  shows "finite (dom (H w k))"
    "reads H (rd_HGetAll ops k) (\<lambda>w kvs. distinct (map fst kvs) \<and> map_of kvs = H w k)"
    "reads H (rd_HLen ops k) (\<lambda>w n. n = int (card (dom (H w k))))"
    "reads H (rd_HKeys ops k) (\<lambda>w ks. distinct ks \<and> set ks = dom (H w k))"
    "writes H (rd_HSet ops k f v) (\<lambda>h. h(k := (h k)(f \<mapsto> v)))"
    "writes H (rd_HDel ops k f) (\<lambda>h. h(k := (h k)(f := None)))"
    "d > 0 \<Longrightarrow> writes H (rd_Expire ops k d) (\<lambda>h. h)"
    "writes H (rd_Del ops ks) (\<lambda>h k. if k \<in> set ks then Map.empty else h k)"
  using assms unfolding hash_laws_def by blast+

lemma hash_HGet:
  assumes "hash_laws ops H" and "rd_HGet ops k f w = (r, w')"
  shows "H w' = H w" "r = Inr v \<Longrightarrow> H w k f = Some v" "r = Inl RedisNil \<Longrightarrow> H w k f = None"
proof -
  have "H (snd (rd_HGet ops k f w)) = H w \<and>
      (case fst (rd_HGet ops k f w) of Inr v \<Rightarrow> H w k f = Some v
       | Inl e \<Rightarrow> e = RedisNil \<longrightarrow> H w k f = None)"
    using assms(1) unfolding hash_laws_def by blast
  then show "H w' = H w" "r = Inr v \<Longrightarrow> H w k f = Some v" "r = Inl RedisNil \<Longrightarrow> H w k f = None"
    using assms(2) by simp_all
qed

lemmas hash_HLen = reads_elim [OF hash_laws_elim(3)]
lemmas hash_HKeys = reads_elim [OF hash_laws_elim(4)]
lemmas hash_HGetAll = reads_elim [OF hash_laws_elim(2)]
lemmas hash_HSet = writes_elim [OF hash_laws_elim(5)]
lemmas hash_HDel = writes_elim [OF hash_laws_elim(6)]
lemmas hash_Expire = writes_elim [OF hash_laws_elim(7)]
lemmas hash_Del = writes_elim [OF hash_laws_elim(8)]

lemma string_laws_elim:
  assumes "string_laws ops S"
  shows "finite (dom (S w))"
    "plain_pattern p \<Longrightarrow> reads S (rd_Keys ops (p @ ''*''))
       (\<lambda>w ks. distinct ks \<and> set ks = {k \<in> dom (S w). has_prefix k p})"
    "0 \<le> d \<Longrightarrow> writes S (rd_Set ops k v d) (\<lambda>s. s(k \<mapsto> v))"
    "writes S (rd_Del ops ks) (\<lambda>s k. if k \<in> set ks then None else s k)"
  using assms unfolding string_laws_def by blast+

lemma string_Get:
  assumes "string_laws ops S" and "rd_Get ops k w = (r, w')"
  shows "S w' = S w" "r = Inr v \<Longrightarrow> S w k = Some v" "r = Inl RedisNil \<Longrightarrow> S w k = None"
proof -
  have "S (snd (rd_Get ops k w)) = S w \<and>
      (case fst (rd_Get ops k w) of Inr v \<Rightarrow> S w k = Some v
       | Inl e \<Rightarrow> e = RedisNil \<longrightarrow> S w k = None)"
    using assms(1) unfolding string_laws_def by blast
  then show "S w' = S w" "r = Inr v \<Longrightarrow> S w k = Some v" "r = Inl RedisNil \<Longrightarrow> S w k = None"
    using assms(2) by simp_all
qed

lemmas string_Keys = reads_elim [OF string_laws_elim(2)]
lemmas string_Set = writes_elim [OF string_laws_elim(3)]
lemmas string_Del = writes_elim [OF string_laws_elim(4)]

section \<open>A store in memory\<close>

text \<open>A server that never fails and whose keys do not expire, for the concrete inputs.\<close>

record mem =
  mem_strings :: "(string \<times> string) list"
  mem_hashes :: "(string \<times> (string \<times> string) list) list"

definition mem_hash :: "mem \<Rightarrow> string \<Rightarrow> (string \<times> string) list" where
  "mem_hash w k = (case map_of (mem_hashes w) k of Some h \<Rightarrow> h | None \<Rightarrow> [])"

definition put_hash :: "string \<Rightarrow> (string \<times> string) list \<Rightarrow> mem \<Rightarrow> mem" where
  "put_hash k h w = w\<lparr>mem_hashes := AList.update k h (mem_hashes w)\<rparr>"

definition mem_empty :: mem where
  "mem_empty = \<lparr>mem_strings = [], mem_hashes = []\<rparr>"

definition mem_redis :: "mem redis_ops" where
  "mem_redis =
     \<lparr>rd_Ping = (\<lambda>w. (None, w)), rd_Close = (\<lambda>w. (None, w)),
      rd_Get = (\<lambda>k w. (case map_of (mem_strings w) k of Some v \<Rightarrow> Inr v | None \<Rightarrow> Inl RedisNil, w)),
      rd_Set = (\<lambda>k v d w. (None, w\<lparr>mem_strings := AList.update k v (mem_strings w)\<rparr>)),
      rd_Del = (\<lambda>ks w. (None, w\<lparr>mem_strings := filter (\<lambda>(k, _). k \<notin> set ks) (mem_strings w),
         mem_hashes := filter (\<lambda>(k, _). k \<notin> set ks) (mem_hashes w)\<rparr>)),
      rd_Exists = (\<lambda>k w. (Inr (if k \<in> fst ` set (mem_strings w) \<or> mem_hash w k \<noteq> [] then 1 else 0), w)),
      rd_Keys = (\<lambda>p w. (Inr (remdups (filter (\<lambda>k. has_prefix k (butlast p)) (map fst (mem_strings w)))), w)),
      rd_Expire = (\<lambda>k d w. (None, w)),
      rd_HGet = (\<lambda>k f w. (case map_of (mem_hash w k) f of Some v \<Rightarrow> Inr v | None \<Rightarrow> Inl RedisNil, w)),
      rd_HSet = (\<lambda>k f v w. (None, put_hash k (AList.update f v (mem_hash w k)) w)),
      rd_HGetAll = (\<lambda>k w. (Inr (AList.clearjunk (mem_hash w k)), w)),
      rd_HDel = (\<lambda>k f w. (None, put_hash k (AList.delete f (mem_hash w k)) w)),
      rd_HLen = (\<lambda>k w. (Inr (int (length (remdups (map fst (mem_hash w k))))), w)),
      rd_HKeys = (\<lambda>k w. (Inr (remdups (map fst (mem_hash w k))), w))\<rparr>"

definition mem_H :: "mem \<Rightarrow> hashes" where
  "mem_H w k = map_of (mem_hash w k)"

definition mem_S :: "mem \<Rightarrow> string \<rightharpoonup> string" where
  "mem_S w = map_of (mem_strings w)"

lemma mem_H_put [simp]: "mem_H (put_hash k h w) = (mem_H w)(k := map_of h)"
  by (rule ext) (simp add: mem_H_def mem_hash_def put_hash_def update_conv')

lemma map_of_filter_fst: "map_of (filter (\<lambda>(k, _). P k) kvs) k = (if P k then map_of kvs k else None)"
  by (induction kvs) auto

lemma mem_hash_laws: "hash_laws mem_redis mem_H"
proof -
  have "mem_H (w\<lparr>mem_strings := s, mem_hashes := filter (\<lambda>(k, _). k \<notin> set ks) (mem_hashes w)\<rparr>) =
      (\<lambda>k. if k \<in> set ks then Map.empty else mem_H w k)" for w s ks
    by (rule ext) (simp add: mem_H_def mem_hash_def map_of_filter_fst)
  then show ?thesis
    unfolding hash_laws_def reads_def writes_def
    by (simp add: mem_redis_def finite_dom_map_of split: option.split)
      (simp add: mem_H_def update_conv' delete_conv' dom_map_of_conv_image_fst map_of_clearjunk
        distinct_clearjunk length_remdups_card_conv fun_upd_def)
qed

lemma mem_string_laws: "string_laws mem_redis mem_S"
proof -
  have "mem_S (w\<lparr>mem_strings := filter (\<lambda>(k, _). k \<notin> set ks) (mem_strings w), mem_hashes := h\<rparr>) =
      (\<lambda>k. if k \<in> set ks then None else mem_S w k)" for w h ks
    by (rule ext) (simp add: mem_S_def map_of_filter_fst)
  moreover have "mem_S (w\<lparr>mem_strings := AList.update k v (mem_strings w)\<rparr>) = (mem_S w)(k \<mapsto> v)" for w k v
    by (simp add: mem_S_def update_conv')
  ultimately show ?thesis
    unfolding string_laws_def reads_def writes_def
    by (simp add: mem_redis_def finite_dom_map_of butlast_append split: option.split)
      (auto simp: mem_S_def dom_map_of_conv_image_fst)
qed

end
