(* ===== verification/Sha256.thy ===== *)
theory Sha256
  imports Json "HOL-Library.Word"
begin

text \<open>
  Go's \<open>crypto/sha256.Sum256\<close> (FIPS 180-4) on byte strings, with \<open>hex.EncodeToString\<close>: the
  hash of API keys and of cache keys.
\<close>

unbundle bit_operations_syntax

type_synonym word32 = "32 word"

definition sha_k :: "word32 list" where
  "sha_k =
    [1116352408, 1899447441, 3049323471, 3921009573, 961987163, 1508970993, 2453635748,
     2870763221, 3624381080, 310598401, 607225278, 1426881987, 1925078388, 2162078206,
     2614888103, 3248222580, 3835390401, 4022224774, 264347078, 604807628, 770255983, 1249150122,
     1555081692, 1996064986, 2554220882, 2821834349, 2952996808, 3210313671, 3336571891,
     3584528711, 113926993, 338241895, 666307205, 773529912, 1294757372, 1396182291, 1695183700,
     1986661051, 2177026350, 2456956037, 2730485921, 2820302411, 3259730800, 3345764771,
     3516065817, 3600352804, 4094571909, 275423344, 430227734, 506948616, 659060556, 883997877,
     958139571, 1322822218, 1537002063, 1747873779, 1955562222, 2024104815, 2227730452,
     2361852424, 2428436474, 2756734187, 3204031479, 3329325298]"

definition sha_init :: "word32 list" where
  "sha_init =
    [1779033703, 3144134277, 1013904242, 2773480762, 1359893119, 2600822924, 528734635,
     1541459225]"

definition rotr :: "nat \<Rightarrow> word32 \<Rightarrow> word32" where
  "rotr n x = drop_bit n x OR push_bit (32 - n) x"

definition sigma0 :: "word32 \<Rightarrow> word32" where
  "sigma0 x = rotr 7 x XOR rotr 18 x XOR drop_bit 3 x"

definition sigma1 :: "word32 \<Rightarrow> word32" where
  "sigma1 x = rotr 17 x XOR rotr 19 x XOR drop_bit 10 x"

text \<open>The message schedule: 16 words of the block, then 48 more, each from four earlier ones.\<close>

fun schedule :: "nat \<Rightarrow> word32 list \<Rightarrow> word32 list" where
  "schedule 0 ws = ws"
| "schedule (Suc n) ws =
     (let l = length ws
      in schedule n (ws @ [sigma1 (ws ! (l - 2)) + ws ! (l - 7) + sigma0 (ws ! (l - 15)) + ws ! (l - 16)]))"

fun sha_round :: "word32 list \<Rightarrow> word32 \<times> word32 \<Rightarrow> word32 list" where
  "sha_round [a, b, c, d, e, f, g, h] (k, w) =
     (let t1 = h + (rotr 6 e XOR rotr 11 e XOR rotr 25 e) + ((e AND f) XOR (NOT e AND g)) + k + w;
          t2 = (rotr 2 a XOR rotr 13 a XOR rotr 22 a) + ((a AND b) XOR (a AND c) XOR (b AND c))
      in [t1 + t2, a, b, c, d + t1, e, f, g])"
| "sha_round st _ = st"

definition sha_block :: "word32 list \<Rightarrow> word32 list \<Rightarrow> word32 list" where
  "sha_block st ws = map2 (+) st (foldl sha_round st (zip sha_k (schedule 48 ws)))"

fun be_words :: "nat list \<Rightarrow> word32 list" where
  "be_words (a # b # c # d # r) = of_nat (16777216 * a + 65536 * b + 256 * c + d) # be_words r"
| "be_words _ = []"

definition be_bytes :: "nat \<Rightarrow> nat \<Rightarrow> nat list" where
  "be_bytes n x = map (\<lambda>i. x div 256 ^ (n - 1 - i) mod 256) [0..<n]"

text \<open>The padding: a byte 0x80, zeros up to 8 bytes before a multiple of 64, the length in bits.\<close>

definition sha_pad :: "nat list \<Rightarrow> nat list" where
  "sha_pad bs =
     (let l = length bs; z = (119 - l mod 64) mod 64
      in bs @ [128] @ replicate z 0 @ be_bytes 8 (8 * l mod 2 ^ 64))"

function blocks :: "'a list \<Rightarrow> 'a list list" where
  "blocks xs = (if length xs < 16 then [] else take 16 xs # blocks (drop 16 xs))"
  by pat_completeness auto

termination
  by (relation "measure length") auto

declare blocks.simps [simp del]

definition sha256 :: "string \<Rightarrow> nat list" where
  "sha256 s = concat (map (\<lambda>w. be_bytes 4 (unat w))
     (foldl sha_block sha_init (blocks (be_words (sha_pad (map byte s))))))"

definition hex_encode :: "nat list \<Rightarrow> string" where
  "hex_encode bs = concat (map (\<lambda>b. [hex_digit (b div 16), hex_digit (b mod 16)]) bs)"

definition sha256_hex :: "string \<Rightarrow> string" where
  "sha256_hex s = hex_encode (sha256 s)"

section \<open>Shape of a digest\<close>

lemma sha_round_length [simp]: "length (sha_round st kw) = length st"
  by (induction st kw rule: sha_round.induct) (simp_all add: Let_def)

lemma sha_rounds_length [simp]: "length (foldl sha_round st kws) = length st"
  by (induction kws arbitrary: st) simp_all

lemma sha_blocks_length: "length (foldl sha_block st bs) = length st"
  by (induction bs arbitrary: st) (simp_all add: sha_block_def)

lemma be_bytes_simps [simp]: "length (be_bytes n x) = n" "b \<in> set (be_bytes n x) \<Longrightarrow> b < 256"
  by (auto simp: be_bytes_def)

lemma sha256_length: "length (sha256 s) = 32"
proof -
  have "length (concat (map (\<lambda>w. be_bytes 4 (unat w)) ws)) = 4 * length ws" for ws :: "word32 list"
    by (induction ws) simp_all
  then show ?thesis
    using sha_blocks_length [of sha_init] by (simp add: sha256_def sha_init_def)
qed

lemma sha256_hex_length: "length (sha256_hex s) = 64"
proof -
  have "length (hex_encode bs) = 2 * length bs" for bs
    by (induction bs) (simp_all add: hex_encode_def)
  then show ?thesis by (simp add: sha256_hex_def sha256_length)
qed

text \<open>Every character of a digest is a digit or a letter from \<open>a\<close> to \<open>f\<close>.\<close>

definition hex_char :: "char \<Rightarrow> bool" where
  "hex_char c \<longleftrightarrow> 48 \<le> byte c \<and> byte c < 58 \<or> 97 \<le> byte c \<and> byte c < 103"

lemma hex_digit_hex_char: "n < 16 \<Longrightarrow> hex_char (hex_digit n)"
  by (auto simp: hex_char_def hex_digit_def of_char_of)

lemma sha256_hex_chars: "c \<in> set (sha256_hex s) \<Longrightarrow> hex_char c"
proof -
  have byte: "b div 16 < 16 \<and> b mod 16 < 16" if "b \<in> set (sha256 s)" for b
  proof -
    have "b < 256" using that by (auto simp: sha256_def)
    then show ?thesis by (simp add: less_mult_imp_div_less)
  qed
  then show "c \<in> set (sha256_hex s) \<Longrightarrow> hex_char c"
    by (auto simp: sha256_hex_def hex_encode_def dest!: byte intro!: hex_digit_hex_char)
qed

end
