(* ===== verification/L1Cache.thy ===== *)
theory L1Cache
  imports Redis Sha256 GoTime FloatText "HOL-Library.Char_ord" "HOL-Library.List_Lexorder"
begin

text \<open>
  \<open>internal/service/cache/l1.go\<close>: the exact-match cache in one Redis hash, its key (the
  SHA-256 hash of the request's JSON), its eviction, and the cached response with its encoding.
  A nil client is None.
\<close>

section \<open>The cached data\<close>

record cache_message =
  cm_Role :: string
  cm_Content :: string
  cm_Name :: string

record cache_choice =
  cx_Index :: int
  cx_Message :: cache_message
  cx_FinishReason :: string

record cache_usage =
  cu_PromptTokens :: int
  cu_CompletionTokens :: int
  cu_TotalTokens :: int

record cache_response =
  cs_ID :: string
  cs_Object :: string
  cs_Created :: int
  cs_Model :: string
  cs_Choices :: "cache_choice list"
  cs_Usage :: cache_usage

definition message_json :: "cache_message \<Rightarrow> json" where
  "message_json m = JObj
     ([(''role'', JStr (cm_Role m)), (''content'', JStr (cm_Content m))] @ opt_str ''name'' (cm_Name m))"

definition choice_json :: "cache_choice \<Rightarrow> json" where
  "choice_json c = JObj
     [(''index'', JInt (cx_Index c)), (''message'', message_json (cx_Message c)),
      (''finish_reason'', JStr (cx_FinishReason c))]"

definition usage_json :: "cache_usage \<Rightarrow> json" where
  "usage_json u = JObj
     [(''prompt_tokens'', JInt (cu_PromptTokens u)), (''completion_tokens'', JInt (cu_CompletionTokens u)),
      (''total_tokens'', JInt (cu_TotalTokens u))]"

definition response_json :: "cache_response \<Rightarrow> json" where
  "response_json r = JObj
     [(''id'', JStr (cs_ID r)), (''object'', JStr (cs_Object r)), (''created'', JInt (cs_Created r)),
      (''model'', JStr (cs_Model r)), (''choices'', JArr (map choice_json (cs_Choices r))),
      (''usage'', usage_json (cs_Usage r))]"

text \<open>\<open>Marshal\<close> cannot fail: the response holds strings, integers and a non-nil slice.\<close>

definition Marshal :: "cache_response \<Rightarrow> string" where
  "Marshal r = render (response_json r)"

definition message_zero :: cache_message where
  "message_zero = \<lparr>cm_Role = '''', cm_Content = '''', cm_Name = ''''\<rparr>"

definition choice_zero :: cache_choice where
  "choice_zero = \<lparr>cx_Index = 0, cx_Message = message_zero, cx_FinishReason = ''''\<rparr>"

definition usage_zero :: cache_usage where
  "usage_zero = \<lparr>cu_PromptTokens = 0, cu_CompletionTokens = 0, cu_TotalTokens = 0\<rparr>"

definition response_zero :: cache_response where
  "response_zero = \<lparr>cs_ID = '''', cs_Object = '''', cs_Created = 0, cs_Model = '''', cs_Choices = [],
     cs_Usage = usage_zero\<rparr>"

definition dec_message :: "cache_message dec" where
  "dec_message = dec_struct
     [(''role'', dec_into cm_Role cm_Role_update dec_string),
      (''content'', dec_into cm_Content cm_Content_update dec_string),
      (''name'', dec_into cm_Name cm_Name_update dec_string)]"

definition dec_choice :: "cache_choice dec" where
  "dec_choice = dec_struct
     [(''index'', dec_into cx_Index cx_Index_update dec_int),
      (''message'', dec_into cx_Message cx_Message_update dec_message),
      (''finish_reason'', dec_into cx_FinishReason cx_FinishReason_update dec_string)]"

definition dec_usage :: "cache_usage dec" where
  "dec_usage = dec_struct
     [(''prompt_tokens'', dec_into cu_PromptTokens cu_PromptTokens_update dec_int),
      (''completion_tokens'', dec_into cu_CompletionTokens cu_CompletionTokens_update dec_int),
      (''total_tokens'', dec_into cu_TotalTokens cu_TotalTokens_update dec_int)]"

definition dec_response :: "cache_response dec" where
  "dec_response = dec_struct
     [(''id'', dec_into cs_ID cs_ID_update dec_string),
      (''object'', dec_into cs_Object cs_Object_update dec_string),
      (''created'', dec_into cs_Created cs_Created_update dec_int),
      (''model'', dec_into cs_Model cs_Model_update dec_string),
      (''choices'', dec_into cs_Choices cs_Choices_update (dec_slice dec_choice choice_zero)),
      (''usage'', dec_into cs_Usage cs_Usage_update dec_usage)]"

text \<open>None is the error of \<open>UnmarshalChatResponse\<close>.\<close>

definition UnmarshalChatResponse :: "string \<Rightarrow> cache_response option" where
  "UnmarshalChatResponse data = Option.bind (json_parse data) (\<lambda>j. dec_response j response_zero)"

section \<open>The key\<close>

text \<open>The values the callers put into the parameter map; None is a nil slice.\<close>

datatype go_any = AFloat f64 | AInt int | AStrings "string list option"

fun any_json :: "go_any \<Rightarrow> json option" where
  "any_json (AFloat x) = map_option JNum (float_literal x)"
| "any_json (AInt i) = Some (JInt i)"
| "any_json (AStrings None) = Some JNull"
| "any_json (AStrings (Some ss)) = Some (JArr (map JStr ss))"

text \<open>A map is encoded with its keys in byte order.\<close>

definition map_json :: "(string \<times> go_any) list \<Rightarrow> json option" where
  "map_json m = map_option JObj (map_opt (\<lambda>(k, v). map_option (Pair k) (any_json v)) (sort_key fst m))"

definition key_payload :: "string \<Rightarrow> cache_message list \<Rightarrow> (string \<times> go_any) list \<Rightarrow> string option" where
  "key_payload model messages params =
     map_option (\<lambda>ps. render (JObj
        [(''model'', JStr model), (''messages'', JArr (map message_json messages)), (''params'', ps)]))
       (map_json params)"

definition GenerateCacheKey :: "string \<Rightarrow> cache_message list \<Rightarrow> (string \<times> go_any) list \<Rightarrow> string" where
  "GenerateCacheKey model messages params =
     sha256_hex (case key_payload model messages params of None \<Rightarrow> model | Some data \<Rightarrow> data)"

section \<open>The cache\<close>

record l1_config =
  l1c_Enabled :: bool
  l1c_TTL :: int
  l1c_MaxSize :: int
  l1c_KeyPrefix :: string

record 'w l1_cache =
  l1_client :: "'w redis_ops option"
  l1_ttl :: duration
  l1_maxSize :: int
  l1_keyPrefix :: string

definition NewL1Cache :: "'w redis_ops option \<Rightarrow> l1_config \<Rightarrow> 'w l1_cache" where
  "NewL1Cache client cfg =
     \<lparr>l1_client = client, l1_ttl = wrap64 (l1c_TTL cfg * second), l1_maxSize = l1c_MaxSize cfg,
      l1_keyPrefix = l1c_KeyPrefix cfg\<rparr>"

text \<open>\<open>redis.Nil\<close> is a miss.\<close>

definition l1_Get :: "'w l1_cache \<Rightarrow> string \<Rightarrow> 'w \<Rightarrow> (redis_err + string option) \<times> 'w" where
  "l1_Get c key w =
     (case l1_client c of
        None \<Rightarrow> (Inr None, w)
      | Some ops \<Rightarrow>
          (case rd_HGet ops (l1_keyPrefix c) key w of
             (Inl RedisNil, w) \<Rightarrow> (Inr None, w)
           | (Inl e, w) \<Rightarrow> (Inl e, w)
           | (Inr v, w) \<Rightarrow> (Inr (Some v), w)))"

text \<open>The deletions of the eviction, their errors ignored.\<close>

fun del_fields :: "'w redis_ops \<Rightarrow> string \<Rightarrow> string list \<Rightarrow> 'w \<Rightarrow> 'w" where
  "del_fields ops key [] w = w"
| "del_fields ops key (f # fs) w = del_fields ops key fs (snd (rd_HDel ops key f w))"

text \<open>A tenth of the fields, at least one: the first ones in the order \<open>HKEYS\<close> lists them.\<close>

definition delete_count :: "nat \<Rightarrow> nat" where
  "delete_count n = (if n div 10 < 1 then 1 else n div 10)"

definition l1_evictIfNeeded :: "'w l1_cache \<Rightarrow> 'w redis_ops \<Rightarrow> 'w \<Rightarrow> redis_err option \<times> 'w" where
  "l1_evictIfNeeded c ops w =
     (if l1_maxSize c \<le> 0 then (None, w)
      else
        (case rd_HLen ops (l1_keyPrefix c) w of
           (Inl e, w) \<Rightarrow> (Some e, w)
         | (Inr n, w) \<Rightarrow>
             if n \<ge> l1_maxSize c then
               (case rd_HKeys ops (l1_keyPrefix c) w of
                  (Inl e, w) \<Rightarrow> (Some e, w)
                | (Inr keys, w) \<Rightarrow>
                    (None, del_fields ops (l1_keyPrefix c) (take (delete_count (length keys)) keys) w))
             else (None, w)))"

definition l1_Set :: "'w l1_cache \<Rightarrow> string \<Rightarrow> string \<Rightarrow> 'w \<Rightarrow> redis_err option \<times> 'w" where
  "l1_Set c key value w =
     (case l1_client c of
        None \<Rightarrow> (None, w)
      | Some ops \<Rightarrow>
          let w = snd (l1_evictIfNeeded c ops w)
          in case rd_HSet ops (l1_keyPrefix c) key value w of
               (Some e, w) \<Rightarrow> (Some e, w)
             | (None, w) \<Rightarrow>
                 if l1_ttl c > 0 then rd_Expire ops (l1_keyPrefix c) (l1_ttl c) w else (None, w))"

definition l1_Delete :: "'w l1_cache \<Rightarrow> string \<Rightarrow> 'w \<Rightarrow> redis_err option \<times> 'w" where
  "l1_Delete c key w =
     (case l1_client c of None \<Rightarrow> (None, w) | Some ops \<Rightarrow> rd_HDel ops (l1_keyPrefix c) key w)"

definition l1_Clear :: "'w l1_cache \<Rightarrow> 'w \<Rightarrow> redis_err option \<times> 'w" where
  "l1_Clear c w =
     (case l1_client c of None \<Rightarrow> (None, w) | Some ops \<Rightarrow> rd_Del ops [l1_keyPrefix c] w)"

text \<open>The map of the statistics; without a client it has two entries only.\<close>

record l1_stats =
  l1s_keys :: int
  l1s_enabled :: bool
  l1s_limits :: "(int \<times> f64) option"

definition l1_Stats :: "'w l1_cache \<Rightarrow> 'w \<Rightarrow> (redis_err + l1_stats) \<times> 'w" where
  "l1_Stats c w =
     (case l1_client c of
        None \<Rightarrow> (Inr \<lparr>l1s_keys = 0, l1s_enabled = False, l1s_limits = None\<rparr>, w)
      | Some ops \<Rightarrow>
          (case rd_HLen ops (l1_keyPrefix c) w of
             (Inl e, w) \<Rightarrow> (Inl e, w)
           | (Inr n, w) \<Rightarrow>
               (Inr \<lparr>l1s_keys = n, l1s_enabled = True,
                  l1s_limits = Some (l1_maxSize c, duration_seconds (l1_ttl c))\<rparr>, w)))"

section \<open>Encoding and decoding\<close>

definition valid_message :: "cache_message \<Rightarrow> bool" where
  "valid_message m \<longleftrightarrow> valid_utf8 (cm_Role m) \<and> valid_utf8 (cm_Content m) \<and> valid_utf8 (cm_Name m)"

definition valid_choice :: "cache_choice \<Rightarrow> bool" where
  "valid_choice c \<longleftrightarrow> int64_ok (cx_Index c) \<and> valid_message (cx_Message c) \<and> valid_utf8 (cx_FinishReason c)"

definition valid_usage :: "cache_usage \<Rightarrow> bool" where
  "valid_usage u \<longleftrightarrow>
     int64_ok (cu_PromptTokens u) \<and> int64_ok (cu_CompletionTokens u) \<and> int64_ok (cu_TotalTokens u)"

text \<open>What a Go value of the type is, once its strings are UTF-8.\<close>

definition valid_response :: "cache_response \<Rightarrow> bool" where
  "valid_response r \<longleftrightarrow>
     valid_utf8 (cs_ID r) \<and> valid_utf8 (cs_Object r) \<and> int64_ok (cs_Created r) \<and> valid_utf8 (cs_Model r) \<and>
     list_all valid_choice (cs_Choices r) \<and> valid_usage (cs_Usage r)"

lemma JInt_ok [simp]: "json_ok (JInt i)" "json_depth (JInt i) = 0"
  by (simp_all add: JInt_def)

lemma message_json_ok [simp]: "valid_message m \<Longrightarrow> json_ok (message_json m)" "json_depth (message_json m) = 1"
  by (auto simp: message_json_def valid_message_def opt_str_def)

lemma choice_json_ok: "valid_choice c \<Longrightarrow> json_ok (choice_json c)" "json_depth (choice_json c) = 2"
  by (auto simp: choice_json_def valid_choice_def)

lemma usage_json_ok: "json_ok (usage_json u)" "json_depth (usage_json u) = 1"
  by (auto simp: usage_json_def)

lemma response_json_ok:
  assumes "valid_response r"
  shows "json_ok (response_json r)" "json_depth (response_json r) \<le> max_depth"
proof -
  have "list_all json_ok (map choice_json (cs_Choices r))"
    using assms choice_json_ok by (auto simp: valid_response_def list_all_iff)
  then show "json_ok (response_json r)"
    using assms usage_json_ok by (auto simp: response_json_def valid_response_def)
  have "json_depth (JArr (map choice_json (cs_Choices r))) \<le> 3"
    using depth_JArr_le [of 2 "map choice_json (cs_Choices r)"] choice_json_ok(2)
    by (simp add: list_all_iff del: json_depth.simps)
  then have "json_depth (response_json r) \<le> Suc 3"
    unfolding response_json_def by (intro depth_JObj_le) (simp add: usage_json_ok del: json_depth.simps(1))
  then show "json_depth (response_json r) \<le> max_depth" by simp
qed

lemmas decode_simps = dec_struct_def find_field_def dec_into_def dec_string_def

lemma dec_message_json: "dec_message (message_json m) message_zero = Some m"
  by (cases m) (auto simp: dec_message_def message_json_def opt_str_def message_zero_def decode_simps)

lemma dec_choice_json: "valid_choice c \<Longrightarrow> dec_choice (choice_json c) choice_zero = Some c"
  by (cases c) (auto simp: dec_choice_def choice_json_def choice_zero_def valid_choice_def decode_simps
      dec_message_json)

lemma dec_usage_json: "valid_usage u \<Longrightarrow> dec_usage (usage_json u) usage_zero = Some u"
  by (cases u) (auto simp: dec_usage_def usage_json_def usage_zero_def valid_usage_def decode_simps)

lemma map_opt_all: "(\<And>x. x \<in> set xs \<Longrightarrow> f (g x) = Some x) \<Longrightarrow> map_opt f (map g xs) = Some xs"
  by (induction xs) auto

lemma dec_response_json:
  assumes "valid_response r"
  shows "dec_response (response_json r) response_zero = Some r"
proof -
  have "map_opt (\<lambda>x. dec_choice x choice_zero) (map choice_json (cs_Choices r)) = Some (cs_Choices r)"
    using assms dec_choice_json by (intro map_opt_all) (auto simp: valid_response_def list_all_iff)
  then show ?thesis
    using assms
    by (cases r) (auto simp: dec_response_def response_json_def response_zero_def valid_response_def
        decode_simps dec_usage_json dec_slice_def)
qed

text \<open>
  Claim C34. Round trip: \<open>UnmarshalChatResponse\<close> reads from what \<open>Marshal\<close> wrote exactly the
  response that was written, for every response whose strings are UTF-8 (whatever characters
  they hold) and whose integers are 64-bit.
\<close>
theorem Unmarshal_Marshal:
  assumes "valid_response r"
  shows "UnmarshalChatResponse (Marshal r) = Some r"
  using json_roundtrip [OF response_json_ok [OF assms]] dec_response_json [OF assms]
  by (simp add: UnmarshalChatResponse_def Marshal_def)

definition ex_response :: cache_response where
  "ex_response = \<lparr>cs_ID = ''c1'', cs_Object = ''chat.completion'', cs_Created = 7, cs_Model = ''gpt-4'',
     cs_Choices = [\<lparr>cx_Index = 0, cx_Message = \<lparr>cm_Role = ''assistant'', cm_Content = ''a < b'', cm_Name = ''''\<rparr>,
       cx_FinishReason = ''stop''\<rparr>], cs_Usage = \<lparr>cu_PromptTokens = 3, cu_CompletionTokens = 4, cu_TotalTokens = 7\<rparr>\<rparr>"

theorem Unmarshal_Marshal_witness:
  "valid_response ex_response \<and> UnmarshalChatResponse (Marshal ex_response) = Some ex_response"
proof -
  have "valid_response ex_response"
    by (auto simp: ex_response_def valid_response_def valid_choice_def valid_usage_def valid_message_def
        int64_ok_def)
  then show ?thesis using Unmarshal_Marshal by blast
qed

section \<open>The store behind the cache\<close>

lemma map_le_upd_None: "m(k := None) \<subseteq>\<^sub>m m"
  by (auto simp: map_le_def)

lemma del_fields_view:
  assumes "hash_laws ops H"
  shows "H (del_fields ops p fs w) p \<subseteq>\<^sub>m H w p \<and> (\<forall>k. k \<noteq> p \<longrightarrow> H (del_fields ops p fs w) k = H w k)"
proof (induction fs arbitrary: w)
  case (Cons f fs)
  obtain e w1 where d: "rd_HDel ops p f w = (e, w1)" by fastforce
  have "H w1 p \<subseteq>\<^sub>m H w p \<and> (\<forall>k. k \<noteq> p \<longrightarrow> H w1 k = H w k)"
    using hash_HDel(2) [OF assms d] map_le_upd_None [of "H w p" f] by auto
  then show ?case using Cons.IH [of w1] d by (auto intro: map_le_trans)
qed simp

lemma evict_view:
  assumes "hash_laws ops H" and "l1_evictIfNeeded c ops w = (e, w')"
  shows "H w' (l1_keyPrefix c) \<subseteq>\<^sub>m H w (l1_keyPrefix c) \<and> (\<forall>k. k \<noteq> l1_keyPrefix c \<longrightarrow> H w' k = H w k)"
proof -
  let ?p = "l1_keyPrefix c"
  consider "H w' = H w" | w1 fs where "H w1 = H w" "w' = del_fields ops ?p fs w1"
    using assms(2)
    by (auto simp: l1_evictIfNeeded_def split: if_splits prod.splits sum.splits
        dest!: hash_HLen(1) [OF assms(1)] hash_HKeys(1) [OF assms(1)])
  then show ?thesis
  proof cases
    case 2
    then show ?thesis using del_fields_view [OF assms(1), of ?p fs w1] by simp
  qed simp
qed

lemma set_view:
  assumes "hash_laws ops H" and "l1_client c = Some ops" and "l1_Set c key v w = (e, w')"
  shows "k \<noteq> l1_keyPrefix c \<Longrightarrow> H w' k = H w k"
    "f \<noteq> key \<Longrightarrow> H w' (l1_keyPrefix c) f = Some u \<Longrightarrow> H w (l1_keyPrefix c) f = Some u"
    "e = None \<Longrightarrow> H w' (l1_keyPrefix c) key = Some v"
proof -
  let ?p = "l1_keyPrefix c"
  obtain e1 w1 where ev: "l1_evictIfNeeded c ops w = (e1, w1)" by fastforce
  obtain e2 w2 where st: "rd_HSet ops ?p key v w1 = (e2, w2)" by fastforce
  have w2: "H w2 = H w1 \<or> H w2 = (H w1)(?p := (H w1 ?p)(key \<mapsto> v))"
    using hash_HSet(2) [OF assms(1) st] .
  have w': "H w' = H w2"
    using assms(2,3) ev st hash_Expire(2) [OF assms(1)]
    by (auto simp: l1_Set_def split: option.splits if_splits)
  have e: "e = None \<Longrightarrow> e2 = None"
    using assms(2,3) ev st by (auto simp: l1_Set_def split: option.splits if_splits)
  note w1 = evict_view [OF assms(1) ev]
  show "k \<noteq> ?p \<Longrightarrow> H w' k = H w k" using w1 w2 w' by auto
  show "e = None \<Longrightarrow> H w' ?p key = Some v"
    using e hash_HSet(1) [OF assms(1) st] w' by simp
  have "H w1 ?p f = Some u \<Longrightarrow> H w ?p f = Some u"
    using w1 by (auto simp: map_le_def dest: bspec [of _ _ f])
  then show "f \<noteq> key \<Longrightarrow> H w' ?p f = Some u \<Longrightarrow> H w ?p f = Some u"
    using w2 w' by auto
qed

text \<open>
  Claim C33. A value stored is a value found: after a \<open>Set\<close> that reports no error, the field
  holds the value, so \<open>Get\<close> returns it unless its own read fails (it never reports a miss);
  every other field is as before or was evicted, and other Redis keys are untouched.
\<close>
theorem l1_Set_Get:
  assumes "hash_laws ops H" and "l1_client c = Some ops" and "l1_Set c key v w = (None, w')"
  shows "(fst (l1_Get c key w') = Inr (Some v) \<or> (\<exists>t. fst (l1_Get c key w') = Inl (RedisErr t))) \<and>
    (\<forall>f u. f \<noteq> key \<longrightarrow> H w' (l1_keyPrefix c) f = Some u \<longrightarrow> H w (l1_keyPrefix c) f = Some u) \<and>
    (\<forall>k. k \<noteq> l1_keyPrefix c \<longrightarrow> H w' k = H w k)"
proof -
  note view = set_view [OF assms]
  obtain r w2 where get: "rd_HGet ops (l1_keyPrefix c) key w' = (r, w2)" by fastforce
  have "r \<noteq> Inl RedisNil" using hash_HGet(3) [OF assms(1) get] view(3) by auto
  moreover have "r = Inr u \<Longrightarrow> u = v" for u using hash_HGet(2) [OF assms(1) get] view(3) by simp
  ultimately have "fst (l1_Get c key w') = Inr (Some v) \<or> (\<exists>t. fst (l1_Get c key w') = Inl (RedisErr t))"
    using assms(2) get by (auto simp: l1_Get_def split: sum.split redis_err.split)
  then show ?thesis using view(1,2) by blast
qed

definition ex_l1 :: "mem l1_cache" where
  "ex_l1 = NewL1Cache (Some mem_redis) \<lparr>l1c_Enabled = True, l1c_TTL = 60, l1c_MaxSize = 2, l1c_KeyPrefix = ''p''\<rparr>"

lemma ex_l1_sel: "l1_client ex_l1 = Some mem_redis" "l1_maxSize ex_l1 = 2"
  by (simp_all add: ex_l1_def NewL1Cache_def)

theorem l1_Set_Get_witness:
  "\<exists>w'. l1_Set ex_l1 ''k'' ''v'' mem_empty = (None, w') \<and>
     (fst (l1_Get ex_l1 ''k'' w') = Inr (Some ''v'') \<or> (\<exists>t. fst (l1_Get ex_l1 ''k'' w') = Inl (RedisErr t)))"
proof -
  have "fst (l1_Set ex_l1 ''k'' ''v'' mem_empty) = None"
    by code_simp
  then obtain w' where "l1_Set ex_l1 ''k'' ''v'' mem_empty = (None, w')" by (metis prod.collapse)
  then show ?thesis using l1_Set_Get [OF mem_hash_laws ex_l1_sel(1)] by blast
qed

section \<open>The size\<close>

text \<open>A server that answers the commands of the eviction.\<close>

definition hash_reliable :: "'w redis_ops \<Rightarrow> bool" where
  "hash_reliable ops \<longleftrightarrow>
     (\<forall>k w. isl (fst (rd_HLen ops k w)) = False \<and> isl (fst (rd_HKeys ops k w)) = False) \<and>
     (\<forall>k f w. fst (rd_HDel ops k f w) = None)"

lemma del_fields_reliable:
  assumes "hash_laws ops H" and "hash_reliable ops"
  shows "dom (H (del_fields ops p fs w) p) = dom (H w p) - set fs"
proof (induction fs arbitrary: w)
  case (Cons f fs)
  obtain w1 where d: "rd_HDel ops p f w = (None, w1)"
    using assms(2) by (metis hash_reliable_def prod.collapse)
  have "H w1 = (H w)(p := (H w p)(f := None))" using hash_HDel(1) [OF assms(1) d] by simp
  then show ?case using Cons [of w1] d by (auto split: if_splits)
qed simp

lemma evict_room:
  assumes "hash_laws ops H" and "hash_reliable ops" and "1 \<le> l1_maxSize c"
    and "int (card (dom (H w (l1_keyPrefix c)))) \<le> l1_maxSize c"
    and "l1_evictIfNeeded c ops w = (e, w')"
  shows "int (card (dom (H w' (l1_keyPrefix c)))) < l1_maxSize c"
proof -
  let ?p = "l1_keyPrefix c"
  obtain n w1 where len: "rd_HLen ops ?p w = (Inr n, w1)"
    using assms(2) by (metis hash_reliable_def prod.collapse sum.collapse(2))
  have n: "n = int (card (dom (H w ?p)))" "H w1 = H w" using hash_HLen [OF assms(1) len] by simp_all
  show ?thesis
  proof (cases "n \<ge> l1_maxSize c")
    case False
    then show ?thesis using assms(3,5) len n by (simp add: l1_evictIfNeeded_def)
  next
    case True
    obtain ks w2 where keys: "rd_HKeys ops ?p w1 = (Inr ks, w2)"
      using assms(2) by (metis hash_reliable_def prod.collapse sum.collapse(2))
    have ks: "distinct ks" "set ks = dom (H w ?p)" "H w2 = H w"
      using hash_HKeys [OF assms(1) keys] n(2) by simp_all
    let ?d = "take (delete_count (length ks)) ks"
    have w': "w' = del_fields ops ?p ?d w2" using assms(3,5) len keys True by (simp add: l1_evictIfNeeded_def)
    have "length ks = card (dom (H w ?p))" using ks by (metis distinct_card)
    then have "ks \<noteq> []" using True n(1) assms(3) by auto
    then have "hd ks \<in> set ?d" by (cases ks) (auto simp: delete_count_def take_Cons')
    moreover have "hd ks \<in> dom (H w ?p)" using \<open>ks \<noteq> []\<close> ks(2) by (metis list.set_sel(1))
    moreover have "dom (H w' ?p) = dom (H w ?p) - set ?d"
      unfolding w' del_fields_reliable [OF assms(1,2)] ks(3) ..
    ultimately have "dom (H w' ?p) \<subset> dom (H w ?p)" by blast
    then have "card (dom (H w' ?p)) < card (dom (H w ?p))"
      using hash_laws_elim(1) [OF assms(1)] by (rule psubset_card_mono [rotated])
    then show ?thesis using assms(4) by simp
  qed
qed

text \<open>A run of calls on one cache.\<close>

datatype l1_call = CallGet string | CallSet string string | CallDelete string | CallClear

fun l1_exec :: "'w l1_cache \<Rightarrow> l1_call \<Rightarrow> 'w \<Rightarrow> 'w" where
  "l1_exec c (CallGet k) w = snd (l1_Get c k w)"
| "l1_exec c (CallSet k v) w = snd (l1_Set c k v w)"
| "l1_exec c (CallDelete k) w = snd (l1_Delete c k w)"
| "l1_exec c CallClear w = snd (l1_Clear c w)"

definition l1_run :: "'w l1_cache \<Rightarrow> l1_call list \<Rightarrow> 'w \<Rightarrow> 'w" where
  "l1_run c calls w = foldl (\<lambda>w call. l1_exec c call w) w calls"

lemma l1_exec_bounded:
  assumes "hash_laws ops H" and "hash_reliable ops" and "l1_client c = Some ops" and "1 \<le> l1_maxSize c"
    and "int (card (dom (H w (l1_keyPrefix c)))) \<le> l1_maxSize c"
  shows "int (card (dom (H (l1_exec c call w) (l1_keyPrefix c)))) \<le> l1_maxSize c"
proof -
  let ?p = "l1_keyPrefix c"
  have fin: "finite (dom (H u ?p))" for u by (rule hash_laws_elim(1) [OF assms(1)])
  have shrink: "int (card (dom (H u ?p))) \<le> l1_maxSize c" if "dom (H u ?p) \<subseteq> dom (H w ?p)" for u
    using card_mono [OF fin that] assms(5) by simp
  show ?thesis
  proof (cases call)
    case (CallGet k)
    have "H (snd (rd_HGet ops ?p k w)) = H w" using hash_HGet(1) [OF assms(1)] by (metis prod.collapse)
    then have "H (snd (l1_Get c k w)) = H w"
      using assms(3) by (auto simp: l1_Get_def split: prod.splits sum.splits redis_err.splits)
    then show ?thesis using CallGet assms(5) by simp
  next
    case (CallSet k v)
    obtain e1 w1 where ev: "l1_evictIfNeeded c ops w = (e1, w1)" by fastforce
    obtain e2 w2 where st: "rd_HSet ops ?p k v w1 = (e2, w2)" by fastforce
    have "H (snd (l1_Set c k v w)) = H w2"
      using assms(3) ev st hash_Expire(2) [OF assms(1)]
      by (cases "rd_Expire ops ?p (l1_ttl c) w2") (auto simp: l1_Set_def split: option.split)
    moreover have "dom (H w2 ?p) \<subseteq> insert k (dom (H w1 ?p))" using hash_HSet(2) [OF assms(1) st] by auto
    then have "card (dom (H w2 ?p)) \<le> card (insert k (dom (H w1 ?p)))" using fin by (intro card_mono) auto
    then have "card (dom (H w2 ?p)) \<le> Suc (card (dom (H w1 ?p)))"
      using card_insert_le_m1 [of "Suc (card (dom (H w1 ?p)))" "dom (H w1 ?p)" k] by simp
    ultimately show ?thesis
      using evict_room [OF assms(1,2,4,5) ev] CallSet by simp
  next
    case (CallDelete k)
    have "H (snd (rd_HDel ops ?p k w)) ?p = H w ?p \<or> H (snd (rd_HDel ops ?p k w)) ?p = (H w ?p)(k := None)"
      using hash_HDel(2) [OF assms(1), of ?p k w] by (cases "rd_HDel ops ?p k w") auto
    then show ?thesis using CallDelete assms(3) by (auto simp: l1_Delete_def intro!: shrink split: if_splits)
  next
    case CallClear
    have "H (snd (rd_Del ops [?p] w)) ?p = H w ?p \<or> H (snd (rd_Del ops [?p] w)) ?p = Map.empty"
      using hash_Del(2) [OF assms(1), of "[?p]" w] by (cases "rd_Del ops [?p] w") auto
    then show ?thesis using CallClear assms(3) by (auto simp: l1_Clear_def intro!: shrink)
  qed
qed

text \<open>
  The cache never holds more than \<open>maxSize\<close> entries: with \<open>maxSize\<close> at least 1 and
  a server that answers \<open>HLEN\<close>, \<open>HKEYS\<close> and \<open>HDEL\<close>, a store within the bound is within it
  after every sequence of \<open>Get\<close>, \<open>Set\<close>, \<open>Delete\<close> and \<open>Clear\<close>, whatever the other commands
  answer.
\<close>
lemma l1_size_bounded:
  assumes "hash_laws ops H" and "hash_reliable ops" and "l1_client c = Some ops" and "1 \<le> l1_maxSize c"
    and "int (card (dom (H w (l1_keyPrefix c)))) \<le> l1_maxSize c"
  shows "int (card (dom (H (l1_run c calls w) (l1_keyPrefix c)))) \<le> l1_maxSize c"
  unfolding l1_run_def using assms(5)
  by (induction calls arbitrary: w) (simp_all add: l1_exec_bounded [OF assms(1-4)])

end
