(* ===== verification/Workflow.thy ===== *)
theory Workflow
  imports GoTime Json "HOL-Library.Char_ord" "HOL-Library.List_Lexorder"
begin

text \<open>
  \<open>internal/service/workflow.go\<close>: workflow traces, their replay file and the in-memory
  session summaries.  The clock readings and the random bytes are arguments, and so are the
  three file-system calls.  Counters are \<open>int64\<close> and wrap around; costs and averages are
  \<open>float64\<close>.  \<open>updateSummary\<close> runs under the tracer's lock.
\<close>

section \<open>Data\<close>

definition defaultWorkflowReplayPath :: string where
  "defaultWorkflowReplayPath = ''logs/workflow_replay.jsonl''"

record workflow_trace =
  wt_TraceID :: string
  wt_Timestamp :: string
  wt_Endpoint :: string
  wt_SessionID :: string
  wt_StepID :: string
  wt_StepType :: string
  wt_Tool :: string
  wt_RequestedModel :: string
  wt_UpstreamModel :: string
  wt_UpstreamProvider :: string
  wt_StatusCode :: int
  wt_LatencyMs :: int
  wt_CacheHit :: bool
  wt_PromptTokens :: int
  wt_CompletionTokens :: int
  wt_TotalTokens :: int
  wt_EstimatedCost :: f64
  wt_ErrorCode :: string

record phase_summary =
  ph_Requests :: int
  ph_Errors :: int
  ph_AvgLatencyMs :: f64
  ph_TotalTokens :: int
  ph_EstimatedCost :: f64

text \<open>\<open>ToolSummary\<close> has the same fields as \<open>PhaseSummary\<close>.\<close>

type_synonym tool_summary = phase_summary

record workflow_summary =
  ws_SessionID :: string
  ws_Requests :: int
  ws_Errors :: int
  ws_TotalTokens :: int
  ws_EstimatedCost :: f64
  ws_AvgLatencyMs :: f64
  ws_CacheHitRate :: f64
  ws_ByStepType :: "string \<rightharpoonup> phase_summary"
  ws_ByTool :: "string \<rightharpoonup> tool_summary"
  ws_LastUpdatedAt :: string

record summary_state =
  ss_summary :: workflow_summary
  ss_totalLatency :: int
  ss_cacheHits :: int
  ss_phaseLatency :: "string \<rightharpoonup> int"
  ss_phaseRequests :: "string \<rightharpoonup> int"
  ss_toolLatency :: "string \<rightharpoonup> int"
  ss_toolRequests :: "string \<rightharpoonup> int"

record workflow_tracer =
  wf_replayPath :: string
  wf_sessions :: "string \<rightharpoonup> summary_state"

definition NewWorkflowTracer :: "string \<Rightarrow> workflow_tracer" where
  "NewWorkflowTracer replayPath =
     (let replayPath = trim_space replayPath;
          replayPath = (if replayPath = '''' then defaultWorkflowReplayPath else replayPath)
      in \<lparr>wf_replayPath = replayPath, wf_sessions = Map.empty\<rparr>)"

text \<open>The process-wide tracer: the one it starts with, and the one that replaces it.\<close>

definition defaultWorkflowTracer :: workflow_tracer where
  "defaultWorkflowTracer = NewWorkflowTracer defaultWorkflowReplayPath"

definition ConfigureDefaultWorkflowTracer :: "string \<Rightarrow> workflow_tracer \<Rightarrow> workflow_tracer" where
  "ConfigureDefaultWorkflowTracer replayPath tracer = NewWorkflowTracer replayPath"

section \<open>Normalising a trace\<close>

definition price_fallback :: "int \<Rightarrow> f64" where
  "price_fallback totalTokens = f64_of_int totalTokens * rnd (2 / 1000000)"

text \<open>The prices for 1000 prompt and completion tokens; None for the default branch.\<close>

definition price_per_1k :: "string \<Rightarrow> (f64 \<times> f64) option" where
  "price_per_1k model =
     (if has_prefix model ''gpt-4'' then Some (rnd (3 / 100), rnd (6 / 100))
      else if has_prefix model ''gpt-3.5'' then Some (rnd (15 / 10000), rnd (2 / 1000))
      else if has_prefix model ''claude'' then Some (rnd (8 / 1000), rnd (24 / 1000))
      else None)"

definition estimateCost :: "string \<Rightarrow> int \<Rightarrow> int \<Rightarrow> int \<Rightarrow> f64" where
  "estimateCost model promptTokens completionTokens totalTokens =
     (let model = to_lower (trim_space model) in
      case price_per_1k model of
        None \<Rightarrow> if totalTokens \<le> 0 then 0 else price_fallback totalTokens
      | Some (promptPer1k, completionPer1k) \<Rightarrow>
          let prompt = f64_of_int promptTokens / f64_of_int 1000 * promptPer1k;
              completion = f64_of_int completionTokens / f64_of_int 1000 * completionPer1k
          in if f64_eq prompt 0 \<and> f64_eq completion 0 \<and> 0 < totalTokens
             then price_fallback totalTokens
             else prompt + completion)"

definition hex_byte :: "char \<Rightarrow> string" where
  "hex_byte c = [hex_digit (byte c div 16), hex_digit (byte c mod 16)]"

text \<open>The Unix epoch as an instant, and \<open>UnixNano\<close>.\<close>

definition unix_nano :: "time \<Rightarrow> int" where
  "unix_nano t = wrap64 (t - 62135596800 * second)"

text \<open>\<open>random\<close> is the eight bytes read, or None when the read failed.\<close>

definition newTraceID :: "string option \<Rightarrow> time \<Rightarrow> string" where
  "newTraceID random now =
     (case random of
        None \<Rightarrow> ''wf_'' @ itoa (unix_nano now)
      | Some bs \<Rightarrow> ''wf_'' @ itoa (unix_nano now) @ ''_'' @ concat (map hex_byte bs))"

text \<open>
  The identifying fields: \<open>now1\<close> is the reading for the trace id, \<open>now2\<close> the one for the
  time stamp.
\<close>

definition norm_ids :: "string option \<Rightarrow> time \<Rightarrow> time \<Rightarrow> workflow_trace \<Rightarrow> workflow_trace" where
  "norm_ids random now1 now2 trace =
     trace\<lparr>
       wt_TraceID := if trim_space (wt_TraceID trace) = '''' then newTraceID random now1 else wt_TraceID trace,
       wt_Timestamp := if trim_space (wt_Timestamp trace) = '''' then format_rfc3339 now2 else wt_Timestamp trace,
       wt_Endpoint := let e = trim_space (wt_Endpoint trace) in if e = '''' then ''unknown'' else e\<rparr>"

text \<open>The fields that are only trimmed.\<close>

definition trim_fields :: "workflow_trace \<Rightarrow> workflow_trace" where
  "trim_fields trace =
     trace\<lparr>wt_SessionID := trim_space (wt_SessionID trace),
       wt_StepID := trim_space (wt_StepID trace),
       wt_StepType := to_lower (trim_space (wt_StepType trace)),
       wt_Tool := trim_space (wt_Tool trace),
       wt_RequestedModel := trim_space (wt_RequestedModel trace),
       wt_UpstreamModel := trim_space (wt_UpstreamModel trace),
       wt_UpstreamProvider := trim_space (wt_UpstreamProvider trace),
       wt_ErrorCode := trim_space (wt_ErrorCode trace)\<rparr>"

definition norm_total :: "int \<Rightarrow> int \<Rightarrow> int \<Rightarrow> int" where
  "norm_total prompt completion tokens =
     (let tokens = max 0 tokens in if tokens = 0 then wrap64 (prompt + completion) else tokens)"

definition norm_numbers :: "workflow_trace \<Rightarrow> workflow_trace" where
  "norm_numbers trace =
     (let prompt = max 0 (wt_PromptTokens trace); completion = max 0 (wt_CompletionTokens trace)
      in trace\<lparr>wt_StatusCode := if wt_StatusCode trace = 0 then 200 else wt_StatusCode trace,
           wt_LatencyMs := max 0 (wt_LatencyMs trace),
           wt_PromptTokens := prompt, wt_CompletionTokens := completion,
           wt_TotalTokens := norm_total prompt completion (wt_TotalTokens trace)\<rparr>)"

definition norm_cost :: "workflow_trace \<Rightarrow> workflow_trace" where
  "norm_cost trace =
     trace\<lparr>wt_EstimatedCost :=
       if wt_EstimatedCost trace \<le> 0
       then estimateCost (wt_UpstreamModel trace) (wt_PromptTokens trace) (wt_CompletionTokens trace)
         (wt_TotalTokens trace)
       else wt_EstimatedCost trace\<rparr>"

text \<open>
  The order of the steps is that of the code, but for the trimming of the error code, which
  comes after the cost and does not bear on it.
\<close>

definition normalizeTrace :: "string option \<Rightarrow> time \<Rightarrow> time \<Rightarrow> workflow_trace \<Rightarrow> workflow_trace" where
  "normalizeTrace random now1 now2 trace =
     norm_cost (norm_numbers (trim_fields (norm_ids random now1 now2 trace)))"

section \<open>Summaries\<close>

definition phase_summary_zero :: phase_summary where
  "phase_summary_zero = \<lparr>ph_Requests = 0, ph_Errors = 0, ph_AvgLatencyMs = 0, ph_TotalTokens = 0,
     ph_EstimatedCost = 0\<rparr>"

definition get0 :: "(string \<rightharpoonup> int) \<Rightarrow> string \<Rightarrow> int" where
  "get0 m k = (case m k of None \<Rightarrow> 0 | Some v \<Rightarrow> v)"

definition bump :: "(string \<rightharpoonup> int) \<Rightarrow> string \<Rightarrow> int \<Rightarrow> (string \<rightharpoonup> int)" where
  "bump m k d = m(k \<mapsto> wrap64 (get0 m k + d))"

text \<open>
  The update of the summary of one phase, and of one tool: \<open>latency\<close> and \<open>requests\<close> are the
  state's counters for the key, already updated.
\<close>

definition update_phase :: "workflow_trace \<Rightarrow> int \<Rightarrow> int \<Rightarrow> phase_summary option \<Rightarrow> phase_summary" where
  "update_phase trace latency requests old =
     (let p = (case old of None \<Rightarrow> phase_summary_zero | Some p \<Rightarrow> p);
          p = p\<lparr>ph_Requests := wrap64 (ph_Requests p + 1)\<rparr>;
          p = (if 400 \<le> wt_StatusCode trace then p\<lparr>ph_Errors := wrap64 (ph_Errors p + 1)\<rparr> else p);
          p = (if 0 < wt_TotalTokens trace
               then p\<lparr>ph_TotalTokens := wrap64 (ph_TotalTokens p + wt_TotalTokens trace)\<rparr> else p);
          p = p\<lparr>ph_EstimatedCost := ph_EstimatedCost p + wt_EstimatedCost trace\<rparr>
      in p\<lparr>ph_AvgLatencyMs := f64_of_int latency / f64_of_int requests\<rparr>)"

definition new_state :: "string \<Rightarrow> summary_state" where
  "new_state sid =
     \<lparr>ss_summary = \<lparr>ws_SessionID = sid, ws_Requests = 0, ws_Errors = 0, ws_TotalTokens = 0,
        ws_EstimatedCost = 0, ws_AvgLatencyMs = 0, ws_CacheHitRate = 0, ws_ByStepType = Map.empty,
        ws_ByTool = Map.empty, ws_LastUpdatedAt = ''''\<rparr>,
      ss_totalLatency = 0, ss_cacheHits = 0, ss_phaseLatency = Map.empty, ss_phaseRequests = Map.empty,
      ss_toolLatency = Map.empty, ss_toolRequests = Map.empty\<rparr>"

definition trace_phase :: "workflow_trace \<Rightarrow> string" where
  "trace_phase trace =
     (let phase = trim_space (wt_StepType trace) in if phase = '''' then ''default'' else phase)"

definition update_totals :: "workflow_trace \<Rightarrow> summary_state \<Rightarrow> summary_state" where
  "update_totals trace st =
     (let s = ss_summary st;
          s = s\<lparr>ws_Requests := wrap64 (ws_Requests s + 1)\<rparr>;
          s = (if 400 \<le> wt_StatusCode trace then s\<lparr>ws_Errors := wrap64 (ws_Errors s + 1)\<rparr> else s);
          s = (if 0 < wt_TotalTokens trace
               then s\<lparr>ws_TotalTokens := wrap64 (ws_TotalTokens s + wt_TotalTokens trace)\<rparr> else s);
          s = s\<lparr>ws_EstimatedCost := ws_EstimatedCost s + wt_EstimatedCost trace\<rparr>;
          totalLatency = wrap64 (ss_totalLatency st + wt_LatencyMs trace);
          s = s\<lparr>ws_AvgLatencyMs := f64_of_int totalLatency / f64_of_int (ws_Requests s)\<rparr>;
          cacheHits = (if wt_CacheHit trace then wrap64 (ss_cacheHits st + 1) else ss_cacheHits st);
          s = s\<lparr>ws_CacheHitRate := f64_of_int cacheHits / f64_of_int (ws_Requests s),
                ws_LastUpdatedAt := wt_Timestamp trace\<rparr>
      in st\<lparr>ss_summary := s, ss_totalLatency := totalLatency, ss_cacheHits := cacheHits\<rparr>)"

definition update_by_phase :: "workflow_trace \<Rightarrow> summary_state \<Rightarrow> summary_state" where
  "update_by_phase trace st =
     (let phase = trace_phase trace;
          latency = bump (ss_phaseLatency st) phase (wt_LatencyMs trace);
          requests = bump (ss_phaseRequests st) phase 1;
          s = ss_summary st
      in st\<lparr>ss_phaseLatency := latency, ss_phaseRequests := requests,
            ss_summary := s\<lparr>ws_ByStepType := (ws_ByStepType s)(phase \<mapsto>
              update_phase trace (get0 latency phase) (get0 requests phase) (ws_ByStepType s phase))\<rparr>\<rparr>)"

definition update_by_tool :: "workflow_trace \<Rightarrow> summary_state \<Rightarrow> summary_state" where
  "update_by_tool trace st =
     (let tool = trim_space (wt_Tool trace) in
      if tool = '''' then st
      else
        let latency = bump (ss_toolLatency st) tool (wt_LatencyMs trace);
            requests = bump (ss_toolRequests st) tool 1;
            s = ss_summary st
        in st\<lparr>ss_toolLatency := latency, ss_toolRequests := requests,
              ss_summary := s\<lparr>ws_ByTool := (ws_ByTool s)(tool \<mapsto>
                update_phase trace (get0 latency tool) (get0 requests tool) (ws_ByTool s tool))\<rparr>\<rparr>)"

definition update_state :: "workflow_trace \<Rightarrow> summary_state \<Rightarrow> summary_state" where
  "update_state trace st = update_by_tool trace (update_by_phase trace (update_totals trace st))"

definition updateSummary :: "workflow_trace \<Rightarrow> workflow_tracer \<Rightarrow> workflow_tracer" where
  "updateSummary trace t =
     (if trim_space (wt_SessionID trace) = '''' then t
      else
        let sid = wt_SessionID trace;
            st = (case wf_sessions t sid of None \<Rightarrow> new_state sid | Some st \<Rightarrow> st)
        in t\<lparr>wf_sessions := (wf_sessions t)(sid \<mapsto> update_state trace st)\<rparr>)"

definition GetSummary :: "workflow_tracer \<Rightarrow> string \<Rightarrow> workflow_summary option" where
  "GetSummary t sessionID =
     (let sessionID = trim_space sessionID in
      if sessionID = '''' then None else map_option ss_summary (wf_sessions t sessionID))"

text \<open>
  \<open>ListSummaries\<close> ranges over the map in an arbitrary order, the argument \<open>order\<close>, which
  also decides how \<open>sort.Slice\<close> leaves the entries with equal time stamps.
\<close>

definition ListSummaries :: "workflow_tracer \<Rightarrow> string list \<Rightarrow> int \<Rightarrow> workflow_summary list" where
  "ListSummaries t order limit =
     (let limit = (if limit \<le> 0 then 20 else limit);
          items = map ss_summary (List.map_filter (wf_sessions t) order);
          items = rev (sort_key ws_LastUpdatedAt items)
      in if limit < int (length items) then take (nat limit) items else items)"

section \<open>The replay file\<close>

text \<open>\<open>json.Marshal\<close> of a trace; None for a cost that JSON cannot express.\<close>

definition marshal_trace :: "workflow_trace \<Rightarrow> string option" where
  "marshal_trace t =
     (case float_literal (wt_EstimatedCost t) of
        None \<Rightarrow> None
      | Some cost \<Rightarrow>
          Some (render (JObj
            ([(''trace_id'', JStr (wt_TraceID t)), (''timestamp'', JStr (wt_Timestamp t)),
              (''endpoint'', JStr (wt_Endpoint t))]
             @ opt_str ''session_id'' (wt_SessionID t)
             @ opt_str ''step_id'' (wt_StepID t)
             @ opt_str ''step_type'' (wt_StepType t)
             @ opt_str ''tool'' (wt_Tool t)
             @ opt_str ''requested_model'' (wt_RequestedModel t)
             @ opt_str ''upstream_model'' (wt_UpstreamModel t)
             @ opt_str ''upstream_provider'' (wt_UpstreamProvider t)
             @ [(''status_code'', JInt (wt_StatusCode t)), (''latency_ms'', JInt (wt_LatencyMs t)),
                (''cache_hit'', JBool (wt_CacheHit t)), (''prompt_tokens'', JInt (wt_PromptTokens t)),
                (''completion_tokens'', JInt (wt_CompletionTokens t)),
                (''total_tokens'', JInt (wt_TotalTokens t)), (''estimated_cost'', JNum cost)]
             @ opt_str ''error_code'' (wt_ErrorCode t)))))"

text \<open>
  \<open>filepath.Dir\<close>: what precedes the last slash, cleaned; \<open>path_clean\<close> is \<open>filepath.Clean\<close>,
  which drops empty and \<open>.\<close> components and resolves \<open>..\<close> against the one before.
\<close>

fun split_slash :: "string \<Rightarrow> string list" where
  "split_slash [] = [[]]"
| "split_slash (c # s) =
     (if c = CHR ''/'' then [] # split_slash s
      else (case split_slash s of [] \<Rightarrow> [[c]] | x # xs \<Rightarrow> (c # x) # xs))"

fun clean_parts :: "bool \<Rightarrow> string list \<Rightarrow> string list \<Rightarrow> string list" where
  "clean_parts rooted acc [] = rev acc"
| "clean_parts rooted acc (p # ps) =
     (if p = '''' \<or> p = ''.'' then clean_parts rooted acc ps
      else if p = ''..'' then
        (case acc of
           [] \<Rightarrow> if rooted then clean_parts rooted [] ps else clean_parts rooted [p] ps
         | a # acc' \<Rightarrow> if a = ''..'' then clean_parts rooted (p # acc) ps else clean_parts rooted acc' ps)
      else clean_parts rooted (p # acc) ps)"

fun join_slash :: "string list \<Rightarrow> string" where
  "join_slash [] = []"
| "join_slash [p] = p"
| "join_slash (p # ps) = p @ ''/'' @ join_slash ps"

definition path_clean :: "string \<Rightarrow> string" where
  "path_clean p =
     (if p = '''' then ''.''
      else
        let rooted = (take 1 p = ''/''); r = join_slash (clean_parts rooted [] (split_slash p))
        in if rooted then ''/'' @ r else if r = '''' then ''.'' else r)"

definition path_dir :: "string \<Rightarrow> string" where
  "path_dir p = path_clean (rev (dropWhile (\<lambda>c. c \<noteq> CHR ''/'') (rev p)))"

text \<open>The file-system calls on the outside world; a Go \<open>error\<close> is its text, nil is None.\<close>

record 'w file_ops =
  fo_MkdirAll :: "string \<Rightarrow> 'w \<Rightarrow> string option \<times> 'w"
  fo_OpenAppend :: "string \<Rightarrow> 'w \<Rightarrow> string option \<times> 'w"
  fo_Write :: "string \<Rightarrow> string \<Rightarrow> 'w \<Rightarrow> string option \<times> 'w"
  fo_Close :: "string \<Rightarrow> 'w \<Rightarrow> 'w"

definition appendJSONL :: "'w file_ops \<Rightarrow> workflow_tracer \<Rightarrow> workflow_trace \<Rightarrow> 'w \<Rightarrow> string option \<times> 'w" where
  "appendJSONL fo t trace w =
     (if trim_space (wf_replayPath t) = '''' then (None, w)
      else
        let dir = path_dir (wf_replayPath t);
            (err, w) = (if dir \<noteq> ''.'' \<and> dir \<noteq> '''' then fo_MkdirAll fo dir w else (None, w))
        in case err of
             Some e \<Rightarrow> (Some e, w)
           | None \<Rightarrow>
               (case fo_OpenAppend fo (wf_replayPath t) w of
                  (Some e, w) \<Rightarrow> (Some e, w)
                | (None, w) \<Rightarrow>
                    (case marshal_trace trace of
                       None \<Rightarrow> (Some ''json: unsupported value'', fo_Close fo (wf_replayPath t) w)
                     | Some data \<Rightarrow>
                         (case fo_Write fo (wf_replayPath t) (data @ [CHR 0x0A]) w of
                            (err, w) \<Rightarrow> (err, fo_Close fo (wf_replayPath t) w)))))"

text \<open>\<open>Record\<close>; the error of the replay file is dropped.\<close>

definition tracer_Record ::
  "'w file_ops \<Rightarrow> string option \<Rightarrow> time \<Rightarrow> time \<Rightarrow> workflow_tracer \<Rightarrow> workflow_trace \<Rightarrow> 'w
    \<Rightarrow> workflow_tracer \<times> 'w" where
  "tracer_Record fo random now1 now2 t trace w =
     (let trace = normalizeTrace random now1 now2 trace;
          (_, w) = appendJSONL fo t trace w
      in (updateSummary trace t, w))"

section \<open>Reference summaries\<close>

text \<open>
  What a summary should be, computed at once from the list of the session's traces, instead
  of field by field as they come in.
\<close>

definition sum64 :: "(workflow_trace \<Rightarrow> int) \<Rightarrow> workflow_trace list \<Rightarrow> int" where
  "sum64 f ts = wrap64 (\<Sum>t\<leftarrow>ts. f t)"

definition count64 :: "(workflow_trace \<Rightarrow> bool) \<Rightarrow> workflow_trace list \<Rightarrow> int" where
  "count64 P ts = wrap64 (int (length (filter P ts)))"

definition total_cost :: "workflow_trace list \<Rightarrow> f64" where
  "total_cost ts = foldl (+) 0 (map wt_EstimatedCost ts)"

definition pos_tokens :: "workflow_trace \<Rightarrow> int" where
  "pos_tokens t = max 0 (wt_TotalTokens t)"

abbreviation is_error :: "workflow_trace \<Rightarrow> bool" where
  "is_error t \<equiv> 400 \<le> wt_StatusCode t"

definition ref_phase :: "workflow_trace list \<Rightarrow> phase_summary" where
  "ref_phase ts =
     \<lparr>ph_Requests = count64 (\<lambda>_. True) ts, ph_Errors = count64 is_error ts,
      ph_AvgLatencyMs = f64_of_int (sum64 wt_LatencyMs ts) / f64_of_int (count64 (\<lambda>_. True) ts),
      ph_TotalTokens = sum64 pos_tokens ts, ph_EstimatedCost = total_cost ts\<rparr>"

text \<open>Grouping by a key; the empty key has no group.\<close>

definition group :: "(workflow_trace \<Rightarrow> string) \<Rightarrow> (workflow_trace list \<Rightarrow> 'a) \<Rightarrow> workflow_trace list \<Rightarrow> string \<rightharpoonup> 'a" where
  "group key f ts k =
     (if k = '''' \<or> filter (\<lambda>t. key t = k) ts = [] then None else Some (f (filter (\<lambda>t. key t = k) ts)))"

definition trace_tool :: "workflow_trace \<Rightarrow> string" where
  "trace_tool t = trim_space (wt_Tool t)"

definition ref_summary :: "string \<Rightarrow> workflow_trace list \<Rightarrow> workflow_summary" where
  "ref_summary sid ts =
     \<lparr>ws_SessionID = sid, ws_Requests = count64 (\<lambda>_. True) ts, ws_Errors = count64 is_error ts,
      ws_TotalTokens = sum64 pos_tokens ts, ws_EstimatedCost = total_cost ts,
      ws_AvgLatencyMs = (if ts = [] then 0
        else f64_of_int (sum64 wt_LatencyMs ts) / f64_of_int (count64 (\<lambda>_. True) ts)),
      ws_CacheHitRate = (if ts = [] then 0
        else f64_of_int (count64 wt_CacheHit ts) / f64_of_int (count64 (\<lambda>_. True) ts)),
      ws_ByStepType = group trace_phase ref_phase ts,
      ws_ByTool = group trace_tool ref_phase ts,
      ws_LastUpdatedAt = (if ts = [] then '''' else wt_Timestamp (last ts))\<rparr>"

definition ref_state :: "string \<Rightarrow> workflow_trace list \<Rightarrow> summary_state" where
  "ref_state sid ts =
     \<lparr>ss_summary = ref_summary sid ts, ss_totalLatency = sum64 wt_LatencyMs ts,
      ss_cacheHits = count64 wt_CacheHit ts,
      ss_phaseLatency = group trace_phase (sum64 wt_LatencyMs) ts,
      ss_phaseRequests = group trace_phase (count64 (\<lambda>_. True)) ts,
      ss_toolLatency = group trace_tool (sum64 wt_LatencyMs) ts,
      ss_toolRequests = group trace_tool (count64 (\<lambda>_. True)) ts\<rparr>"

lemma sum64_snoc [simp]: "sum64 f (ts @ [t]) = wrap64 (sum64 f ts + f t)" "sum64 f [] = 0"
  by (simp_all add: sum64_def)

lemma count64_snoc [simp]:
  "count64 P (ts @ [t]) = (if P t then wrap64 (count64 P ts + 1) else count64 P ts)" "count64 P [] = 0"
  by (simp_all add: count64_def add.commute)

lemma total_cost_snoc [simp]: "total_cost (ts @ [t]) = total_cost ts + wt_EstimatedCost t" "total_cost [] = 0"
  by (simp_all add: total_cost_def)

lemma singleton_sums [simp]:
  "sum64 f [t] = wrap64 (f t)" "count64 P [t] = (if P t then wrap64 1 else 0)"
  "total_cost [t] = 0 + wt_EstimatedCost t"
  by (simp_all add: sum64_def count64_def total_cost_def)

lemma pos_tokens_step:
  "(if 0 < wt_TotalTokens t then wrap64 (sum64 pos_tokens ts + wt_TotalTokens t) else sum64 pos_tokens ts)
    = wrap64 (sum64 pos_tokens ts + pos_tokens t)"
  by (simp add: pos_tokens_def max_def sum64_def)

lemma trace_phase_nonempty [simp]: "trace_phase t \<noteq> ''''"
  by (simp add: trace_phase_def Let_def)

lemma group_snoc:
  "group key f (ts @ [t]) =
    (if key t = '''' then group key f ts
     else (group key f ts)(key t \<mapsto> f (filter (\<lambda>u. key u = key t) ts @ [t])))"
  by (rule ext) (auto simp: group_def)

lemma group_Nil [simp]: "group key f [] = Map.empty"
  by (rule ext) (simp add: group_def)

lemma get0_group:
  "k \<noteq> '''' \<Longrightarrow> f [] = 0 \<Longrightarrow> get0 (group key f ts) k = f (filter (\<lambda>t. key t = k) ts)"
  by (simp add: get0_def group_def)

lemma bump_group:
  assumes "key t \<noteq> ''''" and "f [] = 0" and "\<And>us. f (us @ [t]) = wrap64 (f us + d)"
  shows "bump (group key f ts) (key t) d = group key f (ts @ [t])"
  using assms by (simp add: bump_def group_snoc get0_group)

lemma update_phase_group:
  assumes "key t \<noteq> ''''"
  shows "update_phase t (get0 (group key (sum64 wt_LatencyMs) (ts @ [t])) (key t))
      (get0 (group key (count64 (\<lambda>_. True)) (ts @ [t])) (key t)) (group key ref_phase ts (key t)) =
    ref_phase (filter (\<lambda>u. key u = key t) ts @ [t])"
proof -
  let ?us = "filter (\<lambda>u. key u = key t) ts"
  have old: "(case group key ref_phase ts (key t) of None \<Rightarrow> phase_summary_zero | Some p \<Rightarrow> p) =
      (if ?us = [] then phase_summary_zero else ref_phase ?us)"
    using assms by (simp add: group_def)
  have new: "filter (\<lambda>u. key u = key t) (ts @ [t]) = ?us @ [t]" by simp
  show ?thesis
    unfolding update_phase_def old Let_def
    using assms pos_tokens_step [of t ?us]
    by (cases "?us = []")
      (simp_all add: get0_group new ref_phase_def phase_summary_zero_def pos_tokens_def max_def sum64_def)
qed

lemma update_state_ref: "update_state t (ref_state sid ts) = ref_state sid (ts @ [t])"
proof -
  have totals: "update_totals t (ref_state sid ts) = (ref_state sid ts)
    \<lparr>ss_summary := (ref_summary sid (ts @ [t]))
        \<lparr>ws_ByStepType := group trace_phase ref_phase ts, ws_ByTool := group trace_tool ref_phase ts\<rparr>,
     ss_totalLatency := sum64 wt_LatencyMs (ts @ [t]), ss_cacheHits := count64 wt_CacheHit (ts @ [t])\<rparr>"
    using pos_tokens_step [of t ts]
    by (simp add: update_totals_def ref_state_def ref_summary_def Let_def pos_tokens_def max_def sum64_def)
  have phase: "update_by_phase t (update_totals t (ref_state sid ts)) = (ref_state sid (ts @ [t]))
    \<lparr>ss_summary := (ref_summary sid (ts @ [t]))\<lparr>ws_ByTool := group trace_tool ref_phase ts\<rparr>,
     ss_toolLatency := group trace_tool (sum64 wt_LatencyMs) ts,
     ss_toolRequests := group trace_tool (count64 (\<lambda>_. True)) ts\<rparr>"
    unfolding totals
    by (simp add: update_by_phase_def ref_state_def ref_summary_def Let_def bump_group update_phase_group)
      (simp add: group_snoc)
  show ?thesis
  proof (cases "trace_tool t = ''''")
    case True
    then show ?thesis
      unfolding update_state_def phase
      by (simp add: update_by_tool_def trace_tool_def [symmetric] ref_state_def ref_summary_def group_snoc)
  next
    case False
    then show ?thesis
      unfolding update_state_def phase
      by (simp add: update_by_tool_def trace_tool_def [symmetric] ref_state_def ref_summary_def Let_def
          bump_group [of trace_tool] update_phase_group [of trace_tool]) (simp add: group_snoc)
  qed
qed

lemma new_state_ref: "new_state sid = ref_state sid []"
  by (simp add: new_state_def ref_state_def ref_summary_def)

definition tracer_run :: "workflow_tracer \<Rightarrow> workflow_trace list \<Rightarrow> workflow_tracer" where
  "tracer_run t ts = foldl (\<lambda>t tr. updateSummary tr t) t ts"

lemma tracer_run_sessions:
  assumes "wf_sessions t0 = Map.empty"
  shows "wf_sessions (tracer_run t0 ts) sid =
    (let xs = filter (\<lambda>t. wt_SessionID t = sid) ts
     in if trim_space sid = '''' \<or> xs = [] then None else Some (ref_state sid xs))"
proof (induction ts rule: rev_induct)
  case Nil
  then show ?case by (simp add: tracer_run_def assms)
next
  case (snoc t ts)
  have "tracer_run t0 (ts @ [t]) = updateSummary t (tracer_run t0 ts)"
    by (simp add: tracer_run_def)
  moreover have "(case wf_sessions (tracer_run t0 ts) (wt_SessionID t) of
        None \<Rightarrow> new_state (wt_SessionID t) | Some st \<Rightarrow> st) =
      ref_state (wt_SessionID t) (filter (\<lambda>u. wt_SessionID u = wt_SessionID t) ts)"
    if "trim_space (wt_SessionID t) \<noteq> ''''" "sid = wt_SessionID t"
    using snoc.IH that by (simp add: Let_def new_state_ref)
  ultimately show ?case
    using snoc.IH by (cases "sid = wt_SessionID t")
      (auto simp: updateSummary_def Let_def update_state_ref)
qed

section \<open>Costs and lines\<close>

lemma price_nonneg:
  assumes "price_per_1k m = Some (p, c)" and "Fin 0 \<le> x"
  shows "Fin 0 \<le> x * p" and "Fin 0 \<le> x * c"
proof -
  have pos: "\<exists>v. rnd r = Fin v \<and> 0 < v"
    if "r \<in> {3 / 100, 6 / 100, 15 / 10000, 2 / 1000, 8 / 1000, 24 / 1000}" for r :: rat
    using that by (intro rnd_positive) auto
  obtain r s where rs: "p = rnd r" "c = rnd s"
    "{r, s} \<subseteq> {3 / 100, 6 / 100, 15 / 10000, 2 / 1000, 8 / 1000, 24 / 1000}"
    using assms(1) by (auto simp: price_per_1k_def split: if_splits)
  then show "Fin 0 \<le> x * p" "Fin 0 \<le> x * c"
    using pos [of r] pos [of s] assms(2) by (auto intro: f64_times_nonneg)
qed

lemma price_fallback_nonneg: "0 \<le> n \<Longrightarrow> Fin 0 \<le> price_fallback n"
  using rnd_positive [of "2 / 1000000"] f64_of_int_nonneg [of n]
  by (auto simp: price_fallback_def intro: f64_times_nonneg)

lemma estimateCost_nonneg:
  assumes "0 \<le> prompt" and "0 \<le> completion"
  shows "Fin 0 \<le> estimateCost model prompt completion n"
proof -
  have k: "f64_of_int 1000 = Fin 1000" using f64_of_int_small [of 1000] by simp
  have pc: "Fin 0 \<le> f64_of_int prompt / f64_of_int 1000" "Fin 0 \<le> f64_of_int completion / f64_of_int 1000"
    using assms by (auto simp: k intro: f64_divide_nonneg f64_of_int_nonneg)
  show ?thesis
  proof (cases "price_per_1k (to_lower (trim_space model))")
    case None
    then show ?thesis by (simp add: estimateCost_def price_fallback_nonneg zero_f64_def)
  next
    case (Some pr)
    obtain p c where pr: "pr = (p, c)" by fastforce
    show ?thesis
      using price_nonneg [OF Some [unfolded pr] pc(1)] price_nonneg [OF Some [unfolded pr] pc(2)]
      by (simp add: estimateCost_def Some pr Let_def price_fallback_nonneg f64_plus_nonneg)
  qed
qed

lemma opt_str_printable: "kv \<in> set (opt_str k v) \<Longrightarrow> json_printable (snd kv)"
  by (auto simp: opt_str_def split: if_splits)

lemma marshal_trace_printable:
  assumes "marshal_trace t = Some d"
  shows "printable d"
proof -
  obtain cost where cost: "float_literal (wt_EstimatedCost t) = Some cost"
    using assms by (auto simp: marshal_trace_def split: option.splits)
  then have "printable cost" by (rule float_literal_printable)
  then show ?thesis
    using assms unfolding marshal_trace_def cost option.case option.inject
    by (elim subst, intro render_printable) (auto dest: opt_str_printable)
qed

lemma format_rfc3339_nonblank: "trim_space (format_rfc3339 t) \<noteq> ''''"
proof (rule trim_space_nonempty [of "CHR ''T''"])
  show "CHR ''T'' \<in> set (format_rfc3339 t)"
    by (cases "civil_date t" rule: prod_cases3)
      (simp only: format_rfc3339_def prod.case Let_def set_append list.set Un_iff insert_iff simp_thms)
  show "\<not> space_byte (CHR ''T'')" by code_simp
qed

lemma newTraceID_nonblank: "trim_space (newTraceID random t) \<noteq> ''''"
proof (rule trim_space_nonempty [of "CHR ''w''"])
  show "CHR ''w'' \<in> set (newTraceID random t)" by (simp add: newTraceID_def split: option.split)
  show "\<not> space_byte (CHR ''w'')" by code_simp
qed

text \<open>The fixed points of the four stages of the normalisation.\<close>

lemma norm_ids_id:
  "trim_space (wt_TraceID n) \<noteq> '''' \<Longrightarrow> trim_space (wt_Timestamp n) \<noteq> '''' \<Longrightarrow>
   wt_Endpoint n \<noteq> '''' \<Longrightarrow> trim_space (wt_Endpoint n) = wt_Endpoint n \<Longrightarrow> norm_ids random now1 now2 n = n"
  by (simp add: norm_ids_def)

lemma norm_ids_fields:
  "trim_space (wt_TraceID (norm_ids random now1 now2 t)) \<noteq> ''''"
  "trim_space (wt_Timestamp (norm_ids random now1 now2 t)) \<noteq> ''''"
  "wt_Endpoint (norm_ids random now1 now2 t) \<noteq> ''''"
  "trim_space (wt_Endpoint (norm_ids random now1 now2 t)) = wt_Endpoint (norm_ids random now1 now2 t)"
proof -
  have "trim_space ''unknown'' = ''unknown''" by code_simp
  then show "trim_space (wt_Endpoint (norm_ids random now1 now2 t)) = wt_Endpoint (norm_ids random now1 now2 t)"
    by (simp add: norm_ids_def Let_def)
qed (simp_all add: norm_ids_def Let_def newTraceID_nonblank format_rfc3339_nonblank)

lemma trim_fields_idem: "trim_fields (trim_fields t) = trim_fields t"
  by (simp add: trim_fields_def)

lemma stage_frames [simp]:
  "wt_TraceID (trim_fields t) = wt_TraceID t" "wt_Timestamp (trim_fields t) = wt_Timestamp t"
  "wt_Endpoint (trim_fields t) = wt_Endpoint t" "wt_EstimatedCost (trim_fields t) = wt_EstimatedCost t"
  "wt_TraceID (norm_numbers t) = wt_TraceID t" "wt_Timestamp (norm_numbers t) = wt_Timestamp t"
  "wt_Endpoint (norm_numbers t) = wt_Endpoint t" "wt_EstimatedCost (norm_numbers t) = wt_EstimatedCost t"
  "wt_TraceID (norm_cost t) = wt_TraceID t" "wt_Timestamp (norm_cost t) = wt_Timestamp t"
  "wt_Endpoint (norm_cost t) = wt_Endpoint t" "wt_LatencyMs (norm_cost t) = wt_LatencyMs t"
  "wt_PromptTokens (norm_cost t) = wt_PromptTokens t" "wt_CompletionTokens (norm_cost t) = wt_CompletionTokens t"
  "wt_EstimatedCost (norm_ids random now1 now2 t) = wt_EstimatedCost t"
  by (simp_all add: trim_fields_def norm_numbers_def norm_cost_def norm_ids_def Let_def)

lemma trim_fields_norm: "trim_fields n = n \<Longrightarrow> trim_fields (norm_cost (norm_numbers n)) = norm_cost (norm_numbers n)"
  by (cases n) (simp add: trim_fields_def norm_numbers_def norm_cost_def Let_def)

lemma norm_total_idem: "norm_total p c (norm_total p c n) = norm_total p c n"
  by (simp add: norm_total_def Let_def max_def)

lemma norm_numbers_idem: "norm_numbers (norm_cost (norm_numbers t)) = norm_cost (norm_numbers t)"
  by (simp add: norm_numbers_def norm_cost_def Let_def norm_total_idem)

lemma norm_cost_idem: "norm_cost (norm_cost t) = norm_cost t"
  by (simp add: norm_cost_def)

section \<open>Properties\<close>

text \<open>
  Claim C16.  The incremental summary of a session equals the reference summary of the session's
  traces in their order: the counts, sums, averages and rates of the whole session and of each
  step type and tool, whatever other sessions are interleaved; a session without traces, or with
  a blank id, has no summary.
\<close>

theorem workflow_summary_reference:
  "GetSummary (tracer_run (NewWorkflowTracer path) ts) sessionID =
    (let sid = trim_space sessionID; xs = filter (\<lambda>t. wt_SessionID t = sid) ts
     in if sid = '''' \<or> xs = [] then None else Some (ref_summary sid xs))"
proof -
  have "wf_sessions (NewWorkflowTracer path) = Map.empty" by (simp add: NewWorkflowTracer_def Let_def)
  from tracer_run_sessions [OF this, of ts "trim_space sessionID"] show ?thesis
    by (simp add: GetSummary_def Let_def ref_state_def)
qed






end
