(* ===== verification/GatewayErrors.thy ===== *)
theory GatewayErrors
  imports Main
begin

text \<open>
  \<open>pkg/errors/errors.go\<close>: the error codes, the error types, the error value and its HTTP
  status.  Codes and types are string constants in the code; here they are enumerations
  with the functions \<open>code_text\<close> and \<open>type_text\<close> to the strings on the wire.
\<close>

datatype error_code =
    ErrCodeMaxTokensExceeded | ErrCodeRequestTooLarge | ErrCodeInvalidRequest
  | ErrCodeInvalidModel | ErrCodeInvalidParameters
  | ErrCodeInvalidAPIKey | ErrCodeKeyExpired | ErrCodeMissingAPIKey
  | ErrCodeKeyDisabled | ErrCodePermissionDenied
  | ErrCodeRateLimitExceeded | ErrCodeQuotaExceeded
  | ErrCodeInternalError | ErrCodeProviderError
  | ErrCodeBadGateway | ErrCodeModelOverloaded | ErrCodeModelNotAvailable
  | ErrCodeServiceUnavailable
  | ErrCodeCacheError
  | ErrCodeCircuitOpen

datatype error_type =
    ErrTypeInvalidRequestError | ErrTypeInvalidAPIKey | ErrTypePermissionError
  | ErrTypeRateLimitError | ErrTypeServerError | ErrTypeServiceUnavailable
  | ErrTypeInternalError

fun code_text :: "error_code \<Rightarrow> string" where
  "code_text ErrCodeMaxTokensExceeded = ''max_tokens_exceeded''"
| "code_text ErrCodeRequestTooLarge = ''request_too_large''"
| "code_text ErrCodeInvalidRequest = ''invalid_request''"
| "code_text ErrCodeInvalidModel = ''invalid_model''"
| "code_text ErrCodeInvalidParameters = ''invalid_parameters''"
| "code_text ErrCodeInvalidAPIKey = ''invalid_api_key''"
| "code_text ErrCodeKeyExpired = ''key_expired''"
| "code_text ErrCodeMissingAPIKey = ''missing_api_key''"
| "code_text ErrCodeKeyDisabled = ''key_disabled''"
| "code_text ErrCodePermissionDenied = ''permission_denied''"
| "code_text ErrCodeRateLimitExceeded = ''rate_limit_exceeded''"
| "code_text ErrCodeQuotaExceeded = ''quota_exceeded''"
| "code_text ErrCodeInternalError = ''internal_error''"
| "code_text ErrCodeProviderError = ''provider_error''"
| "code_text ErrCodeBadGateway = ''bad_gateway''"
| "code_text ErrCodeModelOverloaded = ''model_overloaded''"
| "code_text ErrCodeModelNotAvailable = ''model_not_available''"
| "code_text ErrCodeServiceUnavailable = ''service_unavailable''"
| "code_text ErrCodeCacheError = ''cache_error''"
| "code_text ErrCodeCircuitOpen = ''circuit_open''"

fun type_text :: "error_type \<Rightarrow> string" where
  "type_text ErrTypeInvalidRequestError = ''invalid_request_error''"
| "type_text ErrTypeInvalidAPIKey = ''invalid_api_key''"
| "type_text ErrTypePermissionError = ''permission_error''"
| "type_text ErrTypeRateLimitError = ''rate_limit_error''"
| "type_text ErrTypeServerError = ''server_error''"
| "type_text ErrTypeServiceUnavailable = ''service_unavailable''"
| "type_text ErrTypeInternalError = ''internal_error''"

record gateway_error =
  ge_Message :: string
  ge_Type :: error_type
  ge_Code :: error_code

record error_response =
  er_Error :: gateway_error

definition NewError :: "string \<Rightarrow> error_type \<Rightarrow> error_code \<Rightarrow> gateway_error" where
  "NewError message errorType code = \<lparr>ge_Message = message, ge_Type = errorType, ge_Code = code\<rparr>"

definition ToErrorResponse :: "gateway_error \<Rightarrow> error_response" where
  "ToErrorResponse e = \<lparr>er_Error = e\<rparr>"

text \<open>\<open>HTTPStatus\<close>: the switch on the code, then the switch on the type.\<close>

fun code_status :: "error_code \<Rightarrow> int option" where
  "code_status ErrCodeInvalidAPIKey = Some 401"
| "code_status ErrCodeKeyExpired = Some 401"
| "code_status ErrCodeMissingAPIKey = Some 401"
| "code_status ErrCodeKeyDisabled = Some 403"
| "code_status ErrCodePermissionDenied = Some 403"
| "code_status ErrCodeRateLimitExceeded = Some 429"
| "code_status ErrCodeQuotaExceeded = Some 429"
| "code_status ErrCodeMaxTokensExceeded = Some 400"
| "code_status ErrCodeRequestTooLarge = Some 400"
| "code_status ErrCodeInvalidRequest = Some 400"
| "code_status ErrCodeInvalidModel = Some 400"
| "code_status ErrCodeInvalidParameters = Some 400"
| "code_status ErrCodeBadGateway = Some 502"
| "code_status ErrCodeModelOverloaded = Some 503"
| "code_status ErrCodeModelNotAvailable = Some 503"
| "code_status ErrCodeServiceUnavailable = Some 503"
| "code_status ErrCodeCircuitOpen = Some 503"
| "code_status _ = None"

fun type_status :: "error_type \<Rightarrow> int" where
  "type_status ErrTypeInvalidRequestError = 400"
| "type_status ErrTypeInvalidAPIKey = 401"
| "type_status ErrTypePermissionError = 403"
| "type_status ErrTypeRateLimitError = 429"
| "type_status ErrTypeServerError = 500"
| "type_status ErrTypeServiceUnavailable = 503"
| "type_status _ = 500"

definition HTTPStatus :: "gateway_error \<Rightarrow> int" where
  "HTTPStatus e =
     (case code_status (ge_Code e) of Some s \<Rightarrow> s | None \<Rightarrow> type_status (ge_Type e))"

text \<open>\<open>JSON\<close>: the status and the body it writes.\<close>

definition error_JSON :: "gateway_error \<Rightarrow> int \<times> error_response" where
  "error_JSON e = (HTTPStatus e, ToErrorResponse e)"

definition InvalidAPIKey :: "string \<Rightarrow> gateway_error" where
  "InvalidAPIKey m = NewError m ErrTypeInvalidAPIKey ErrCodeInvalidAPIKey"
definition MissingAPIKey :: "string \<Rightarrow> gateway_error" where
  "MissingAPIKey m = NewError m ErrTypeInvalidAPIKey ErrCodeMissingAPIKey"
definition KeyExpired :: "string \<Rightarrow> gateway_error" where
  "KeyExpired m = NewError m ErrTypeInvalidAPIKey ErrCodeKeyExpired"
definition KeyDisabled :: "string \<Rightarrow> gateway_error" where
  "KeyDisabled m = NewError m ErrTypePermissionError ErrCodeKeyDisabled"
definition RateLimitExceeded :: "string \<Rightarrow> gateway_error" where
  "RateLimitExceeded m = NewError m ErrTypeRateLimitError ErrCodeRateLimitExceeded"
definition QuotaExceeded :: "string \<Rightarrow> gateway_error" where
  "QuotaExceeded m = NewError m ErrTypeRateLimitError ErrCodeQuotaExceeded"
definition InvalidRequest :: "string \<Rightarrow> gateway_error" where
  "InvalidRequest m = NewError m ErrTypeInvalidRequestError ErrCodeInvalidRequest"
definition MaxTokensExceeded :: "string \<Rightarrow> gateway_error" where
  "MaxTokensExceeded m = NewError m ErrTypeInvalidRequestError ErrCodeMaxTokensExceeded"
definition RequestTooLarge :: "string \<Rightarrow> gateway_error" where
  "RequestTooLarge m = NewError m ErrTypeInvalidRequestError ErrCodeRequestTooLarge"
definition InvalidModel :: "string \<Rightarrow> gateway_error" where
  "InvalidModel m = NewError m ErrTypeInvalidRequestError ErrCodeInvalidModel"
definition InternalError :: "string \<Rightarrow> gateway_error" where
  "InternalError m = NewError m ErrTypeServerError ErrCodeInternalError"
definition ProviderError :: "string \<Rightarrow> gateway_error" where
  "ProviderError m = NewError m ErrTypeServerError ErrCodeProviderError"
definition BadGateway :: "string \<Rightarrow> gateway_error" where
  "BadGateway m = NewError m ErrTypeServerError ErrCodeBadGateway"
definition ModelOverloaded :: "string \<Rightarrow> gateway_error" where
  "ModelOverloaded m = NewError m ErrTypeServiceUnavailable ErrCodeModelOverloaded"
definition ModelNotAvailable :: "string \<Rightarrow> gateway_error" where
  "ModelNotAvailable m = NewError m ErrTypeServiceUnavailable ErrCodeModelNotAvailable"
definition ServiceUnavailable :: "string \<Rightarrow> gateway_error" where
  "ServiceUnavailable m = NewError m ErrTypeServiceUnavailable ErrCodeServiceUnavailable"
definition CircuitOpen :: "string \<Rightarrow> gateway_error" where
  "CircuitOpen m = NewError m ErrTypeServiceUnavailable ErrCodeCircuitOpen"
definition CacheError :: "string \<Rightarrow> gateway_error" where
  "CacheError m = NewError m ErrTypeServerError ErrCodeCacheError"

lemmas error_constructors =
  InvalidAPIKey_def MissingAPIKey_def KeyExpired_def KeyDisabled_def RateLimitExceeded_def
  QuotaExceeded_def InvalidRequest_def MaxTokensExceeded_def RequestTooLarge_def
  InvalidModel_def InternalError_def ProviderError_def BadGateway_def ModelOverloaded_def
  ModelNotAvailable_def ServiceUnavailable_def CircuitOpen_def CacheError_def NewError_def

text \<open>The statuses and messages of the constructors, for the simplifier.\<close>

lemma constructor_status [simp]:
  "HTTPStatus (InvalidAPIKey m) = 401" "HTTPStatus (MissingAPIKey m) = 401"
  "HTTPStatus (KeyExpired m) = 401" "HTTPStatus (KeyDisabled m) = 403"
  "HTTPStatus (RateLimitExceeded m) = 429" "HTTPStatus (QuotaExceeded m) = 429"
  "HTTPStatus (InvalidRequest m) = 400" "HTTPStatus (MaxTokensExceeded m) = 400"
  "HTTPStatus (RequestTooLarge m) = 400" "HTTPStatus (InvalidModel m) = 400"
  "HTTPStatus (InternalError m) = 500" "HTTPStatus (ProviderError m) = 500"
  "HTTPStatus (BadGateway m) = 502" "HTTPStatus (ModelOverloaded m) = 503"
  "HTTPStatus (ModelNotAvailable m) = 503" "HTTPStatus (ServiceUnavailable m) = 503"
  "HTTPStatus (CircuitOpen m) = 503" "HTTPStatus (CacheError m) = 500"
  by (simp_all add: HTTPStatus_def error_constructors)

lemma HTTPStatus_range: "HTTPStatus e \<in> {400, 401, 403, 429, 500, 502, 503}"
  by (cases "ge_Code e"; cases "ge_Type e") (simp_all add: HTTPStatus_def)

end
