(* ===== verification/ChatCore.thy ===== *)
theory ChatCore
  imports HttpProvider EmbeddingWorker L1Cache Workflow GatewayErrors
begin

text \<open>
  The pieces of \<open>internal/handler/chat.go\<close>: the request and response types with their
  conversions, the validation, the routing policy of workflow phases, the mapping of upstream
  errors, the streaming of a response and the semantic prompt.  The cached and the handler's
  response have the same JSON, so the handler's encoding is that of the cache.
\<close>

section \<open>Types\<close>

record chat_message =
  hm_Role :: string
  hm_Content :: string
  hm_Name :: string

text \<open>\<open>Stop\<close> is None for a nil slice, which is encoded differently in the cache key.\<close>

record chat_request =
  hr_Model :: string
  hr_Messages :: "chat_message list"
  hr_Temperature :: f64
  hr_MaxTokens :: int
  hr_TopP :: f64
  hr_Stream :: bool
  hr_Stop :: "string list option"

record chat_choice =
  hc_Index :: int
  hc_Message :: chat_message
  hc_FinishReason :: string

record chat_usage =
  hu_PromptTokens :: int
  hu_CompletionTokens :: int
  hu_TotalTokens :: int

record chat_response =
  hs_ID :: string
  hs_Object :: string
  hs_Created :: int
  hs_Model :: string
  hs_Choices :: "chat_choice list"
  hs_Usage :: chat_usage

definition chat_request_zero :: chat_request where
  "chat_request_zero = \<lparr>hr_Model = '''', hr_Messages = [], hr_Temperature = 0, hr_MaxTokens = 0, hr_TopP = 0,
     hr_Stream = False, hr_Stop = None\<rparr>"

definition dec_chat_message :: "chat_message dec" where
  "dec_chat_message = dec_struct
     [(''role'', dec_into hm_Role hm_Role_update dec_string),
      (''content'', dec_into hm_Content hm_Content_update dec_string),
      (''name'', dec_into hm_Name hm_Name_update dec_string)]"

definition dec_stop :: "string list option dec" where
  "dec_stop j old =
     (case j of JNull \<Rightarrow> Some None | _ \<Rightarrow> map_option Some (dec_slice dec_string '''' j []))"

definition chat_request_fields :: "(string \<times> chat_request dec) list" where
  "chat_request_fields =
     [(''model'', dec_into hr_Model hr_Model_update dec_string),
      (''messages'', dec_into hr_Messages hr_Messages_update
         (dec_slice dec_chat_message \<lparr>hm_Role = '''', hm_Content = '''', hm_Name = ''''\<rparr>)),
      (''temperature'', dec_into hr_Temperature hr_Temperature_update dec_float),
      (''max_tokens'', dec_into hr_MaxTokens hr_MaxTokens_update dec_int),
      (''top_p'', dec_into hr_TopP hr_TopP_update dec_float),
      (''stream'', dec_into hr_Stream hr_Stream_update dec_bool),
      (''stop'', dec_into hr_Stop hr_Stop_update dec_stop)]"

definition dec_chat_request :: "chat_request dec" where
  "dec_chat_request = dec_struct chat_request_fields"

section \<open>Conversions\<close>

definition toProviderMessage :: "chat_message \<Rightarrow> prov_message" where
  "toProviderMessage m = \<lparr>pm_Role = hm_Role m, pm_Content = hm_Content m, pm_Name = hm_Name m\<rparr>"

definition toProviderRequest :: "chat_request \<Rightarrow> prov_request" where
  "toProviderRequest q =
     \<lparr>pr_Model = hr_Model q, pr_Messages = map toProviderMessage (hr_Messages q),
      pr_Temperature = hr_Temperature q, pr_MaxTokens = hr_MaxTokens q, pr_TopP = hr_TopP q,
      pr_Stream = hr_Stream q, pr_Stop = (case hr_Stop q of None \<Rightarrow> [] | Some s \<Rightarrow> s)\<rparr>"

definition toHandlerResponse :: "prov_response \<Rightarrow> chat_response" where
  "toHandlerResponse r =
     \<lparr>hs_ID = ps_ID r, hs_Object = ps_Object r, hs_Created = ps_Created r, hs_Model = ps_Model r,
      hs_Choices = map (\<lambda>c. \<lparr>hc_Index = pc_Index c,
         hc_Message = \<lparr>hm_Role = pm_Role (pc_Message c), hm_Content = pm_Content (pc_Message c),
           hm_Name = pm_Name (pc_Message c)\<rparr>,
         hc_FinishReason = pc_FinishReason c\<rparr>) (ps_Choices r),
      hs_Usage = \<lparr>hu_PromptTokens = pu_PromptTokens (ps_Usage r),
        hu_CompletionTokens = pu_CompletionTokens (ps_Usage r), hu_TotalTokens = pu_TotalTokens (ps_Usage r)\<rparr>\<rparr>"

definition toCacheMessages :: "chat_message list \<Rightarrow> cache_message list" where
  "toCacheMessages ms = map (\<lambda>m. \<lparr>cm_Role = hm_Role m, cm_Content = hm_Content m, cm_Name = hm_Name m\<rparr>) ms"

definition toCacheResponse :: "chat_response \<Rightarrow> cache_response" where
  "toCacheResponse r =
     \<lparr>cs_ID = hs_ID r, cs_Object = hs_Object r, cs_Created = hs_Created r, cs_Model = hs_Model r,
      cs_Choices = map (\<lambda>c. \<lparr>cx_Index = hc_Index c,
         cx_Message = \<lparr>cm_Role = hm_Role (hc_Message c), cm_Content = hm_Content (hc_Message c),
           cm_Name = hm_Name (hc_Message c)\<rparr>,
         cx_FinishReason = hc_FinishReason c\<rparr>) (hs_Choices r),
      cs_Usage = \<lparr>cu_PromptTokens = hu_PromptTokens (hs_Usage r),
        cu_CompletionTokens = hu_CompletionTokens (hs_Usage r), cu_TotalTokens = hu_TotalTokens (hs_Usage r)\<rparr>\<rparr>"

definition toChatResponse :: "cache_response \<Rightarrow> chat_response" where
  "toChatResponse r =
     \<lparr>hs_ID = cs_ID r, hs_Object = cs_Object r, hs_Created = cs_Created r, hs_Model = cs_Model r,
      hs_Choices = map (\<lambda>c. \<lparr>hc_Index = cx_Index c,
         hc_Message = \<lparr>hm_Role = cm_Role (cx_Message c), hm_Content = cm_Content (cx_Message c),
           hm_Name = cm_Name (cx_Message c)\<rparr>,
         hc_FinishReason = cx_FinishReason c\<rparr>) (cs_Choices r),
      hs_Usage = \<lparr>hu_PromptTokens = cu_PromptTokens (cs_Usage r),
        hu_CompletionTokens = cu_CompletionTokens (cs_Usage r), hu_TotalTokens = cu_TotalTokens (cs_Usage r)\<rparr>\<rparr>"

lemma toChat_toCache [simp]: "toChatResponse (toCacheResponse r) = r"
  by (cases r) (simp add: toChatResponse_def toCacheResponse_def comp_def map_idI)

text \<open>The handler's response as JSON, and back.\<close>

definition marshal_chat :: "chat_response \<Rightarrow> string" where
  "marshal_chat r = Marshal (toCacheResponse r)"

definition unmarshal_chat :: "string \<Rightarrow> chat_response option" where
  "unmarshal_chat data = map_option toChatResponse (UnmarshalChatResponse data)"

section \<open>The cache key\<close>

definition chat_params :: "chat_request \<Rightarrow> (string \<times> go_any) list" where
  "chat_params q =
     [(''temperature'', AFloat (hr_Temperature q)), (''max_tokens'', AInt (hr_MaxTokens q)),
      (''top_p'', AFloat (hr_TopP q)), (''stop'', AStrings (hr_Stop q))]"

definition chat_key :: "chat_request \<Rightarrow> string" where
  "chat_key q = GenerateCacheKey (hr_Model q) (toCacheMessages (hr_Messages q)) (chat_params q)"

section \<open>Validation\<close>

fun validate_messages :: "nat \<Rightarrow> chat_message list \<Rightarrow> string option" where
  "validate_messages i [] = None"
| "validate_messages i (m # ms) =
     (if trim_space (hm_Role m) = '''' then Some (''messages['' @ itoa (int i) @ ''].role is required'')
      else if trim_space (hm_Content m) = '''' then Some (''messages['' @ itoa (int i) @ ''].content is required'')
      else if hm_Role m \<notin> {''system'', ''user'', ''assistant'', ''tool''}
      then Some (''messages['' @ itoa (int i) @ ''].role is invalid'')
      else validate_messages (Suc i) ms)"

text \<open>None is a nil error.\<close>

definition validateChatRequest :: "chat_request \<Rightarrow> string option" where
  "validateChatRequest q =
     (if trim_space (hr_Model q) = '''' then Some ''model is required''
      else if hr_Messages q = [] then Some ''messages are required''
      else
        (case validate_messages 0 (hr_Messages q) of
           Some e \<Rightarrow> Some e
         | None \<Rightarrow>
             if hr_Temperature q < 0 \<or> Fin 2 < hr_Temperature q then Some ''temperature must be between 0 and 2''
             else if hr_TopP q < 0 \<or> 1 < hr_TopP q then Some ''top_p must be between 0 and 1''
             else if hr_MaxTokens q < 0 then Some ''max_tokens must be greater than or equal to 0''
             else if 4 < length (case hr_Stop q of None \<Rightarrow> [] | Some s \<Rightarrow> s)
             then Some ''stop must contain at most 4 sequences''
             else None))"

section \<open>Workflow headers and routing policy\<close>

record workflow_context =
  wx_TraceID :: string
  wx_SessionID :: string
  wx_StepID :: string
  wx_StepType :: string
  wx_Tool :: string

definition normalizeWorkflowStepType :: "string \<Rightarrow> string" where
  "normalizeWorkflowStepType raw =
     (let stepType = to_lower (trim_space raw)
      in if stepType \<in> {''planning'', ''execution'', ''summarization''} then stepType else '''')"

definition extractWorkflowRequestContext :: "(string \<Rightarrow> string) \<Rightarrow> workflow_context" where
  "extractWorkflowRequestContext header =
     \<lparr>wx_TraceID = trim_space (header ''X-Workflow-Trace-Id''),
      wx_SessionID = trim_space (header ''X-Workflow-Session''),
      wx_StepID = trim_space (header ''X-Workflow-Step''),
      wx_StepType = normalizeWorkflowStepType (header ''X-Workflow-Phase''),
      wx_Tool = trim_space (header ''X-Workflow-Tool'')\<rparr>"

definition applyWorkflowRoutePolicy :: "config \<Rightarrow> string \<Rightarrow> chat_request \<Rightarrow> chat_request" where
  "applyWorkflowRoutePolicy cfg step q =
     (let stepType = normalizeWorkflowStepType step
      in if stepType = '''' then q
         else
           (case wc_RoutePolicies (cfg_Workflow cfg) of
              None \<Rightarrow> q
            | Some policies \<Rightarrow>
                (case policies stepType of
                   None \<Rightarrow> q
                 | Some model \<Rightarrow>
                     if trim_space model = '''' then q else q\<lparr>hr_Model := trim_space model\<rparr>)))"

definition routedModelOrRequest :: "string \<Rightarrow> string \<Rightarrow> string" where
  "routedModelOrRequest routedModel requestModel =
     (if trim_space routedModel \<noteq> '''' then routedModel else requestModel)"

section \<open>Upstream errors\<close>

definition mapUpstreamError :: "upstream_error option \<Rightarrow> gateway_error" where
  "mapUpstreamError err =
     (let message = (case err of Some e \<Rightarrow> if ue_Message e \<noteq> '''' then ue_Message e else ''upstream provider error''
                     | None \<Rightarrow> ''upstream provider error'')
      in case err of
           None \<Rightarrow> ProviderError message
         | Some e \<Rightarrow>
             let code = ue_StatusCode e in
             if code = 400 then InvalidRequest message
             else if code = 401 then InvalidAPIKey message
             else if code = 403 then KeyDisabled message
             else if code = 429 then RateLimitExceeded message
             else if code = 502 then BadGateway message
             else if code = 503 then
               if contains (to_lower message) ''circuit-open'' then CircuitOpen message else ModelOverloaded message
             else if code = 504 then ServiceUnavailable message
             else if code \<ge> 500 then ProviderError message
             else InternalError message)"

definition forwardToProvider ::
  "'w sys \<Rightarrow> 'w registry option \<Rightarrow> chat_request \<Rightarrow> 'w
    \<Rightarrow> (gateway_error + chat_response \<times> string) \<times> 'w registry option \<times> 'w" where
  "forwardToProvider sys rp q w =
     (case rp of
        None \<Rightarrow> (Inl (ServiceUnavailable ''provider registry is not initialized''), None, w)
      | Some _ \<Rightarrow>
          (case registry_ChatCompletion sys rp (toProviderRequest q) w of
             (Inl e, rp, w) \<Rightarrow> (Inl (mapUpstreamError (Some e)), rp, w)
           | (Inr resp, rp, w) \<Rightarrow> (Inr (toHandlerResponse resp, trim_space (ps_Provider resp)), rp, w)))"

section \<open>Streaming\<close>

text \<open>The server-sent events: a message carries the delta's content.\<close>

datatype sse_event = SseMessage string | SseDone

text \<open>The slices \<open>content[i:end]\<close> of the loop: chunks of 20 bytes, the last one shorter.\<close>

function chunks :: "string \<Rightarrow> string list" where
  "chunks s = (if s = [] then [] else take 20 s # chunks (drop 20 s))"
  by pat_completeness auto

termination
  by (relation "measure length") auto

declare chunks.simps [simp del]

definition stream_events :: "chat_response option \<Rightarrow> sse_event list" where
  "stream_events resp =
     (case resp of
        None \<Rightarrow> [SseDone]
      | Some r \<Rightarrow>
          (case hs_Choices r of
             [] \<Rightarrow> [SseDone]
           | c # _ \<Rightarrow> map SseMessage (chunks (hm_Content (hc_Message c))) @ [SseDone]))"

section \<open>The semantic prompt\<close>

definition prompt_line :: "chat_message \<Rightarrow> string" where
  "prompt_line m =
     (let role = trim_space (hm_Role m); content = trim_space (hm_Content m)
      in if role = '''' \<and> content = '''' then ''''
         else (if role = '''' then ''unknown'' else role) @ '': '' @ content @ [CHR 0x0A])"

definition buildSemanticPrompt :: "chat_message list \<Rightarrow> string" where
  "buildSemanticPrompt ms = (if ms = [] then '''' else trim_space (concat (map prompt_line ms)))"

text \<open>The error of \<open>fetchSemanticVector\<close> is its text.\<close>

definition fetchSemanticVector ::
  "'w http_ops \<Rightarrow> (string \<Rightarrow> string) \<Rightarrow> worker_client option \<Rightarrow> chat_message list \<Rightarrow> 'w
    \<Rightarrow> (string + f64 list) \<times> 'w" where
  "fetchSemanticVector http err wk ms w =
     (case wk of
        None \<Rightarrow> (Inl ''embedding worker is not configured'', w)
      | Some _ \<Rightarrow>
          let prompt = buildSemanticPrompt ms
          in if trim_space prompt = '''' then (Inl ''semantic prompt is empty'', w)
             else
               (case Generate http err wk \<lparr>wq_Input = JStr prompt, wq_Model = ''text-embedding-ada-002''\<rparr> w of
                  (Inl e, w) \<Rightarrow>
                    (case e of
                       Some _ \<Rightarrow> (Inl (WorkerError_Error e), w)
                     | None \<Rightarrow> (Inl ''embedding vector is empty'', w))
                | (Inr resp, w) \<Rightarrow>
                    (case wr_Data resp of
                       [] \<Rightarrow> (Inl ''embedding vector is empty'', w)
                     | d # _ \<Rightarrow>
                         if de_Embedding d = [] then (Inl ''embedding vector is empty'', w)
                         else (Inr (de_Embedding d), w))))"

section \<open>Properties\<close>

lemma chunks_Nil [simp]: "chunks [] = []"
  by (simp add: chunks.simps)

lemma chunks_step: "s \<noteq> [] \<Longrightarrow> chunks s = take 20 s # chunks (drop 20 s)"
  by (simp add: chunks.simps)

lemma chunks_eq_Nil [simp]: "chunks s = [] \<longleftrightarrow> s = []"
  by (subst chunks.simps) simp

lemma concat_chunks: "concat (chunks s) = s"
proof (induction s rule: chunks.induct)
  case (1 s)
  then show ?case by (cases "s = []") (simp_all add: chunks_step)
qed

lemma chunks_lengths: "s \<noteq> [] \<Longrightarrow> list_all (\<lambda>c. length c = 20) (butlast (chunks s)) \<and> 1 \<le> length (List.last (chunks s))
    \<and> length (List.last (chunks s)) \<le> 20"
proof (induction s rule: chunks.induct)
  case (1 s)
  show ?case
  proof (cases "drop 20 s = []")
    case True
    then show ?thesis using "1.prems" by (cases s) (simp_all add: chunks_step)
  next
    case False
    then show ?thesis using "1.IH" [OF "1.prems" False] "1.prems" by (simp add: chunks_step)
  qed
qed


lemma constructor_fields [simp]:
  "ge_Message (InvalidRequest m) = m" "ge_Message (InvalidAPIKey m) = m" "ge_Message (KeyDisabled m) = m"
  "ge_Message (RateLimitExceeded m) = m" "ge_Message (BadGateway m) = m" "ge_Message (CircuitOpen m) = m"
  "ge_Message (ModelOverloaded m) = m" "ge_Message (ServiceUnavailable m) = m"
  "ge_Message (ProviderError m) = m" "ge_Message (InternalError m) = m"
  "ge_Code (InvalidRequest m) = ErrCodeInvalidRequest" "ge_Code (InvalidAPIKey m) = ErrCodeInvalidAPIKey"
  "ge_Code (KeyDisabled m) = ErrCodeKeyDisabled" "ge_Code (RateLimitExceeded m) = ErrCodeRateLimitExceeded"
  "ge_Code (BadGateway m) = ErrCodeBadGateway" "ge_Code (CircuitOpen m) = ErrCodeCircuitOpen"
  "ge_Code (ModelOverloaded m) = ErrCodeModelOverloaded"
  "ge_Code (ServiceUnavailable m) = ErrCodeServiceUnavailable"
  "ge_Code (ProviderError m) = ErrCodeProviderError" "ge_Code (InternalError m) = ErrCodeInternalError"
  by (simp_all add: error_constructors)

text \<open>
  What a client sees of an upstream failure: the statuses 400, 401, 403, 429, 502 and
  503 are passed on, 504 becomes 503, and everything else becomes 500; the upstream's message
  is passed on unless it is empty, and the code is \<open>circuit_open\<close> exactly for a 503 whose
  message speaks of an open circuit.
\<close>
lemma mapUpstreamError_table:
  "let g = mapUpstreamError (Some e); c = ue_StatusCode e in
   HTTPStatus g = (if c \<in> {400, 401, 403, 429, 502, 503} then c else if c = 504 then 503 else 500) \<and>
   ge_Message g = (if ue_Message e = '''' then ''upstream provider error'' else ue_Message e) \<and>
   (ge_Code g = ErrCodeCircuitOpen \<longleftrightarrow> c = 503 \<and> contains (to_lower (ge_Message g)) ''circuit-open'')"
proof -
  have "\<not> contains (to_lower ''upstream provider error'') ''circuit-open''" by code_simp
  then show ?thesis by (simp add: mapUpstreamError_def Let_def)
qed

definition message_valid :: "chat_message \<Rightarrow> bool" where
  "message_valid m \<longleftrightarrow> trim_space (hm_Role m) \<noteq> '''' \<and> trim_space (hm_Content m) \<noteq> '''' \<and>
     hm_Role m \<in> {''system'', ''user'', ''assistant'', ''tool''}"

lemma validate_messages_ok: "validate_messages i ms = None \<longleftrightarrow> list_all message_valid ms"
  by (induction ms arbitrary: i) (simp_all add: message_valid_def)

lemma validate_messages_first:
  "\<not> list_all message_valid ms \<Longrightarrow> \<exists>k < length ms. list_all message_valid (take k ms) \<and> \<not> message_valid (ms ! k) \<and>
     (\<exists>what. validate_messages i ms = Some (''messages['' @ itoa (int (i + k)) @ ''].'' @ what))"
proof (induction ms arbitrary: i)
  case (Cons m ms)
  show ?case
  proof (cases "message_valid m")
    case True
    then have "\<not> list_all message_valid ms" using Cons.prems by simp
    from Cons.IH [OF this, of "Suc i"] obtain k what where "k < length ms" "list_all message_valid (take k ms)"
      "\<not> message_valid (ms ! k)"
      "validate_messages (Suc i) ms = Some (''messages['' @ itoa (int (Suc i + k)) @ ''].'' @ what)" by auto
    moreover have "validate_messages i (m # ms) = validate_messages (Suc i) ms"
      using True by (simp add: message_valid_def)
    ultimately show ?thesis using True by (intro exI [of _ "Suc k"]) simp
  next
    case False
    then show ?thesis by (intro exI [of _ 0]) (auto simp: message_valid_def)
  qed
qed simp

text \<open>What a Go value of the request type is, once its strings are UTF-8.\<close>

definition valid_request :: "chat_request \<Rightarrow> bool" where
  "valid_request q \<longleftrightarrow> valid_utf8 (hr_Model q) \<and> list_all valid_message (toCacheMessages (hr_Messages q)) \<and>
     f64_wf (hr_Temperature q) \<and> int64_ok (hr_MaxTokens q) \<and> f64_wf (hr_TopP q) \<and>
     (case hr_Stop q of None \<Rightarrow> True | Some ss \<Rightarrow> list_all valid_utf8 ss)"

definition chat_payload :: "chat_request \<Rightarrow> string option" where
  "chat_payload q = key_payload (hr_Model q) (toCacheMessages (hr_Messages q)) (chat_params q)"

lemma params_sorted:
  "sort_key fst (chat_params q) =
     [(''max_tokens'', AInt (hr_MaxTokens q)), (''stop'', AStrings (hr_Stop q)),
      (''temperature'', AFloat (hr_Temperature q)), (''top_p'', AFloat (hr_TopP q))]"
  by (simp add: chat_params_def)

definition stop_json :: "string list option \<Rightarrow> json" where
  "stop_json ss = (case ss of None \<Rightarrow> JNull | Some ss \<Rightarrow> JArr (map JStr ss))"

definition payload_json :: "chat_request \<Rightarrow> string \<Rightarrow> string \<Rightarrow> json" where
  "payload_json q t p = JObj
     [(''model'', JStr (hr_Model q)), (''messages'', JArr (map message_json (toCacheMessages (hr_Messages q)))),
      (''params'', JObj [(''max_tokens'', JInt (hr_MaxTokens q)), (''stop'', stop_json (hr_Stop q)),
         (''temperature'', JNum t), (''top_p'', JNum p)])]"

lemma chat_payload_json:
  assumes "float_literal (hr_Temperature q) = Some t" and "float_literal (hr_TopP q) = Some p"
  shows "chat_payload q = Some (render (payload_json q t p))"
  using assms
  by (cases "hr_Stop q")
    (simp_all add: chat_payload_def key_payload_def map_json_def params_sorted payload_json_def stop_json_def)

lemma payload_json_ok:
  assumes "valid_request q" and "num_ok t" and "num_ok p"
  shows "json_parse (render (payload_json q t p)) = Some (payload_json q t p)"
proof (rule json_roundtrip)
  have msgs: "list_all json_ok (map message_json (toCacheMessages (hr_Messages q)))"
    using assms(1) by (auto simp: valid_request_def list_all_iff)
  then show "json_ok (payload_json q t p)"
    using assms by (auto simp: payload_json_def stop_json_def valid_request_def list_all_iff split: option.splits)
  have 1: "json_depth (JArr (map message_json (toCacheMessages (hr_Messages q)))) \<le> 2"
    using depth_JArr_le [of 1 "map message_json (toCacheMessages (hr_Messages q))"]
    by (simp add: list_all_iff del: json_depth.simps)
  have "list_all (\<lambda>j. json_depth j \<le> 0) (map JStr ss)" for ss by (simp add: list_all_iff)
  from depth_JArr_le [OF this] have 2: "json_depth (stop_json (hr_Stop q)) \<le> 1"
    by (cases "hr_Stop q") (simp_all add: stop_json_def del: json_depth.simps(1,2))
  have "json_depth (JObj [(''max_tokens'', JInt (hr_MaxTokens q)), (''stop'', stop_json (hr_Stop q)),
         (''temperature'', JNum t), (''top_p'', JNum p)]) \<le> Suc 1"
    using 2 by (intro depth_JObj_le) simp
  with 1 have "json_depth (payload_json q t p) \<le> Suc 2"
    unfolding payload_json_def by (intro depth_JObj_le) (simp del: json_depth.simps(1,2))
  then show "json_depth (payload_json q t p) \<le> max_depth" by simp
qed

lemma float_text:
  assumes "f64_wf v"
  obtains l where "float_literal v = Some l" "num_ok l"
  using float_roundtrip [OF assms] by (elim exE conjE)

lemma literal_inject:
  assumes "f64_wf x" and "f64_wf y" and "float_literal x = Some l" and "float_literal y = Some l"
  shows "x = y"
  using float_roundtrip [OF assms(1)] float_roundtrip [OF assms(2)] assms(3,4) by simp

lemma map_injective_on: "map f xs = map f ys \<Longrightarrow> (\<And>x y. f x = f y \<Longrightarrow> x = y) \<Longrightarrow> xs = ys"
  by (metis inj_map_eq_map injI)

lemma stop_json_inject [simp]: "stop_json s = stop_json s' \<longleftrightarrow> s = s'"
  by (auto simp: stop_json_def dest: map_injective_on split: option.splits)

lemma JInt_inject: "int64_ok i \<Longrightarrow> int64_ok k \<Longrightarrow> JInt i = JInt k \<Longrightarrow> i = k"
  by (metis dec_int_itoa option.inject)

lemma message_json_inject: "message_json m = message_json m' \<Longrightarrow> m = m'"
  by (metis dec_message_json option.inject)

lemma toCacheMessages_inject: "toCacheMessages ms = toCacheMessages ms' \<Longrightarrow> ms = ms'"
  unfolding toCacheMessages_def by (erule map_injective_on) simp

text \<open>
  Claim C17. The cache key stands for the whole request: two requests have the same payload
  under the hash exactly when they agree in the model, the messages, the temperature, the
  token limit, \<open>top_p\<close> and the stop sequences, so that only the \<open>stream\<close> flag may differ.
\<close>
theorem cache_key_faithful:
  assumes "valid_request q" and "valid_request q'"
  shows "chat_payload q = chat_payload q' \<longleftrightarrow> q' = q\<lparr>hr_Stream := hr_Stream q'\<rparr>"
proof -
  from assms have wf: "f64_wf (hr_Temperature q)" "f64_wf (hr_TopP q)" "f64_wf (hr_Temperature q')" "f64_wf (hr_TopP q')"
    by (simp_all add: valid_request_def)
  obtain t where t: "float_literal (hr_Temperature q) = Some t" "num_ok t" by (rule float_text [OF wf(1)])
  obtain p where p: "float_literal (hr_TopP q) = Some p" "num_ok p" by (rule float_text [OF wf(2)])
  obtain t' where t': "float_literal (hr_Temperature q') = Some t'" "num_ok t'" by (rule float_text [OF wf(3)])
  obtain p' where p': "float_literal (hr_TopP q') = Some p'" "num_ok p'" by (rule float_text [OF wf(4)])
  show ?thesis
  proof
    assume "chat_payload q = chat_payload q'"
    then have "render (payload_json q t p) = render (payload_json q' t' p')"
      unfolding chat_payload_json [OF t(1) p(1)] chat_payload_json [OF t'(1) p'(1)] by (rule option.inject [THEN iffD1])
    then have "payload_json q t p = payload_json q' t' p'"
      by (metis payload_json_ok [OF assms(1) t(2) p(2)] payload_json_ok [OF assms(2) t'(2) p'(2)] option.inject)
    then have eqs: "hr_Model q = hr_Model q'"
      "map message_json (toCacheMessages (hr_Messages q)) = map message_json (toCacheMessages (hr_Messages q'))"
      "JInt (hr_MaxTokens q) = JInt (hr_MaxTokens q')" "hr_Stop q = hr_Stop q'" "t = t'" "p = p'"
      by (simp_all add: payload_json_def)
    have "hr_Messages q = hr_Messages q'"
      by (rule toCacheMessages_inject [OF map_injective_on [OF eqs(2) message_json_inject]])
    moreover have "hr_MaxTokens q = hr_MaxTokens q'"
      using assms eqs(3) JInt_inject by (simp add: valid_request_def)
    moreover have "hr_Temperature q = hr_Temperature q'" "hr_TopP q = hr_TopP q'"
      using literal_inject [OF wf(1,3) t(1)] literal_inject [OF wf(2,4) p(1)] t'(1) p'(1) eqs(5,6) by simp_all
    ultimately show "q' = q\<lparr>hr_Stream := hr_Stream q'\<rparr>" using eqs by simp
  next
    assume "q' = q\<lparr>hr_Stream := hr_Stream q'\<rparr>"
    then have "hr_Model q' = hr_Model q" "hr_Messages q' = hr_Messages q" "chat_params q' = chat_params q"
      by (cases q; cases q'; simp add: chat_params_def)+
    then show "chat_payload q = chat_payload q'" by (simp add: chat_payload_def)
  qed
qed

definition ex_chat_request :: chat_request where
  "ex_chat_request = chat_request_zero\<lparr>hr_Model := ''gpt-4'',
     hr_Messages := [\<lparr>hm_Role = ''user'', hm_Content = ''hi'', hm_Name = ''''\<rparr>]\<rparr>"

theorem cache_key_faithful_witness:
  "chat_payload ex_chat_request = chat_payload (ex_chat_request\<lparr>hr_Stream := True\<rparr>) \<and>
   chat_payload ex_chat_request \<noteq> chat_payload (ex_chat_request\<lparr>hr_MaxTokens := 5\<rparr>)"
proof -
  have "rnd 0 = Fin 0" by (simp add: rnd_def)
  then have wf: "f64_wf 0" by (simp add: f64_wf_def zero_f64_def)
  have ok: "valid_request (ex_chat_request\<lparr>hr_Stream := b, hr_MaxTokens := n\<rparr>)" if "int64_ok n" for b n
    using wf that by (simp add: valid_request_def ex_chat_request_def chat_request_zero_def toCacheMessages_def
        valid_message_def)
  have "int64_ok 0" "int64_ok 5" by (simp_all add: int64_ok_def)
  note ok = ok [OF this(1)] ok [OF this(2)]
  show ?thesis
    using cache_key_faithful [OF ok(1) ok(1), of False True] cache_key_faithful [OF ok(1) ok(2), of False False]
    by (simp add: ex_chat_request_def chat_request_zero_def)
qed

end
