(* ===== verification/Auth.thy ===== *)
theory Auth
  imports Redis Sha256 GatewayErrors
begin

text \<open>
  \<open>internal/middleware/auth.go\<close>: the check of the API key against the metadata in Redis, and
  the CORS headers.  A middleware returns the error it aborts with, or the context values it
  sets before the next handler runs.  Gin's logger and recovery handlers are the library's.
\<close>

definition hashAPIKey :: "string \<Rightarrow> string" where
  "hashAPIKey apiKey = sha256_hex apiKey"

text \<open>A failed command counts as a miss: the error result of the function is never used.\<close>

definition checkAPIKey ::
  "'w redis_client \<Rightarrow> string \<Rightarrow> 'w \<Rightarrow> (string + (string \<times> string) list option) \<times> 'w" where
  "checkAPIKey redisClient keyHash w =
     (case redis_HGetAll redisClient (''api_key:'' @ keyHash) w of
        (Inr cached, w) \<Rightarrow> (if cached \<noteq> [] then (Inr (Some cached), w) else (Inr None, w))
      | (Inl _, w) \<Rightarrow> (Inr None, w))"

text \<open>A Go map read without the second result: the empty string for a missing key.\<close>

definition field0 :: "(string \<rightharpoonup> string) \<Rightarrow> string \<Rightarrow> string" where
  "field0 m k = (case m k of Some v \<Rightarrow> v | None \<Rightarrow> '''')"

definition key_context :: "(string \<rightharpoonup> string) \<Rightarrow> (string \<times> string) list" where
  "key_context info =
     [(''api_key_id'', field0 info ''id''), (''api_key_name'', field0 info ''name''),
      (''api_key_rate_limit'', field0 info ''rate_limit'')]"

definition APIKeyAuth ::
  "'w redis_client option \<Rightarrow> (string \<Rightarrow> string) \<Rightarrow> 'w
    \<Rightarrow> (gateway_error + (string \<times> string) list) \<times> 'w" where
  "APIKeyAuth redisClient header w =
     (case redisClient of
        None \<Rightarrow> (Inr [], w)
      | Some r \<Rightarrow>
          let authHeader = header ''Authorization'';
              parts = split_once (CHR 0x20) authHeader
          in if authHeader = '''' then (Inl (MissingAPIKey ''Missing authorization header''), w)
             else if length parts \<noteq> 2 \<or> parts ! 0 \<noteq> ''Bearer''
             then (Inl (InvalidAPIKey ''Invalid authorization header format''), w)
             else
               (case checkAPIKey r (hashAPIKey (parts ! 1)) w of
                  (Inl _, w) \<Rightarrow> (Inl (InternalError ''Internal server error''), w)
                | (Inr None, w) \<Rightarrow> (Inl (InvalidAPIKey ''Invalid API key''), w)
                | (Inr (Some keyInfo), w) \<Rightarrow> (Inr (key_context (map_of keyInfo)), w)))"

text \<open>\<open>CORS\<close>: the headers it sets, and the status it aborts a preflight request with.\<close>

definition CORS :: "string \<Rightarrow> (string \<times> string) list \<times> int option" where
  "CORS req_method =
     ([(''Access-Control-Allow-Origin'', ''*''),
       (''Access-Control-Allow-Methods'', ''GET, POST, PUT, DELETE, OPTIONS''),
       (''Access-Control-Allow-Headers'', ''Content-Type, Authorization'')],
      if req_method = ''OPTIONS'' then Some 204 else None)"

section \<open>Who gets in\<close>

text \<open>The Redis key that holds the metadata of an API key.\<close>

definition metadata_key :: "string \<Rightarrow> string" where
  "metadata_key key = ''api_key:'' @ hashAPIKey key"

lemma bearer_parts:
  "length (split_once (CHR 0x20) s) = 2 \<and> split_once (CHR 0x20) s ! 0 = ''Bearer'' \<longleftrightarrow>
   (\<exists>key. s = ''Bearer '' @ key)"
proof
  assume "length (split_once (CHR 0x20) s) = 2 \<and> split_once (CHR 0x20) s ! 0 = ''Bearer''"
  then show "\<exists>key. s = ''Bearer '' @ key"
    using split_once_cases [of "CHR 0x20" s] by auto
next
  assume "\<exists>key. s = ''Bearer '' @ key"
  then obtain key where "s = ''Bearer'' @ CHR 0x20 # key" by auto
  then show "length (split_once (CHR 0x20) s) = 2 \<and> split_once (CHR 0x20) s ! 0 = ''Bearer''"
    using split_once_in [of "CHR 0x20" "''Bearer''" key] by simp
qed

lemma split_once_bearer: "split_once (CHR 0x20) (''Bearer '' @ key) = [''Bearer'', key]"
  using split_once_in [of "CHR 0x20" "''Bearer''" key] by simp

text \<open>The three ways a request with a Redis client goes.\<close>

lemma APIKeyAuth_cases:
  "APIKeyAuth (Some r) header w =
     (if header ''Authorization'' = '''' then (Inl (MissingAPIKey ''Missing authorization header''), w)
      else if \<nexists>key. header ''Authorization'' = ''Bearer '' @ key
      then (Inl (InvalidAPIKey ''Invalid authorization header format''), w)
      else
        (case redis_HGetAll r (metadata_key (drop 7 (header ''Authorization''))) w of
           (Inr (kv # kvs), w) \<Rightarrow> (Inr (key_context (map_of (kv # kvs))), w)
         | (_, w) \<Rightarrow> (Inl (InvalidAPIKey ''Invalid API key''), w)))"
proof (cases "\<exists>key. header ''Authorization'' = ''Bearer '' @ key")
  case True
  then obtain key where "header ''Authorization'' = ''Bearer '' @ key" by blast
  then show ?thesis
    using split_once_bearer [of key]
    by (auto simp: APIKeyAuth_def checkAPIKey_def metadata_key_def Let_def
        split: prod.split sum.split list.split)
next
  case False
  then show ?thesis
    using bearer_parts [of "header ''Authorization''"] by (auto simp: APIKeyAuth_def Let_def)
qed

text \<open>
  Claim C21. Over a Redis server, the middleware admits a request exactly when its header is
  \<open>Bearer\<close>, a space and a key whose SHA-256 hash names a non-empty hash in Redis and the read
  succeeds, and then sets the context from that hash; any other request is answered with
  status 401.  The stored hashes never change.
\<close>
theorem APIKeyAuth_admits:
  assumes "hash_laws (rc_client r) H" and "APIKeyAuth (Some r) header w = (res, w')"
  shows "H w' = H w \<and>
    (case res of
       Inr ctx \<Rightarrow>
         \<exists>key. header ''Authorization'' = ''Bearer '' @ key \<and>
           H w (metadata_key key) \<noteq> Map.empty \<and> ctx = key_context (H w (metadata_key key))
     | Inl e \<Rightarrow>
         HTTPStatus e = 401 \<and>
         (\<forall>key. header ''Authorization'' = ''Bearer '' @ key \<longrightarrow>
            H w (metadata_key key) = Map.empty \<or> isl (fst (redis_HGetAll r (metadata_key key) w))))"
proof (cases "\<exists>key. header ''Authorization'' = ''Bearer '' @ key")
  case False
  then show ?thesis using assms(2) unfolding APIKeyAuth_cases by (auto split: if_splits)
next
  case True
  then obtain key where key: "header ''Authorization'' = ''Bearer '' @ key" by blast
  obtain rd w1 where rd: "redis_HGetAll r (metadata_key key) w = (rd, w1)" by fastforce
  then have cmd: "rd_HGetAll (rc_client r) (metadata_key key) w = (rd, w1)" by (simp add: redis_HGetAll_def)
  note H = hash_HGetAll [OF assms(1) cmd]
  have res: "(res, w') = (case rd of Inr (kv # kvs) \<Rightarrow> (Inr (key_context (map_of (kv # kvs))), w1)
      | _ \<Rightarrow> (Inl (InvalidAPIKey ''Invalid API key''), w1))"
    using assms(2) rd unfolding APIKeyAuth_cases
    by (simp add: key split: sum.splits list.splits)
  show ?thesis
  proof (cases rd)
    case (Inl e)
    then show ?thesis using res H(1) key rd by simp
  next
    case (Inr kvs)
    then have eq: "map_of kvs = H w (metadata_key key)" using H(2) by blast
    show ?thesis
    proof (cases kvs)
      case Nil
      then show ?thesis using res H(1) key eq Inr by auto
    next
      case (Cons kv more)
      then have "res = Inr (key_context (H w (metadata_key key)))" "w' = w1"
        using res Inr eq by simp_all
      moreover have "H w (metadata_key key) \<noteq> Map.empty"
        using eq Cons by (cases kv) auto
      ultimately show ?thesis using H(1) key by auto
    qed
  qed
qed

text \<open>A server that knows one key.\<close>

definition ex_keys :: mem where
  "ex_keys = put_hash (metadata_key ''sk-1'') [(''id'', ''7''), (''name'', ''ci'')] mem_empty"

theorem APIKeyAuth_admits_witness:
  "\<exists>key. ''Bearer sk-1'' = ''Bearer '' @ key \<and> mem_H ex_keys (metadata_key key) \<noteq> Map.empty \<and>
     fst (APIKeyAuth (Some \<lparr>rc_client = mem_redis\<rparr>) (\<lambda>_. ''Bearer sk-1'') ex_keys) =
       Inr (key_context (mem_H ex_keys (metadata_key key)))"
proof -
  have keys: "mem_hash ex_keys (metadata_key ''sk-1'') = [(''id'', ''7''), (''name'', ''ci'')]"
    by (simp add: ex_keys_def mem_empty_def mem_hash_def put_hash_def)
  have run: "APIKeyAuth (Some \<lparr>rc_client = mem_redis\<rparr>) (\<lambda>_. ''Bearer sk-1'') ex_keys =
      (Inr (key_context [''id'' \<mapsto> ''7'', ''name'' \<mapsto> ''ci'']), ex_keys)"
    using keys by (simp add: APIKeyAuth_cases redis_HGetAll_def mem_redis_def key_context_def field0_def)
  show ?thesis
    using APIKeyAuth_admits [OF _ run, of mem_H] mem_hash_laws run by simp
qed

end
