(* ===== verification/Postgres.thy ===== *)
theory Postgres
  imports Config GoTime Json "HOL-Library.Monad_Syntax"
begin

text \<open>
  \<open>internal/storage/postgres.go\<close>: the PostgreSQL client, its statements and how their rows
  become Go values, and \<open>internal/handler/request_log.go\<close>.  The driver and the server are
  parameters: a handle is a record of the \<open>database/sql\<close> calls the code makes, functions of
  the outside world.
\<close>

section \<open>The database handle\<close>

text \<open>A column as the driver delivers it; \<open>numeric\<close> columns arrive as text.\<close>

datatype sql_value = SNull | SInt int | SFloat f64 | SText string | SBool bool | STime time

text \<open>\<open>NoRows\<close> is \<open>sql.ErrNoRows\<close>, \<open>ScanErr\<close> a row that does not fit its destinations.\<close>

datatype sql_err = NoRows | ScanErr | SqlErr string

text \<open>\<open>sq_Query\<close> gives the rows and what \<open>rows.Err\<close> reports once they are read.\<close>

record 'w sql_ops =
  sq_Ping :: "'w \<Rightarrow> string option \<times> 'w"
  sq_Close :: "'w \<Rightarrow> string option \<times> 'w"
  sq_SetMaxOpenConns :: "int \<Rightarrow> 'w \<Rightarrow> 'w"
  sq_SetMaxIdleConns :: "int \<Rightarrow> 'w \<Rightarrow> 'w"
  sq_Exec :: "string \<Rightarrow> sql_value list \<Rightarrow> 'w \<Rightarrow> sql_err option \<times> 'w"
  sq_QueryRow :: "string \<Rightarrow> sql_value list \<Rightarrow> 'w \<Rightarrow> (sql_err + sql_value list) \<times> 'w"
  sq_Query :: "string \<Rightarrow> sql_value list \<Rightarrow> 'w \<Rightarrow> (sql_err + sql_value list list \<times> sql_err option) \<times> 'w"

text \<open>A statement as it stands in the code: each line with the tabs before it.\<close>

definition tabs :: "nat \<Rightarrow> string" where
  "tabs n = replicate n (CHR 0x09)"

definition sql_text :: "nat \<Rightarrow> (nat \<times> string) list \<Rightarrow> string" where
  "sql_text k ls =
     concat (map (\<lambda>(n, l). CHR 0x0A # tabs n @ l) ls) @ CHR 0x0A # tabs k"

section \<open>Scanning\<close>

text \<open>
  \<open>Scan\<close> converts a column into its destination; NULL fits a \<open>pq.NullTime\<close> only.  Only the
  conversions between the column types of the schema and the fields are defined; others count
  as errors.
\<close>

fun scan_string :: "sql_value \<Rightarrow> string option" where
  "scan_string (SText t) = Some t"
| "scan_string (SInt i) = Some (itoa i)"
| "scan_string _ = None"

fun scan_int :: "sql_value \<Rightarrow> int option" where
  "scan_int (SInt i) = (if int64_ok i then Some i else None)"
| "scan_int (SText t) = dec_int (JNum t) 0"
| "scan_int _ = None"

fun scan_float :: "sql_value \<Rightarrow> f64 option" where
  "scan_float (SFloat x) = Some x"
| "scan_float (SInt i) = Some (f64_of_int i)"
| "scan_float (SText t) = (if parse_num t = Some (t, []) then dec_float (JNum t) 0 else None)"
| "scan_float _ = None"

fun scan_bool :: "sql_value \<Rightarrow> bool option" where
  "scan_bool (SBool b) = Some b"
| "scan_bool _ = None"

fun scan_time :: "sql_value \<Rightarrow> time option" where
  "scan_time (STime t) = Some t"
| "scan_time _ = None"

fun scan_nulltime :: "sql_value \<Rightarrow> time option option" where
  "scan_nulltime SNull = Some None"
| "scan_nulltime (STime t) = Some (Some t)"
| "scan_nulltime _ = None"

definition scanned :: "'a option \<Rightarrow> sql_err + 'a" where
  "scanned r = (case r of None \<Rightarrow> Inl ScanErr | Some a \<Rightarrow> Inr a)"

section \<open>The client\<close>

record 'w pg_client =
  pg_db :: "'w sql_ops option"

record request_log =
  lg_Endpoint :: string
  lg_APIKeyID :: string
  lg_Model :: string
  lg_StatusCode :: int
  lg_LatencyMs :: int
  lg_CacheHit :: bool
  lg_TotalTokens :: int

record usage_model_stats =
  ums_Requests :: int
  ums_Errors :: int
  ums_TotalTokens :: int
  ums_AvgLatencyMs :: f64
  ums_LastStatus :: int
  ums_LastUpdatedAt :: string

record pg_snapshot =
  sn_TotalRequests :: int
  sn_TotalTokens :: int
  sn_TotalCost :: f64
  sn_CacheHitRate :: f64
  sn_Models :: "string \<rightharpoonup> usage_model_stats"

definition pg_dsn :: "database_config \<Rightarrow> string" where
  "pg_dsn cfg =
     ''host='' @ dc_Host cfg @ '' port='' @ itoa (dc_Port cfg) @ '' user='' @ dc_User cfg
       @ '' password='' @ dc_Password cfg @ '' dbname='' @ dc_DBName cfg @ '' sslmode=disable''"

text \<open>\<open>opn\<close> is \<open>sql.Open\<close> with the driver \<open>postgres\<close>.\<close>

definition NewPostgres ::
  "(string \<Rightarrow> string + 'w sql_ops) \<Rightarrow> database_config \<Rightarrow> 'w \<Rightarrow> (string + 'w pg_client) \<times> 'w" where
  "NewPostgres opn cfg w =
     (case opn (pg_dsn cfg) of
        Inl e \<Rightarrow> (Inl (''failed to open database: '' @ e), w)
      | Inr db \<Rightarrow>
          (case sq_Ping db w of
             (Some e, w) \<Rightarrow> (Inl (''failed to connect to database: '' @ e), w)
           | (None, w) \<Rightarrow>
               (Inr \<lparr>pg_db = Some db\<rparr>, sq_SetMaxIdleConns db 5 (sq_SetMaxOpenConns db 25 w))))"

definition pg_Close :: "'w sql_ops \<Rightarrow> 'w \<Rightarrow> string option \<times> 'w" where
  "pg_Close db w = sq_Close db w"

definition pg_DB :: "'w pg_client \<Rightarrow> 'w sql_ops option" where
  "pg_DB p = pg_db p"

section \<open>API keys\<close>

record api_key =
  ak_ID :: string
  ak_KeyHash :: string
  ak_Name :: string
  ak_RateLimit :: int
  ak_IsActive :: bool
  ak_ExpiresAt :: "time option"
  ak_CreatedAt :: "time option"
  ak_UpdatedAt :: "time option"

definition scan_api_key :: "sql_value list \<Rightarrow> api_key option" where
  "scan_api_key row =
     (case row of
        [a, b, c, d, e, f, g, h] \<Rightarrow>
          do { i \<leftarrow> scan_string a; k \<leftarrow> scan_string b; n \<leftarrow> scan_string c; r \<leftarrow> scan_int d;
               act \<leftarrow> scan_bool e; x \<leftarrow> scan_nulltime f; y \<leftarrow> scan_nulltime g; z \<leftarrow> scan_nulltime h;
               Some \<lparr>ak_ID = i, ak_KeyHash = k, ak_Name = n, ak_RateLimit = r, ak_IsActive = act,
                 ak_ExpiresAt = x, ak_CreatedAt = y, ak_UpdatedAt = z\<rparr> }
      | _ \<Rightarrow> None)"

definition api_key_columns :: string where
  "api_key_columns = ''id, key_hash, name, rate_limit, is_active, expires_at, created_at, updated_at''"

definition get_key_sql :: string where
  "get_key_sql = sql_text 1
     [(2, ''SELECT '' @ api_key_columns), (2, ''FROM api_keys''),
      (2, ''WHERE key_hash = $1 AND is_active = true'')]"

definition create_key_sql :: string where
  "create_key_sql = sql_text 1
     [(2, ''INSERT INTO api_keys (key_hash, name, rate_limit, is_active)''),
      (2, ''VALUES ($1, $2, $3, true)''), (2, ''RETURNING '' @ api_key_columns)]"

definition list_keys_sql :: string where
  "list_keys_sql = sql_text 1
     [(2, ''SELECT '' @ api_key_columns), (2, ''FROM api_keys''), (2, ''ORDER BY created_at DESC'')]"

text \<open>The four methods take the handle \<open>p.db\<close>; a missing row is the result nil.\<close>

definition GetAPIKeyByHash :: "'w sql_ops \<Rightarrow> string \<Rightarrow> 'w \<Rightarrow> (sql_err + api_key option) \<times> 'w" where
  "GetAPIKeyByHash db keyHash w =
     (case sq_QueryRow db get_key_sql [SText keyHash] w of
        (Inl NoRows, w) \<Rightarrow> (Inr None, w)
      | (Inl e, w) \<Rightarrow> (Inl e, w)
      | (Inr row, w) \<Rightarrow> (map_sum id Some (scanned (scan_api_key row)), w))"

definition pg_CreateAPIKey ::
  "'w sql_ops \<Rightarrow> string \<Rightarrow> string \<Rightarrow> int \<Rightarrow> 'w \<Rightarrow> (sql_err + api_key) \<times> 'w" where
  "pg_CreateAPIKey db keyHash name rateLimit w =
     (case sq_QueryRow db create_key_sql [SText keyHash, SText name, SInt rateLimit] w of
        (Inl e, w) \<Rightarrow> (Inl e, w)
      | (Inr row, w) \<Rightarrow> (scanned (scan_api_key row), w))"

text \<open>The loop of \<open>ListAPIKeys\<close> does not look at \<open>rows.Err\<close>.\<close>

definition pg_ListAPIKeys :: "'w sql_ops \<Rightarrow> 'w \<Rightarrow> (sql_err + api_key list) \<times> 'w" where
  "pg_ListAPIKeys db w =
     (case sq_Query db list_keys_sql [] w of
        (Inl e, w) \<Rightarrow> (Inl e, w)
      | (Inr (rows, _), w) \<Rightarrow> (scanned (map_opt scan_api_key rows), w))"

definition pg_DeleteAPIKey :: "'w sql_ops \<Rightarrow> string \<Rightarrow> 'w \<Rightarrow> sql_err option \<times> 'w" where
  "pg_DeleteAPIKey db i w = sq_Exec db ''DELETE FROM api_keys WHERE id = $1'' [SText i] w"

section \<open>Request logs\<close>

definition not_initialized :: sql_err where
  "not_initialized = SqlErr ''postgres client is not initialized''"

text \<open>The guard \<open>p == nil || p.db == nil\<close>.\<close>

definition pg_handle :: "'w pg_client option \<Rightarrow> 'w sql_ops option" where
  "pg_handle p = Option.bind p pg_db"

definition log_ddl :: "string list" where
  "log_ddl =
     [''CREATE TABLE IF NOT EXISTS request_logs ('' @ sql_text 2
        [(3, ''id BIGSERIAL PRIMARY KEY,''), (3, ''endpoint VARCHAR(128) NOT NULL,''),
         (3, ''api_key_id TEXT,''), (3, ''model VARCHAR(128) NOT NULL,''),
         (3, ''status_code INT NOT NULL,''), (3, ''latency_ms INT NOT NULL,''),
         (3, ''cache_hit BOOLEAN NOT NULL DEFAULT FALSE,''),
         (3, ''total_tokens INT NOT NULL DEFAULT 0,''),
         (3, ''created_at TIMESTAMPTZ NOT NULL DEFAULT NOW()'')] @ '')'',
      ''CREATE INDEX IF NOT EXISTS idx_request_logs_created_at ON request_logs(created_at DESC)'',
      ''CREATE INDEX IF NOT EXISTS idx_request_logs_model_created_at ON request_logs(model, created_at DESC)'']"

fun exec_all :: "'w sql_ops \<Rightarrow> string list \<Rightarrow> 'w \<Rightarrow> sql_err option \<times> 'w" where
  "exec_all db [] w = (None, w)"
| "exec_all db (s # ss) w =
     (case sq_Exec db s [] w of (Some e, w) \<Rightarrow> (Some e, w) | (None, w) \<Rightarrow> exec_all db ss w)"

definition EnsureRequestLogSchema :: "'w pg_client option \<Rightarrow> 'w \<Rightarrow> sql_err option \<times> 'w" where
  "EnsureRequestLogSchema p w =
     (case pg_handle p of None \<Rightarrow> (Some not_initialized, w) | Some db \<Rightarrow> exec_all db log_ddl w)"

definition insert_log_sql :: string where
  "insert_log_sql = sql_text 1
     [(2, ''INSERT INTO request_logs (endpoint, api_key_id, model, status_code, latency_ms, cache_hit, total_tokens)''),
      (2, ''VALUES ($1, $2, $3, $4, $5, $6, $7)'')]"

definition normalize_log :: "request_log \<Rightarrow> request_log" where
  "normalize_log e =
     (let e = (if lg_Endpoint e = '''' then e\<lparr>lg_Endpoint := ''unknown''\<rparr> else e);
          e = (if lg_Model e = '''' then e\<lparr>lg_Model := ''unknown''\<rparr> else e);
          e = (if lg_LatencyMs e < 0 then e\<lparr>lg_LatencyMs := 0\<rparr> else e);
          e = (if lg_TotalTokens e < 0 then e\<lparr>lg_TotalTokens := 0\<rparr> else e)
      in e)"

definition log_args :: "request_log \<Rightarrow> sql_value list" where
  "log_args e =
     [SText (lg_Endpoint e), SText (lg_APIKeyID e), SText (lg_Model e), SInt (lg_StatusCode e),
      SInt (lg_LatencyMs e), SBool (lg_CacheHit e), SInt (lg_TotalTokens e)]"

definition InsertRequestLog :: "'w pg_client option \<Rightarrow> request_log \<Rightarrow> 'w \<Rightarrow> sql_err option \<times> 'w" where
  "InsertRequestLog p e w =
     (case pg_handle p of
        None \<Rightarrow> (Some not_initialized, w)
      | Some db \<Rightarrow> sq_Exec db insert_log_sql (log_args (normalize_log e)) w)"

text \<open>
  \<open>persistRequestLog\<close>: without a client nothing happens; an error is logged (the second
  component) and dropped.
\<close>

definition persistRequestLog ::
  "'w pg_client option \<Rightarrow> string \<Rightarrow> string \<Rightarrow> string \<Rightarrow> int \<Rightarrow> duration \<Rightarrow> bool \<Rightarrow> int \<Rightarrow> 'w
    \<Rightarrow> 'w \<times> string list" where
  "persistRequestLog pg endpoint apiKeyID model statusCode latency cacheHit totalTokens w =
     (case pg of
        None \<Rightarrow> (w, [])
      | Some _ \<Rightarrow>
          (case InsertRequestLog pg
                  \<lparr>lg_Endpoint = endpoint, lg_APIKeyID = apiKeyID, lg_Model = model,
                   lg_StatusCode = statusCode, lg_LatencyMs = duration_ms latency,
                   lg_CacheHit = cacheHit, lg_TotalTokens = totalTokens\<rparr> w of
             (None, w) \<Rightarrow> (w, [])
           | (Some _, w) \<Rightarrow> (w, [''failed to persist request log''])))"

section \<open>The usage snapshot\<close>

definition total_sql :: string where
  "total_sql = sql_text 1
     [(2, ''SELECT''), (3, ''COUNT(*) AS total_requests,''),
      (3, ''COALESCE(SUM(total_tokens), 0) AS total_tokens,''),
      (3, ''COALESCE(AVG(CASE WHEN cache_hit THEN 1.0 ELSE 0.0 END), 0) AS cache_hit_rate''),
      (2, ''FROM request_logs'')]"

definition model_sql :: string where
  "model_sql = sql_text 1
     [(2, ''WITH aggregates AS (''), (3, ''SELECT''), (4, ''model,''),
      (4, ''COUNT(*) AS requests,''),
      (4, ''SUM(CASE WHEN status_code >= 400 THEN 1 ELSE 0 END) AS errors,''),
      (4, ''COALESCE(SUM(total_tokens), 0) AS total_tokens,''),
      (4, ''COALESCE(AVG(latency_ms), 0) AS avg_latency_ms''),
      (3, ''FROM request_logs''), (3, ''GROUP BY model''), (2, ''),''),
      (2, ''latest AS (''), (3, ''SELECT DISTINCT ON (model)''), (4, ''model,''),
      (4, ''status_code,''), (4, ''created_at''), (3, ''FROM request_logs''),
      (3, ''ORDER BY model, created_at DESC''), (2, '')''),
      (2, ''SELECT''), (3, ''a.model,''), (3, ''a.requests,''), (3, ''a.errors,''),
      (3, ''a.total_tokens,''), (3, ''a.avg_latency_ms,''),
      (3, ''COALESCE(l.status_code, 0) AS last_status,''),
      (3, ''COALESCE(l.created_at, NOW()) AS last_updated_at''),
      (2, ''FROM aggregates a''), (2, ''LEFT JOIN latest l ON l.model = a.model'')]"

definition scan_totals :: "sql_value list \<Rightarrow> (int \<times> int \<times> f64) option" where
  "scan_totals row =
     (case row of
        [a, b, c] \<Rightarrow> do { n \<leftarrow> scan_int a; t \<leftarrow> scan_int b; r \<leftarrow> scan_float c; Some (n, t, r) }
      | _ \<Rightarrow> None)"

definition scan_model :: "sql_value list \<Rightarrow> (string \<times> usage_model_stats) option" where
  "scan_model row =
     (case row of
        [a, b, c, d, e, f, g] \<Rightarrow>
          do { m \<leftarrow> scan_string a; n \<leftarrow> scan_int b; errs \<leftarrow> scan_int c; t \<leftarrow> scan_int d;
               avg \<leftarrow> scan_float e; st \<leftarrow> scan_int f; upd \<leftarrow> scan_time g;
               Some (m, \<lparr>ums_Requests = n, ums_Errors = errs, ums_TotalTokens = t, ums_AvgLatencyMs = avg,
                 ums_LastStatus = st, ums_LastUpdatedAt = format_rfc3339 upd\<rparr>) }
      | _ \<Rightarrow> None)"

text \<open>The assignments to the map in the order of the rows, and the check of \<open>rows.Err\<close>.\<close>

definition read_models ::
  "sql_value list list \<times> sql_err option \<Rightarrow> sql_err + (string \<rightharpoonup> usage_model_stats)" where
  "read_models res =
     (case map_opt scan_model (fst res) of
        None \<Rightarrow> Inl ScanErr
      | Some ms \<Rightarrow>
          (case snd res of Some e \<Rightarrow> Inl e | None \<Rightarrow> Inr (foldl (\<lambda>m (k, v). m(k \<mapsto> v)) Map.empty ms)))"

definition GetUsageSnapshot :: "'w pg_client option \<Rightarrow> 'w \<Rightarrow> (sql_err + pg_snapshot) \<times> 'w" where
  "GetUsageSnapshot p w =
     (case pg_handle p of
        None \<Rightarrow> (Inl not_initialized, w)
      | Some db \<Rightarrow>
          (case sq_QueryRow db total_sql [] w of
             (Inl e, w) \<Rightarrow> (Inl e, w)
           | (Inr row, w) \<Rightarrow>
               (case scan_totals row of
                  None \<Rightarrow> (Inl ScanErr, w)
                | Some (n, t, r) \<Rightarrow>
                    (case sq_Query db model_sql [] w of
                       (Inl e, w) \<Rightarrow> (Inl e, w)
                     | (Inr res, w) \<Rightarrow>
                         (map_sum id (\<lambda>ms. \<lparr>sn_TotalRequests = n, sn_TotalTokens = t, sn_TotalCost = 0,
                            sn_CacheHitRate = r, sn_Models = ms\<rparr>) (read_models res), w)))))"

section \<open>The rows written and read\<close>

text \<open>The rows the table is meant to hold.\<close>

definition valid_log :: "request_log \<Rightarrow> bool" where
  "valid_log e \<longleftrightarrow>
     lg_Endpoint e \<noteq> '''' \<and> lg_Model e \<noteq> '''' \<and> 0 \<le> lg_LatencyMs e \<and> 0 \<le> lg_TotalTokens e"

lemma normalize_log_fields [simp]:
  "lg_Endpoint (normalize_log e) = (if lg_Endpoint e = '''' then ''unknown'' else lg_Endpoint e)"
  "lg_Model (normalize_log e) = (if lg_Model e = '''' then ''unknown'' else lg_Model e)"
  "lg_LatencyMs (normalize_log e) = max 0 (lg_LatencyMs e)"
  "lg_TotalTokens (normalize_log e) = max 0 (lg_TotalTokens e)"
  "lg_APIKeyID (normalize_log e) = lg_APIKeyID e"
  "lg_StatusCode (normalize_log e) = lg_StatusCode e"
  "lg_CacheHit (normalize_log e) = lg_CacheHit e"
  by (simp_all add: normalize_log_def Let_def)

lemma normalize_log_valid [simp]: "valid_log (normalize_log e)"
  by (simp add: valid_log_def)

lemma normalize_log_id: "valid_log e \<Longrightarrow> normalize_log e = e"
  by (simp add: valid_log_def normalize_log_def)

lemma foldl_map_upd:
  "foldl (\<lambda>m (k, v). m(k \<mapsto> v)) m kvs = m ++ map_of (rev kvs)"
  by (induction kvs arbitrary: m) (auto simp: map_add_def fun_eq_iff split: option.splits)

lemma map_opt_Some: "map_opt f xs = Some ys \<Longrightarrow> map f xs = map Some ys"
  by (induction xs arbitrary: ys) (auto split: option.splits)

text \<open>
  \<open>InsertRequestLog\<close> issues one INSERT and nothing else, and its arguments are the
  columns of a row with a non-empty endpoint and model and with latency and tokens not
  negative; an entry that is such a row already is written unchanged, and status, cache flag
  and key id are always the entry's.
\<close>
lemma InsertRequestLog_row:
  "\<exists>row. InsertRequestLog (Some \<lparr>pg_db = Some db\<rparr>) e w = sq_Exec db insert_log_sql (log_args row) w \<and>
     valid_log row \<and> (row = e \<longleftrightarrow> valid_log e) \<and> lg_APIKeyID row = lg_APIKeyID e \<and>
     lg_StatusCode row = lg_StatusCode e \<and> lg_CacheHit row = lg_CacheHit e"
proof -
  have "normalize_log e = e \<longleftrightarrow> valid_log e"
    using normalize_log_id [of e] normalize_log_valid [of e] by metis
  then show ?thesis
    by (intro exI [of _ "normalize_log e"]) (simp add: InsertRequestLog_def pg_handle_def)
qed

lemma GetUsageSnapshot_elim:
  assumes "GetUsageSnapshot (Some \<lparr>pg_db = Some db\<rparr>) w = (Inr sn, w')"
  obtains row w1 n t r rows ms where
    "sq_QueryRow db total_sql [] w = (Inr row, w1)" "scan_totals row = Some (n, t, r)"
    "sq_Query db model_sql [] w1 = (Inr (rows, None), w')" "map_opt scan_model rows = Some ms"
    "sn = \<lparr>sn_TotalRequests = n, sn_TotalTokens = t, sn_TotalCost = 0, sn_CacheHitRate = r,
       sn_Models = map_of (rev ms)\<rparr>"
  using assms
  by (auto simp: GetUsageSnapshot_def pg_handle_def read_models_def foldl_map_upd
      split: prod.splits sum.splits option.splits)

text \<open>
  Claim C35. A snapshot is complete: when \<open>GetUsageSnapshot\<close> succeeds, both statements
  succeeded, every row of the second was scanned and none is missing from the map; when each
  model has one row, as GROUP BY makes it, the entry of a model is its row, and no other
  entry exists.
\<close>
theorem GetUsageSnapshot_complete:
  assumes "GetUsageSnapshot (Some \<lparr>pg_db = Some db\<rparr>) w = (Inr sn, w')"
  shows "\<exists>row w1 rows ms. sq_QueryRow db total_sql [] w = (Inr row, w1) \<and>
     scan_totals row = Some (sn_TotalRequests sn, sn_TotalTokens sn, sn_CacheHitRate sn) \<and>
     sq_Query db model_sql [] w1 = (Inr (rows, None), w') \<and>
     map scan_model rows = map Some ms \<and> dom (sn_Models sn) = fst ` set ms \<and>
     (distinct (map fst ms) \<longrightarrow> (\<forall>m s. sn_Models sn m = Some s \<longleftrightarrow> (m, s) \<in> set ms))"
  using assms
proof (rule GetUsageSnapshot_elim)
  fix row w1 n t r rows ms
  assume *: "sq_QueryRow db total_sql [] w = (Inr row, w1)" "scan_totals row = Some (n, t, r)"
    "sq_Query db model_sql [] w1 = (Inr (rows, None), w')" "map_opt scan_model rows = Some ms"
    "sn = \<lparr>sn_TotalRequests = n, sn_TotalTokens = t, sn_TotalCost = 0, sn_CacheHitRate = r,
       sn_Models = map_of (rev ms)\<rparr>"
  have "distinct (map fst ms) \<Longrightarrow> map_of (rev ms) m = Some s \<longleftrightarrow> (m, s) \<in> set ms" for m s
    using map_of_is_SomeI [of "rev ms" m s] map_of_SomeD [of "rev ms" m s]
    by (auto simp: rev_map [symmetric])
  then show ?thesis
    using * by (intro exI [of _ row] exI [of _ w1] exI [of _ rows] exI [of _ ms])
      (simp add: map_opt_Some dom_map_of_conv_image_fst)
qed

text \<open>A handle on a database with one model row, for the concrete input.\<close>

definition ex_sql :: "nat sql_ops" where
  "ex_sql =
     \<lparr>sq_Ping = (\<lambda>w. (None, w)), sq_Close = (\<lambda>w. (None, w)), sq_SetMaxOpenConns = (\<lambda>n w. w),
      sq_SetMaxIdleConns = (\<lambda>n w. w), sq_Exec = (\<lambda>q args w. (None, Suc w)),
      sq_QueryRow = (\<lambda>q args w. (Inr [SInt 2, SInt 30, SText ''0''], w)),
      sq_Query = (\<lambda>q args w. (Inr ([[SText ''gpt-4'', SInt 2, SInt 1, SInt 30, SText ''12'', SInt 200, STime 0]],
         None), w))\<rparr>"

lemma ex_scans:
  "scan_totals [SInt 2, SInt 30, SText ''0''] = Some (2, 30, 0)"
  "scan_model [SText ''gpt-4'', SInt 2, SInt 1, SInt 30, SText ''12'', SInt 200, STime 0] =
    Some (''gpt-4'', \<lparr>ums_Requests = 2, ums_Errors = 1, ums_TotalTokens = 30, ums_AvgLatencyMs = f64_of_int 12,
      ums_LastStatus = 200, ums_LastUpdatedAt = ''0001-01-01T00:00:00Z''\<rparr>)"
  by code_simp+

theorem GetUsageSnapshot_complete_witness:
  "\<exists>sn w' row w1 rows ms. GetUsageSnapshot (Some \<lparr>pg_db = Some ex_sql\<rparr>) 0 = (Inr sn, w') \<and>
     sq_QueryRow ex_sql total_sql [] 0 = (Inr row, w1) \<and>
     sq_Query ex_sql model_sql [] w1 = (Inr (rows, None), w') \<and>
     map scan_model rows = map Some ms \<and> dom (sn_Models sn) = fst ` set ms"
proof -
  obtain sn w' where *: "GetUsageSnapshot (Some \<lparr>pg_db = Some ex_sql\<rparr>) 0 = (Inr sn, w')"
    by (simp add: GetUsageSnapshot_def pg_handle_def ex_sql_def ex_scans read_models_def)
  show ?thesis using * GetUsageSnapshot_complete [OF *] by blast
qed

end
