(* ===== verification/Stats.thy ===== *)
theory Stats
  imports GoTime
begin

text \<open>
  \<open>internal/service/stats.go\<close>: the in-memory usage aggregator.  The counters are Go
  \<open>int64\<close> values and wrap around; the averages are \<open>float64\<close>.  Each method runs under the
  struct's lock; the clock reading of \<open>Record\<close> is its argument \<open>now\<close>.
\<close>

section \<open>State and operations\<close>

record request_metric =
  rm_Endpoint :: string
  rm_Model :: string
  rm_StatusCode :: int
  rm_Latency :: duration
  rm_CacheHit :: bool
  rm_TotalTokens :: int

record model_usage =
  mu_Requests :: int
  mu_Errors :: int
  mu_TotalTokens :: int
  mu_AvgLatencyMs :: f64
  mu_LastStatus :: int
  mu_LastUpdatedAt :: string

record usage_snapshot =
  us_TotalRequests :: int
  us_TotalTokens :: int
  us_TotalCost :: f64
  us_CacheHitRate :: f64
  us_Models :: "string \<rightharpoonup> model_usage"

record usage_stats =
  st_totalRequests :: int
  st_totalTokens :: int
  st_cacheHits :: int
  st_models :: "string \<rightharpoonup> model_usage"

definition NewUsageStats :: usage_stats where
  "NewUsageStats = \<lparr>st_totalRequests = 0, st_totalTokens = 0, st_cacheHits = 0, st_models = Map.empty\<rparr>"

definition model_usage_zero :: model_usage where
  "model_usage_zero = \<lparr>mu_Requests = 0, mu_Errors = 0, mu_TotalTokens = 0, mu_AvgLatencyMs = 0,
     mu_LastStatus = 0, mu_LastUpdatedAt = ''''\<rparr>"

text \<open>The running average after the \<open>n\<close>-th request.\<close>

definition next_avg :: "f64 \<Rightarrow> int \<Rightarrow> f64 \<Rightarrow> f64" where
  "next_avg avg n latencyMs =
     (if n = 1 then latencyMs
      else ((avg * f64_of_int (wrap64 (n - 1))) + latencyMs) / f64_of_int n)"

definition update_usage :: "time \<Rightarrow> request_metric \<Rightarrow> model_usage \<Rightarrow> model_usage" where
  "update_usage now metric e =
     (let e = e\<lparr>mu_Requests := wrap64 (mu_Requests e + 1)\<rparr>;
          e = (if 400 \<le> rm_StatusCode metric
               then e\<lparr>mu_Errors := wrap64 (mu_Errors e + 1)\<rparr> else e);
          e = (if 0 < rm_TotalTokens metric
               then e\<lparr>mu_TotalTokens := wrap64 (mu_TotalTokens e + rm_TotalTokens metric)\<rparr> else e);
          latencyMs = f64_of_int (duration_ms (rm_Latency metric));
          e = e\<lparr>mu_AvgLatencyMs := next_avg (mu_AvgLatencyMs e) (mu_Requests e) latencyMs\<rparr>
      in e\<lparr>mu_LastStatus := rm_StatusCode metric, mu_LastUpdatedAt := format_rfc3339 now\<rparr>)"

definition metric_model :: "request_metric \<Rightarrow> string" where
  "metric_model metric = (if rm_Model metric = '''' then ''unknown'' else rm_Model metric)"

definition stats_Record :: "usage_stats \<Rightarrow> time \<Rightarrow> request_metric \<Rightarrow> usage_stats" where
  "stats_Record s now metric =
     (let s = s\<lparr>st_totalRequests := wrap64 (st_totalRequests s + 1)\<rparr>;
          s = (if 0 < rm_TotalTokens metric
               then s\<lparr>st_totalTokens := wrap64 (st_totalTokens s + rm_TotalTokens metric)\<rparr> else s);
          s = (if rm_CacheHit metric
               then s\<lparr>st_cacheHits := wrap64 (st_cacheHits s + 1)\<rparr> else s);
          model = metric_model metric;
          entry = (case st_models s model of None \<Rightarrow> model_usage_zero | Some e \<Rightarrow> e)
      in s\<lparr>st_models := (st_models s)(model \<mapsto> update_usage now metric entry)\<rparr>)"

definition stats_Snapshot :: "usage_stats \<Rightarrow> usage_snapshot" where
  "stats_Snapshot s =
     \<lparr>us_TotalRequests = st_totalRequests s,
      us_TotalTokens = st_totalTokens s,
      us_TotalCost = 0,
      us_CacheHitRate =
        (if 0 < st_totalRequests s
         then f64_of_int (st_cacheHits s) / f64_of_int (st_totalRequests s) else 0),
      us_Models = st_models s\<rparr>"

text \<open>A run of events, each with the clock reading it was recorded at.\<close>

definition stats_run :: "(time \<times> request_metric) list \<Rightarrow> usage_stats" where
  "stats_run evs = foldl (\<lambda>s (now, m). stats_Record s now m) NewUsageStats evs"

section \<open>Counting\<close>

definition tokens_of :: "request_metric \<Rightarrow> int" where
  "tokens_of m = max 0 (rm_TotalTokens m)"

lemma stats_run_Nil [simp]: "stats_run [] = NewUsageStats"
  by (simp add: stats_run_def)

lemma stats_run_snoc [simp]:
  "stats_run (evs @ [(now, m)]) = stats_Record (stats_run evs) now m"
  by (simp add: stats_run_def)

lemma stats_Record_totals [simp]:
  "st_totalRequests (stats_Record s now m) = wrap64 (st_totalRequests s + 1)"
  "st_cacheHits (stats_Record s now m) =
    (if rm_CacheHit m then wrap64 (st_cacheHits s + 1) else st_cacheHits s)"
  "st_models (stats_Record s now m) n =
    (if n = metric_model m
     then Some (update_usage now m (case st_models s n of None \<Rightarrow> model_usage_zero | Some e \<Rightarrow> e))
     else st_models s n)"
  by (simp_all add: stats_Record_def Let_def)

lemma stats_Record_tokens:
  "st_totalTokens (stats_Record s now m) =
    (if 0 < rm_TotalTokens m then wrap64 (st_totalTokens s + rm_TotalTokens m) else st_totalTokens s)"
  by (simp add: stats_Record_def Let_def)

lemma update_usage_simps [simp]:
  "mu_Requests (update_usage now m e) = wrap64 (mu_Requests e + 1)"
  "mu_Errors (update_usage now m e) =
    (if 400 \<le> rm_StatusCode m then wrap64 (mu_Errors e + 1) else mu_Errors e)"
  "mu_TotalTokens (update_usage now m e) =
    (if 0 < rm_TotalTokens m then wrap64 (mu_TotalTokens e + rm_TotalTokens m) else mu_TotalTokens e)"
  "mu_AvgLatencyMs (update_usage now m e) =
    next_avg (mu_AvgLatencyMs e) (wrap64 (mu_Requests e + 1)) (f64_of_int (duration_ms (rm_Latency m)))"
  "mu_LastStatus (update_usage now m e) = rm_StatusCode m"
  "mu_LastUpdatedAt (update_usage now m e) = format_rfc3339 now"
  by (simp_all add: update_usage_def Let_def)

lemma stats_run_totals:
  "st_totalRequests (stats_run evs) = wrap64 (int (length evs)) \<and>
   st_totalTokens (stats_run evs) = wrap64 (\<Sum>m\<leftarrow>map snd evs. tokens_of m) \<and>
   st_cacheHits (stats_run evs) = wrap64 (int (length (filter rm_CacheHit (map snd evs))))"
proof (induction evs rule: rev_induct)
  case Nil
  then show ?case by (simp add: NewUsageStats_def)
next
  case (snoc ev evs)
  obtain now m where ev: "ev = (now, m)" by fastforce
  have "st_totalTokens (stats_run (evs @ [ev])) = wrap64 (\<Sum>m\<leftarrow>map snd (evs @ [ev]). tokens_of m)"
    using snoc by (cases "0 < rm_TotalTokens m") (simp_all add: ev stats_Record_tokens tokens_of_def)
  then show ?case using snoc by (simp add: ev add.commute)
qed

definition model_events :: "string \<Rightarrow> (time \<times> request_metric) list \<Rightarrow> (time \<times> request_metric) list" where
  "model_events n evs = filter (\<lambda>ev. metric_model (snd ev) = n) evs"

definition usage_run :: "(time \<times> request_metric) list \<Rightarrow> model_usage" where
  "usage_run evs = foldl (\<lambda>e (now, m). update_usage now m e) model_usage_zero evs"

lemma usage_run_simps [simp]:
  "usage_run [] = model_usage_zero"
  "usage_run [(now, m)] = update_usage now m model_usage_zero"
  "usage_run (evs @ [(now, m)]) = update_usage now m (usage_run evs)"
  by (simp_all add: usage_run_def)

lemma stats_run_model:
  "st_models (stats_run evs) n =
    (if model_events n evs = [] then None else Some (usage_run (model_events n evs)))"
proof (induction evs rule: rev_induct)
  case Nil
  then show ?case by (simp add: NewUsageStats_def model_events_def)
next
  case (snoc ev evs)
  obtain now m where ev: "ev = (now, m)" by fastforce
  have me: "model_events n (evs @ [(now, m)]) =
      (if metric_model m = n then model_events n evs @ [(now, m)] else model_events n evs)" for n
    by (simp add: model_events_def)
  show ?case
    by (cases "metric_model m = n"; cases "model_events n evs = []")
      (auto simp: snoc.IH me ev)
qed

lemma usage_run_counts:
  "mu_Requests (usage_run evs) = wrap64 (int (length evs)) \<and>
   mu_Errors (usage_run evs) = wrap64 (int (length (filter (\<lambda>ev. 400 \<le> rm_StatusCode (snd ev)) evs))) \<and>
   mu_TotalTokens (usage_run evs) = wrap64 (\<Sum>ev\<leftarrow>evs. tokens_of (snd ev)) \<and>
   (evs \<noteq> [] \<longrightarrow> mu_LastStatus (usage_run evs) = rm_StatusCode (snd (last evs)) \<and>
     mu_LastUpdatedAt (usage_run evs) = format_rfc3339 (fst (last evs)))"
proof (induction evs rule: rev_induct)
  case Nil
  then show ?case by (simp add: model_usage_zero_def)
next
  case (snoc ev evs)
  obtain now m where ev: "ev = (now, m)" by fastforce
  show ?case
    using snoc by (cases "0 < rm_TotalTokens m") (simp_all add: ev tokens_of_def add.commute)
qed

section \<open>The average\<close>

text \<open>
  While the products stay within 53 bits, one step of the average keeps it between two
  whole bounds, rounding included.
\<close>

lemma next_avg_bounds:
  assumes "0 \<le> lo" and "lo \<le> hi" and "hi * n \<le> 2 ^ 53" and "1 \<le> n" and "n \<le> 2 ^ 53"
    and "n \<noteq> 1 \<Longrightarrow> f64_of_int lo \<le> avg \<and> avg \<le> f64_of_int hi" and "lo \<le> l" and "l \<le> hi"
  shows "f64_of_int lo \<le> next_avg avg n (f64_of_int l) \<and> next_avg avg n (f64_of_int l) \<le> f64_of_int hi"
proof -
  have hi: "hi \<le> hi * n" using assms by (simp add: mult_le_cancel_left1)
  have small: "\<bar>k\<bar> \<le> 2 ^ 53" if "0 \<le> k" "k \<le> hi" for k using that hi assms(3) by simp
  have bounds: "\<bar>lo * k\<bar> \<le> 2 ^ 53 \<and> \<bar>hi * k\<bar> \<le> 2 ^ 53" if "0 \<le> k" "k \<le> n" for k
  proof -
    have "0 \<le> lo * k" "lo * k \<le> hi * k" "hi * k \<le> hi * n"
      using assms(1,2) that by (auto intro: mult_right_mono mult_left_mono)
    then show ?thesis using assms(3) by linarith
  qed
  show ?thesis
  proof (cases "n = 1")
    case True
    then show ?thesis using assms small by (simp add: next_avg_def f64_of_int_small)
  next
    case False
    obtain a where a: "avg = Fin a" "of_int lo \<le> a" "a \<le> of_int hi"
      using assms(1,2,6) False small by (cases avg) (auto simp: f64_of_int_small)
    have n1: "wrap64 (n - 1) = n - 1" using assms(4,5) by (simp add: int64_ok_def)
    have fin: "f64_of_int (n - 1) = Fin (of_int (n - 1))" "f64_of_int n = Fin (of_int n)"
      "f64_of_int l = Fin (of_int l)" "f64_of_int lo = Fin (of_int lo)" "f64_of_int hi = Fin (of_int hi)"
      using assms small by (simp_all add: f64_of_int_small)
    have "of_int (lo * (n - 1)) \<le> a * of_int (n - 1)" "a * of_int (n - 1) \<le> of_int (hi * (n - 1))"
      using a assms(4) by (simp_all add: mult_right_mono)
    moreover have b1: "\<bar>lo * (n - 1)\<bar> \<le> 2 ^ 53" "\<bar>hi * (n - 1)\<bar> \<le> 2 ^ 53"
      using bounds [of "n - 1"] assms(4) by auto
    ultimately obtain p where p: "rnd (a * of_int (n - 1)) = Fin p" "of_int (lo * (n - 1)) \<le> p"
      "p \<le> of_int (hi * (n - 1))"
      using rnd_between by metis
    have "of_int (lo * n) \<le> p + of_int l" "p + of_int l \<le> of_int (hi * n)"
      using p assms(7,8) by (simp_all add: algebra_simps)
    moreover have b2: "\<bar>lo * n\<bar> \<le> 2 ^ 53" "\<bar>hi * n\<bar> \<le> 2 ^ 53"
      using bounds [of n] assms(4) by auto
    ultimately obtain q where q: "rnd (p + of_int l) = Fin q" "of_int (lo * n) \<le> q" "q \<le> of_int (hi * n)"
      using rnd_between by metis
    have "of_int lo \<le> q / of_int n" "q / of_int n \<le> of_int hi"
      using q assms(4) by (simp_all add: field_simps)
    moreover have "\<bar>lo\<bar> \<le> 2 ^ 53" "\<bar>hi\<bar> \<le> 2 ^ 53" using small assms(1,2) by auto
    ultimately obtain v where "rnd (q / of_int n) = Fin v" "of_int lo \<le> v" "v \<le> of_int hi"
      using rnd_between by metis
    then show ?thesis
      using p q assms(4) False by (simp add: next_avg_def n1 fin a)
  qed
qed

lemma f64_ratio_bounds:
  assumes "0 \<le> h" and "h \<le> n" and "0 < n" and "n \<le> 2 ^ 53"
  shows "0 \<le> f64_of_int h / f64_of_int n \<and> f64_of_int h / f64_of_int n \<le> 1"
proof -
  have fin: "f64_of_int h = Fin (of_int h)" "f64_of_int n = Fin (of_int n)"
    using assms by (simp_all add: f64_of_int_small)
  have "of_int 0 \<le> (of_int h / of_int n :: rat)" "(of_int h / of_int n :: rat) \<le> of_int 1"
    using assms by (simp_all add: divide_le_eq_1)
  then obtain p where "rnd (of_int h / of_int n) = Fin p" "of_int 0 \<le> p" "p \<le> of_int 1"
    using rnd_between [of 0 "of_int h / of_int n" 1] by auto
  then show ?thesis using assms(3) by (simp add: fin zero_f64_def one_f64_def)
qed

lemma hit_rate_bounds:
  assumes "int (length evs) \<le> 2 ^ 53"
  shows "0 \<le> us_CacheHitRate (stats_Snapshot (stats_run evs)) \<and>
    us_CacheHitRate (stats_Snapshot (stats_run evs)) \<le> 1"
proof -
  let ?h = "int (length (filter rm_CacheHit (map snd evs)))" and ?n = "int (length evs)"
  have h: "?h \<le> ?n" using length_filter_le [of rm_CacheHit "map snd evs"] by simp
  have "st_cacheHits (stats_run evs) = ?h" "st_totalRequests (stats_run evs) = ?n"
    using stats_run_totals [of evs] wrap64_small [of ?h] wrap64_small [of ?n] assms h by linarith+
  then show ?thesis
    using f64_ratio_bounds [of ?h ?n] h assms
    by (simp add: stats_Snapshot_def) (simp add: zero_f64_def one_f64_def)
qed

lemma usage_run_avg:
  assumes "0 \<le> lo" and "lo \<le> hi" and "hi * int (length evs) \<le> 2 ^ 53" and "evs \<noteq> []"
    and "int (length evs) \<le> 2 ^ 53"
    and "\<And>ev. ev \<in> set evs \<Longrightarrow> lo \<le> duration_ms (rm_Latency (snd ev)) \<and> duration_ms (rm_Latency (snd ev)) \<le> hi"
  shows "f64_of_int lo \<le> mu_AvgLatencyMs (usage_run evs) \<and> mu_AvgLatencyMs (usage_run evs) \<le> f64_of_int hi"
  using assms(3-)
proof (induction evs rule: rev_induct)
  case (snoc ev evs)
  obtain now m where ev: "ev = (now, m)" by fastforce
  let ?n = "int (length (evs @ [ev]))"
  have n: "mu_Requests (usage_run (evs @ [ev])) = ?n"
    using usage_run_counts [of "evs @ [ev]"] snoc.prems(3) by (simp add: int64_ok_def)
  have prev: "hi * int (length evs) \<le> 2 ^ 53" "int (length evs) \<le> 2 ^ 53"
    using snoc.prems(1,3) assms(1,2) by (simp_all add: distrib_left)
  have avg: "mu_AvgLatencyMs (usage_run (evs @ [ev])) =
      next_avg (mu_AvgLatencyMs (usage_run evs)) ?n (f64_of_int (duration_ms (rm_Latency m)))"
    using n by (simp add: ev)
  show ?case
    unfolding avg
  proof (rule next_avg_bounds [OF assms(1,2) snoc.prems(1)])
    show "f64_of_int lo \<le> mu_AvgLatencyMs (usage_run evs) \<and> mu_AvgLatencyMs (usage_run evs) \<le> f64_of_int hi"
      if "?n \<noteq> 1"
    proof -
      have "evs \<noteq> []" using that by auto
      then show ?thesis using snoc.IH prev snoc.prems(4) by simp
    qed
  qed (use snoc.prems(3) snoc.prems(4) [of ev] in \<open>simp_all add: ev\<close>)
qed simp

section \<open>Properties\<close>

text \<open>
  Claim C22.  After any run of events the snapshot holds, modulo 64-bit wrap-around, the
  number of events and the sum of their positive token counts, and per model name (\<open>unknown\<close>
  for an empty one) the number of its events, of its errors, its tokens, and the status and
  time of its last event; a model without events has no entry.
\<close>

theorem stats_run_snapshot:
  "us_TotalRequests (stats_Snapshot (stats_run evs)) = wrap64 (int (length evs)) \<and>
   us_TotalTokens (stats_Snapshot (stats_run evs)) = wrap64 (\<Sum>m\<leftarrow>map snd evs. tokens_of m) \<and>
   (case us_Models (stats_Snapshot (stats_run evs)) n of
      None \<Rightarrow> model_events n evs = []
    | Some e \<Rightarrow> model_events n evs \<noteq> [] \<and>
        mu_Requests e = wrap64 (int (length (model_events n evs))) \<and>
        mu_Errors e = wrap64 (int (length (filter (\<lambda>ev. 400 \<le> rm_StatusCode (snd ev)) (model_events n evs)))) \<and>
        mu_TotalTokens e = wrap64 (\<Sum>ev\<leftarrow>model_events n evs. tokens_of (snd ev)) \<and>
        mu_LastStatus e = rm_StatusCode (snd (last (model_events n evs))) \<and>
        mu_LastUpdatedAt e = format_rfc3339 (fst (last (model_events n evs))))"
  using stats_run_totals [of evs] stats_run_model [of evs n] usage_run_counts [of "model_events n evs"]
  by (simp add: stats_Snapshot_def)

text \<open>
  Claim C23.  The average latency that the aggregator keeps in floating point lies between the
  least and the greatest latency in milliseconds of the model's events, rounding errors
  included, as long as the greatest latency times the number of events stays below
  \<open>2 ^ 53\<close>; and the cache hit rate lies between 0 and 1.
\<close>

theorem stats_averages_bounded:
  assumes "us_Models (stats_Snapshot (stats_run evs)) n = Some e"
    and "0 \<le> lo" and "lo \<le> hi" and "hi * int (length evs) \<le> 2 ^ 53" and "int (length evs) \<le> 2 ^ 53"
    and "\<And>ev. ev \<in> set (model_events n evs) \<Longrightarrow>
      lo \<le> duration_ms (rm_Latency (snd ev)) \<and> duration_ms (rm_Latency (snd ev)) \<le> hi"
  shows "f64_of_int lo \<le> mu_AvgLatencyMs e \<and> mu_AvgLatencyMs e \<le> f64_of_int hi \<and>
    0 \<le> us_CacheHitRate (stats_Snapshot (stats_run evs)) \<and>
    us_CacheHitRate (stats_Snapshot (stats_run evs)) \<le> 1"
proof -
  let ?ms = "model_events n evs"
  have e: "?ms \<noteq> []" "e = usage_run ?ms"
    using assms(1) stats_run_model [of evs n] by (simp_all add: stats_Snapshot_def split: if_splits)
  have len: "int (length ?ms) \<le> int (length evs)" by (simp add: model_events_def)
  then have "hi * int (length ?ms) \<le> 2 ^ 53" "int (length ?ms) \<le> 2 ^ 53"
    using mult_left_mono [OF len, of hi] assms(2-5) by linarith+
  then have "f64_of_int lo \<le> mu_AvgLatencyMs e \<and> mu_AvgLatencyMs e \<le> f64_of_int hi"
    unfolding e(2) by (rule usage_run_avg [OF assms(2,3) _ e(1) _ assms(6)])
  moreover have "0 \<le> us_CacheHitRate (stats_Snapshot (stats_run evs)) \<and>
      us_CacheHitRate (stats_Snapshot (stats_run evs)) \<le> 1"
    by (rule hit_rate_bounds [OF assms(5)])
  ultimately show ?thesis by blast
qed

theorem stats_averages_bounded_witness:
  "f64_of_int 10 \<le> mu_AvgLatencyMs (the (us_Models (stats_Snapshot (stats_run
     [(1, \<lparr>rm_Endpoint = '''', rm_Model = '''', rm_StatusCode = 200, rm_Latency = 10 * millisecond, rm_CacheHit = True, rm_TotalTokens = 3\<rparr>),
      (2, \<lparr>rm_Endpoint = '''', rm_Model = '''', rm_StatusCode = 500, rm_Latency = 31 * millisecond, rm_CacheHit = False, rm_TotalTokens = 0\<rparr>)])) ''unknown''))"
proof -
  let ?evs = "[(1, \<lparr>rm_Endpoint = '''', rm_Model = '''', rm_StatusCode = 200, rm_Latency = 10 * millisecond, rm_CacheHit = True, rm_TotalTokens = 3\<rparr>),
      (2, \<lparr>rm_Endpoint = '''', rm_Model = '''', rm_StatusCode = 500, rm_Latency = 31 * millisecond, rm_CacheHit = False, rm_TotalTokens = 0\<rparr>)]
      :: (time \<times> request_metric) list"
  have ms: "model_events ''unknown'' ?evs = ?evs" by (simp add: model_events_def metric_model_def)
  then obtain e where e: "us_Models (stats_Snapshot (stats_run ?evs)) ''unknown'' = Some e"
    using stats_run_model [of ?evs "''unknown''"] by (simp add: stats_Snapshot_def)
  have "f64_of_int 10 \<le> mu_AvgLatencyMs e"
    by (rule stats_averages_bounded [OF e, of 10 31, THEN conjunct1]) (unfold ms, auto simp: duration_ms_def)
  with e show ?thesis by simp
qed

end
