(* ===== verification/Admin.thy ===== *)
theory Admin
  imports Auth Postgres Stats Workflow
begin

text \<open>
  \<open>internal/handler/admin.go\<close>: the admin handlers.  A handler returns the status and the
  value it gives to \<open>c.JSON\<close>; \<open>Panicked\<close> is a call on a nil client, which the recovery
  handler turns into a bare 500.  Decoding the request is JSON over the model; the text of a
  decoding error is a parameter.
\<close>

section \<open>Requests and replies\<close>

record create_key_request =
  ck_Name :: string
  ck_RateLimit :: int

record created_key =
  cr_id :: string
  cr_key :: string
  cr_name :: string
  cr_rate_limit :: int
  cr_is_active :: bool

record model_entry =
  me_id :: string
  me_object :: string
  me_created :: int
  me_owned_by :: string
  me_permission :: "string list"

datatype admin_body =
    ErrorBody gateway_error
  | NotFoundBody string string string
  | CreatedBody created_key
  | KeysBody "api_key list"
  | MessageBody string
  | PgStatsBody pg_snapshot
  | MemStatsBody usage_snapshot
  | SummaryBody workflow_summary
  | SummariesBody "workflow_summary list"
  | ModelsBody "model_entry list"
  | Panicked

type_synonym admin_reply = "int \<times> admin_body"

definition reply_error :: "gateway_error \<Rightarrow> admin_reply" where
  "reply_error e = (HTTPStatus e, ErrorBody e)"

abbreviation panic_reply :: admin_reply where "panic_reply \<equiv> (500, Panicked)"

text \<open>\<open>ShouldBindJSON\<close>: the first JSON value of the body, decoded into a zero variable.\<close>

definition bind_json :: "'a dec \<Rightarrow> 'a \<Rightarrow> (string \<Rightarrow> string) \<Rightarrow> string option \<Rightarrow> string + 'a" where
  "bind_json d zero err body =
     (case body of
        None \<Rightarrow> Inl ''invalid request''
      | Some b \<Rightarrow>
          (case Option.bind (json_decode b) (\<lambda>(j, _). d j zero) of
             None \<Rightarrow> Inl (err b)
           | Some a \<Rightarrow> Inr a))"

definition dec_create_key :: "create_key_request dec" where
  "dec_create_key = dec_struct
     [(''name'', dec_into ck_Name ck_Name_update dec_string),
      (''rate_limit'', dec_into ck_RateLimit ck_RateLimit_update dec_int)]"

section \<open>Keys\<close>

text \<open>\<open>rand n\<close> are the bytes \<open>crypto/rand.Read\<close> puts into a buffer of \<open>n\<close> bytes.\<close>

definition generateRandomString :: "(nat \<Rightarrow> 'w \<Rightarrow> nat list \<times> 'w) \<Rightarrow> nat \<Rightarrow> 'w \<Rightarrow> string \<times> 'w" where
  "generateRandomString rand len w =
     (case rand len w of (bytes, w) \<Rightarrow> (take len (hex_encode bytes), w))"

definition hashKey :: "string \<Rightarrow> string" where
  "hashKey key = to_lower key"

definition AdminAuth :: "(string \<Rightarrow> string) \<Rightarrow> gateway_error option" where
  "AdminAuth header =
     (if header ''X-Admin-Key'' = '''' then Some (InvalidRequest ''Missing admin key'') else None)"

definition CreateAPIKey ::
  "(nat \<Rightarrow> 'w \<Rightarrow> nat list \<times> 'w) \<Rightarrow> (string \<Rightarrow> string) \<Rightarrow> 'w pg_client option
    \<Rightarrow> 'w redis_client option \<Rightarrow> string option \<Rightarrow> 'w \<Rightarrow> admin_reply \<times> 'w" where
  "CreateAPIKey rand err pg redisClient body w =
     (case bind_json dec_create_key \<lparr>ck_Name = '''', ck_RateLimit = 0\<rparr> err body of
        Inl e \<Rightarrow> (reply_error (InvalidRequest e), w)
      | Inr req \<Rightarrow>
          (case generateRandomString rand 32 w of
             (s, w) \<Rightarrow>
               let apiKey = ''sk-'' @ s; keyHash = hashKey apiKey
               in case pg_handle pg of
                    None \<Rightarrow> (panic_reply, w)
                  | Some db \<Rightarrow>
                      (case pg_CreateAPIKey db keyHash (ck_Name req) (ck_RateLimit req) w of
                         (Inl _, w) \<Rightarrow> (reply_error (InternalError ''Failed to create API key''), w)
                       | (Inr key, w) \<Rightarrow>
                           ((201, CreatedBody \<lparr>cr_id = ak_ID key, cr_key = apiKey, cr_name = ak_Name key,
                              cr_rate_limit = ak_RateLimit key, cr_is_active = ak_IsActive key\<rparr>), w))))"

definition ListAPIKeys :: "'w pg_client option \<Rightarrow> 'w \<Rightarrow> admin_reply \<times> 'w" where
  "ListAPIKeys pg w =
     (case pg_handle pg of
        None \<Rightarrow> (panic_reply, w)
      | Some db \<Rightarrow>
          (case pg_ListAPIKeys db w of
             (Inl _, w) \<Rightarrow> (reply_error (InternalError ''Failed to list API keys''), w)
           | (Inr keys, w) \<Rightarrow> ((200, KeysBody keys), w)))"

definition DeleteAPIKey ::
  "'w pg_client option \<Rightarrow> 'w redis_client option \<Rightarrow> string \<Rightarrow> 'w \<Rightarrow> admin_reply \<times> 'w" where
  "DeleteAPIKey pg redisClient i w =
     (if i = '''' then (reply_error (InvalidRequest ''Key ID is required''), w)
      else
        (case pg_handle pg of
           None \<Rightarrow> (panic_reply, w)
         | Some db \<Rightarrow>
             (case pg_DeleteAPIKey db i w of
                (Some _, w) \<Rightarrow> (reply_error (InternalError ''Failed to delete API key''), w)
              | (None, w) \<Rightarrow> ((200, MessageBody ''API key deleted''), w))))"

section \<open>Statistics, workflows and models\<close>

text \<open>\<open>stats\<close> is the state of \<open>DefaultUsageStats\<close>.  A failed read is logged and falls back.\<close>

definition GetStats ::
  "'w pg_client option \<Rightarrow> usage_stats \<Rightarrow> 'w \<Rightarrow> (admin_reply \<times> string list) \<times> 'w" where
  "GetStats pg stats w =
     (case pg of
        None \<Rightarrow> (((200, MemStatsBody (stats_Snapshot stats)), []), w)
      | Some _ \<Rightarrow>
          (case GetUsageSnapshot pg w of
             (Inr snapshot, w) \<Rightarrow> (((200, PgStatsBody snapshot), []), w)
           | (Inl _, w) \<Rightarrow>
               (((200, MemStatsBody (stats_Snapshot stats)),
                 [''failed to read stats from postgres, falling back to in-memory stats'']), w)))"

definition GetWorkflowSummary :: "workflow_tracer \<Rightarrow> string \<Rightarrow> admin_reply" where
  "GetWorkflowSummary tracer param =
     (let sessionID = trim_space param
      in if sessionID = '''' then reply_error (InvalidRequest ''session_id is required'')
         else
           (case GetSummary tracer sessionID of
              None \<Rightarrow> (404, NotFoundBody ''workflow session not found'' ''invalid_request_error'' ''invalid_request'')
            | Some summary \<Rightarrow> (200, SummaryBody summary)))"

text \<open>\<open>strconv.Atoi\<close>: an optional sign, then digits, in the range of the type.\<close>

definition atoi :: "string \<Rightarrow> int option" where
  "atoi s =
     (let (neg, ds) = (case s of c # r \<Rightarrow> if c = CHR ''-'' then (True, r)
                         else if c = CHR ''+'' then (False, r) else (False, s) | [] \<Rightarrow> (False, s));
          v = (if neg then - int (nat_of_digits ds) else int (nat_of_digits ds))
      in if ds \<noteq> [] \<and> list_all is_digit ds \<and> int64_ok v then Some v else None)"

definition summaries_limit :: "string \<Rightarrow> int" where
  "summaries_limit query =
     (let raw = trim_space query
      in if raw = '''' then 20
         else (case atoi raw of Some parsed \<Rightarrow> if parsed > 0 then parsed else 20 | None \<Rightarrow> 20))"

text \<open>\<open>order\<close> is the order in which the tracer's map is read.\<close>

definition ListWorkflowSummaries :: "workflow_tracer \<Rightarrow> string list \<Rightarrow> string \<Rightarrow> admin_reply" where
  "ListWorkflowSummaries tracer order query =
     (200, SummariesBody (ListSummaries tracer order (summaries_limit query)))"

definition ListModels :: "config \<Rightarrow> admin_reply" where
  "ListModels cfg =
     (200, ModelsBody (map (\<lambda>m. \<lparr>me_id = mc_Name m, me_object = ''model'', me_created = 0,
        me_owned_by = mc_Provider m, me_permission = []\<rparr>) (cfg_Models cfg)))"

section \<open>Created keys and authentication\<close>

lemma generateRandomString_length:
  "rand n w = (bytes, w1) \<Longrightarrow> length bytes = n \<Longrightarrow> generateRandomString rand n w = (s, w') \<Longrightarrow>
    length s = n"
proof -
  have "length (hex_encode bs) = 2 * length bs" for bs
    by (induction bs) (simp_all add: hex_encode_def)
  then show "rand n w = (bytes, w1) \<Longrightarrow> length bytes = n \<Longrightarrow> generateRandomString rand n w = (s, w') \<Longrightarrow>
    length s = n"
    by (auto simp: generateRandomString_def)
qed

lemma hashKey_length [simp]: "length (hashKey k) = length k"
  by (simp add: hashKey_def to_lower_def)

text \<open>
  Claim C30. A key made by the admin API cannot be used: \<open>CreateAPIKey\<close> leaves the key store
  that the authentication reads to the database (it issues the random read and one INSERT and
  no Redis command), and the hash it inserts, 35 characters, differs from the 64-character
  hash under which the authentication looks up any presented key whatever.
\<close>
theorem created_key_never_matches:
  assumes "rand 32 w = (bytes, w1)" and "length bytes = 32"
    and "CreateAPIKey rand err (Some \<lparr>pg_db = Some db\<rparr>) redisClient body w = ((201, CreatedBody k), w')"
  shows "\<exists>name limit row. length (cr_key k) = 35 \<and>
     sq_QueryRow db create_key_sql [SText (hashKey (cr_key k)), SText name, SInt limit] w1 = (Inr row, w') \<and>
     (\<forall>presented. hashKey (cr_key k) \<noteq> hashAPIKey presented)"
proof -
  let ?s = "take 32 (hex_encode bytes)"
  have s: "generateRandomString rand 32 w = (?s, w1)"
    using assms(1) by (simp add: generateRandomString_def)
  have len: "length ?s = 32" by (rule generateRandomString_length [OF assms(1,2) s])
  obtain req where bind: "bind_json dec_create_key \<lparr>ck_Name = '''', ck_RateLimit = 0\<rparr> err body = Inr req"
    using assms(3) by (auto simp: CreateAPIKey_def reply_error_def split: sum.splits)
  obtain key where ins: "pg_CreateAPIKey db (hashKey (''sk-'' @ ?s)) (ck_Name req) (ck_RateLimit req) w1 = (Inr key, w')"
    and k: "cr_key k = ''sk-'' @ ?s"
    using assms(3) bind s
    by (auto simp: CreateAPIKey_def reply_error_def pg_handle_def Let_def split: sum.splits prod.splits)
  obtain row where "sq_QueryRow db create_key_sql
      [SText (hashKey (''sk-'' @ ?s)), SText (ck_Name req), SInt (ck_RateLimit req)] w1 = (Inr row, w')"
    using ins by (auto simp: pg_CreateAPIKey_def split: prod.splits sum.splits)
  moreover have "hashKey (''sk-'' @ ?s) \<noteq> hashAPIKey presented" for presented
  proof
    assume "hashKey (''sk-'' @ ?s) = hashAPIKey presented"
    then have "length (''sk-'' @ ?s) = length (hashAPIKey presented)" by (metis hashKey_length)
    then show False using len by (simp add: hashAPIKey_def sha256_hex_length)
  qed
  ultimately show ?thesis using k len by auto
qed

definition ex_insert_sql :: "nat sql_ops" where
  "ex_insert_sql = ex_sql\<lparr>sq_QueryRow :=
     (\<lambda>q args w. (Inr [SText ''1'', SText ''h'', SText ''ci'', SInt 5, SBool True, SNull, SNull, SNull], Suc w))\<rparr>"

lemma ex_bind:
  "bind_json dec_create_key \<lparr>ck_Name = '''', ck_RateLimit = 0\<rparr> err (Some ''{}'') =
    Inr \<lparr>ck_Name = '''', ck_RateLimit = 0\<rparr>"
proof -
  have "json_decode ''{}'' = Some (JObj [], [])" by code_simp
  then show ?thesis by (simp add: bind_json_def dec_create_key_def dec_struct_def)
qed

theorem created_key_never_matches_witness:
  "\<exists>k w'. CreateAPIKey (\<lambda>n w. (replicate n 0, w)) (\<lambda>_. '''') (Some \<lparr>pg_db = Some ex_insert_sql\<rparr>) None
      (Some ''{}'') 0 = ((201, CreatedBody k), w') \<and>
    (\<forall>presented. hashKey (cr_key k) \<noteq> hashAPIKey presented)"
proof -
  let ?create = "CreateAPIKey (\<lambda>n w. (replicate n 0, w)) (\<lambda>_. '''') (Some \<lparr>pg_db = Some ex_insert_sql\<rparr>) None
      (Some ''{}'') 0"
  obtain k w' where run: "?create = ((201, CreatedBody k), w')"
    by (simp add: CreateAPIKey_def ex_bind generateRandomString_def pg_handle_def pg_CreateAPIKey_def
        ex_insert_sql_def scan_api_key_def scanned_def int64_ok_def Let_def)
  show ?thesis
    using created_key_never_matches [OF _ _ run, of "replicate 32 0" 0] run by fastforce
qed

text \<open>
  \<open>GetStats\<close> always answers 200: with the database snapshot exactly when there is a
  client and the read succeeds, and otherwise with the snapshot of the process, and it warns
  exactly when a client failed.
\<close>
lemma GetStats_total:
  assumes "GetStats pg stats w = ((reply, warnings), w')"
  shows "fst reply = 200 \<and>
    (case fst (GetUsageSnapshot pg w) of
       Inr snapshot \<Rightarrow> reply = (200, PgStatsBody snapshot) \<and> warnings = []
     | Inl _ \<Rightarrow> reply = (200, MemStatsBody (stats_Snapshot stats)) \<and> (warnings = [] \<longleftrightarrow> pg = None)) \<and>
    (pg = None \<longrightarrow> w' = w)"
  using assms
  by (auto simp: GetStats_def GetUsageSnapshot_def pg_handle_def split: option.splits prod.splits sum.splits)

end
