(* ===== verification/L2Cache.thy ===== *)
theory L2Cache
  imports Redis GoTime FloatText
begin

text \<open>
  \<open>internal/service/cache/l2.go\<close>: the semantic cache.  An entry is the JSON of a vector with
  its response, stored under a key of its own; a search reads every key of the prefix and
  keeps the entry with the largest cosine similarity.  Vectors are \<open>float64\<close>.  A run-time
  panic is the value \<open>Panics\<close>.  \<open>sort.Slice\<close> leaves the order of equal elements open: the
  sort is a parameter with the law \<open>sorts\<close>.
\<close>

datatype 'a go = Panics | Returns 'a

section \<open>Data\<close>

record vector_entry =
  ve_Vector :: "f64 list"
  ve_Response :: string
  ve_Model :: string
  ve_Created :: int

record search_result =
  sr_Response :: string
  sr_Similarity :: f64
  sr_Key :: string

record l2_config =
  l2c_Enabled :: bool
  l2c_SimilarityThreshold :: f64
  l2c_TTL :: int
  l2c_MaxSize :: int
  l2c_KeyPrefix :: string
  l2c_VectorDim :: int

record 'w l2_cache =
  l2_client :: "'w redis_ops option"
  l2_similarityThreshold :: f64
  l2_ttl :: duration
  l2_maxSize :: int
  l2_keyPrefix :: string
  l2_vectorDim :: int

definition NewL2Cache :: "'w redis_ops option \<Rightarrow> l2_config \<Rightarrow> 'w l2_cache" where
  "NewL2Cache client cfg =
     \<lparr>l2_client = client, l2_similarityThreshold = l2c_SimilarityThreshold cfg,
      l2_ttl = wrap64 (l2c_TTL cfg * second), l2_maxSize = l2c_MaxSize cfg,
      l2_keyPrefix = l2c_KeyPrefix cfg, l2_vectorDim = l2c_VectorDim cfg\<rparr>"

text \<open>\<open>json.Marshal\<close> of an entry with a non-nil vector; None when a component is not finite.\<close>

definition marshal_entry :: "vector_entry \<Rightarrow> string option" where
  "marshal_entry e =
     map_option (\<lambda>ls. render (JObj
        [(''vector'', JArr (map JNum ls)), (''response'', JStr (ve_Response e)),
         (''model'', JStr (ve_Model e)), (''created'', JInt (ve_Created e))]))
       (map_opt float_literal (ve_Vector e))"

definition entry_zero :: vector_entry where
  "entry_zero = \<lparr>ve_Vector = [], ve_Response = '''', ve_Model = '''', ve_Created = 0\<rparr>"

definition dec_entry :: "vector_entry dec" where
  "dec_entry = dec_struct
     [(''vector'', dec_into ve_Vector ve_Vector_update (dec_slice dec_float 0)),
      (''response'', dec_into ve_Response ve_Response_update dec_string),
      (''model'', dec_into ve_Model ve_Model_update dec_string),
      (''created'', dec_into ve_Created ve_Created_update dec_int)]"

definition unmarshal_entry :: "string \<Rightarrow> vector_entry option" where
  "unmarshal_entry data = Option.bind (json_parse data) (\<lambda>j. dec_entry j entry_zero)"

section \<open>Vectors\<close>

text \<open>The three running sums of the loop.\<close>

fun cosine_sums :: "f64 list \<Rightarrow> f64 list \<Rightarrow> f64 \<times> f64 \<times> f64 \<Rightarrow> f64 \<times> f64 \<times> f64" where
  "cosine_sums (a # as) (b # bs) (d, na, nb) = cosine_sums as bs (d + a * b, na + a * a, nb + b * b)"
| "cosine_sums _ _ s = s"

definition cosineSimilarity :: "f64 list \<Rightarrow> f64 list \<Rightarrow> f64" where
  "cosineSimilarity a b =
     (if length a \<noteq> length b then 0
      else case cosine_sums a b (0, 0, 0) of (dotProduct, normA, normB) \<Rightarrow>
        if f64_eq normA 0 \<or> f64_eq normB 0 then 0
        else dotProduct / (f64_sqrt normA * f64_sqrt normB))"

definition NormalizeVector :: "f64 list \<Rightarrow> f64 list" where
  "NormalizeVector v =
     (let norm = f64_sqrt (foldl (\<lambda>s x. s + x * x) 0 v)
      in if f64_eq norm 0 then v else map (\<lambda>x. x / norm) v)"

definition FormatVectorKey :: "string \<Rightarrow> string" where
  "FormatVectorKey hash = ''l2:vector:'' @ hash"

section \<open>Search\<close>

definition l2_pattern :: "'w l2_cache \<Rightarrow> string" where
  "l2_pattern c = (l2_keyPrefix c @ '':'') @ ''*''"

text \<open>The entry a key holds, as the loops read it; a failed read or decode is None.\<close>

definition read_entry :: "'w redis_ops \<Rightarrow> string \<Rightarrow> 'w \<Rightarrow> vector_entry option \<times> 'w" where
  "read_entry ops key w =
     (case rd_Get ops key w of
        (Inl _, w) \<Rightarrow> (None, w)
      | (Inr data, w) \<Rightarrow> (unmarshal_entry data, w))"

text \<open>One step of the loop: \<open>best\<close> is \<open>bestMatch\<close>, which holds \<open>bestSimilarity\<close>.\<close>

definition consider_entry ::
  "'w l2_cache \<Rightarrow> f64 list \<Rightarrow> string \<Rightarrow> string \<Rightarrow> vector_entry \<Rightarrow> search_result option \<Rightarrow> search_result option" where
  "consider_entry c queryVector model key entry best =
     (if model \<noteq> '''' \<and> ve_Model entry \<noteq> model then best
      else
        let similarity = cosineSimilarity queryVector (ve_Vector entry)
        in if l2_similarityThreshold c \<le> similarity \<and>
             (case best of None \<Rightarrow> True | Some b \<Rightarrow> sr_Similarity b < similarity)
           then Some \<lparr>sr_Response = ve_Response entry, sr_Similarity = similarity, sr_Key = key\<rparr>
           else best)"

fun search_loop ::
  "'w l2_cache \<Rightarrow> 'w redis_ops \<Rightarrow> f64 list \<Rightarrow> string \<Rightarrow> string list \<Rightarrow> search_result option \<Rightarrow> 'w
    \<Rightarrow> search_result option \<times> 'w" where
  "search_loop c ops q model [] best w = (best, w)"
| "search_loop c ops q model (key # keys) best w =
     (case read_entry ops key w of
        (None, w) \<Rightarrow> search_loop c ops q model keys best w
      | (Some entry, w) \<Rightarrow> search_loop c ops q model keys (consider_entry c q model key entry best) w)"

definition l2_Search ::
  "'w l2_cache \<Rightarrow> f64 list \<Rightarrow> string \<Rightarrow> 'w \<Rightarrow> (redis_err + search_result option) \<times> 'w" where
  "l2_Search c queryVector model w =
     (case l2_client c of
        None \<Rightarrow> (Inr None, w)
      | Some ops \<Rightarrow>
          (case rd_Keys ops (l2_pattern c) w of
             (Inl e, w) \<Rightarrow> (Inl e, w)
           | (Inr keys, w) \<Rightarrow>
               if keys = [] then (Inr None, w)
               else (case search_loop c ops queryVector model keys None w of (best, w) \<Rightarrow> (Inr best, w))))"

section \<open>Eviction and storing\<close>

fun read_entries :: "'w redis_ops \<Rightarrow> string list \<Rightarrow> 'w \<Rightarrow> (string \<times> vector_entry) list \<times> 'w" where
  "read_entries ops [] w = ([], w)"
| "read_entries ops (key # keys) w =
     (case read_entry ops key w of
        (None, w) \<Rightarrow> read_entries ops keys w
      | (Some entry, w) \<Rightarrow>
          (case read_entries ops keys w of (es, w) \<Rightarrow> ((key, entry) # es, w)))"

type_synonym entry_sort = "(string \<times> vector_entry) list \<Rightarrow> (string \<times> vector_entry) list"

definition sorts :: "entry_sort \<Rightarrow> bool" where
  "sorts srt \<longleftrightarrow> (\<forall>es. mset (srt es) = mset es \<and> sorted (map (ve_Created \<circ> snd) (srt es)))"

text \<open>
  The keys to delete: the oldest tenth, at least one.  The loop indexes \<open>entries\<close>, so with no
  entry at all it panics.
\<close>

definition oldest_keys :: "entry_sort \<Rightarrow> (string \<times> vector_entry) list \<Rightarrow> string list go" where
  "oldest_keys srt entries =
     (let deleteCount = (if length entries div 10 < 1 then 1 else length entries div 10)
      in if length entries < deleteCount then Panics
         else Returns (map fst (take deleteCount (srt entries))))"

definition l2_evictIfNeeded ::
  "entry_sort \<Rightarrow> 'w l2_cache \<Rightarrow> 'w redis_ops \<Rightarrow> 'w \<Rightarrow> redis_err option go \<times> 'w" where
  "l2_evictIfNeeded srt c ops w =
     (if l2_maxSize c \<le> 0 then (Returns None, w)
      else
        (case rd_Keys ops (l2_pattern c) w of
           (Inl e, w) \<Rightarrow> (Returns (Some e), w)
         | (Inr keys, w) \<Rightarrow>
             if int (length keys) \<ge> l2_maxSize c then
               (case read_entries ops keys w of
                  (entries, w) \<Rightarrow>
                    (case oldest_keys srt entries of
                       Panics \<Rightarrow> (Panics, w)
                     | Returns ks \<Rightarrow> (Returns None, snd (rd_Del ops ks w))))
             else (Returns None, w)))"

text \<open>\<open>Time.Unix\<close>.\<close>

definition unix_seconds :: "time \<Rightarrow> int" where
  "unix_seconds t = t div second - 62135596800"

datatype store_err = MarshalErr | StoreErr redis_err

definition l2_Store ::
  "entry_sort \<Rightarrow> 'w l2_cache \<Rightarrow> time \<Rightarrow> string \<Rightarrow> f64 list \<Rightarrow> string \<Rightarrow> string \<Rightarrow> 'w
    \<Rightarrow> store_err option go \<times> 'w" where
  "l2_Store srt c now key vector response model w =
     (case l2_client c of
        None \<Rightarrow> (Returns None, w)
      | Some ops \<Rightarrow>
          (case l2_evictIfNeeded srt c ops w of
             (Panics, w) \<Rightarrow> (Panics, w)
           | (Returns _, w) \<Rightarrow>
               (case marshal_entry \<lparr>ve_Vector = vector, ve_Response = response, ve_Model = model,
                       ve_Created = unix_seconds now\<rparr> of
                  None \<Rightarrow> (Returns (Some MarshalErr), w)
                | Some data \<Rightarrow>
                    (case rd_Set ops (l2_keyPrefix c @ '':'' @ key) data (l2_ttl c) w of
                       (e, w) \<Rightarrow> (Returns (map_option StoreErr e), w)))))"

definition l2_Delete :: "'w l2_cache \<Rightarrow> string \<Rightarrow> 'w \<Rightarrow> redis_err option \<times> 'w" where
  "l2_Delete c key w =
     (case l2_client c of None \<Rightarrow> (None, w) | Some ops \<Rightarrow> rd_Del ops [l2_keyPrefix c @ '':'' @ key] w)"

definition l2_Clear :: "'w l2_cache \<Rightarrow> 'w \<Rightarrow> redis_err option \<times> 'w" where
  "l2_Clear c w =
     (case l2_client c of
        None \<Rightarrow> (None, w)
      | Some ops \<Rightarrow>
          (case rd_Keys ops (l2_pattern c) w of
             (Inl e, w) \<Rightarrow> (Some e, w)
           | (Inr keys, w) \<Rightarrow> if keys \<noteq> [] then rd_Del ops keys w else (None, w)))"

record l2_stats =
  l2s_keys :: int
  l2s_enabled :: bool
  l2s_similarityThreshold :: f64
  l2s_limits :: "(int \<times> f64) option"

definition l2_Stats :: "'w l2_cache \<Rightarrow> 'w \<Rightarrow> (redis_err + l2_stats) \<times> 'w" where
  "l2_Stats c w =
     (case l2_client c of
        None \<Rightarrow> (Inr \<lparr>l2s_keys = 0, l2s_enabled = False,
                   l2s_similarityThreshold = l2_similarityThreshold c, l2s_limits = None\<rparr>, w)
      | Some ops \<Rightarrow>
          (case rd_Keys ops (l2_pattern c) w of
             (Inl e, w) \<Rightarrow> (Inl e, w)
           | (Inr keys, w) \<Rightarrow>
               (Inr \<lparr>l2s_keys = int (length keys), l2s_enabled = True,
                  l2s_similarityThreshold = l2_similarityThreshold c,
                  l2s_limits = Some (l2_maxSize c, duration_seconds (l2_ttl c))\<rparr>, w)))"

section \<open>Entries round trip\<close>

text \<open>An entry with finite components and UTF-8 texts.\<close>

definition valid_entry :: "vector_entry \<Rightarrow> bool" where
  "valid_entry e \<longleftrightarrow>
     list_all f64_wf (ve_Vector e) \<and> valid_utf8 (ve_Response e) \<and> valid_utf8 (ve_Model e) \<and>
     int64_ok (ve_Created e)"

lemma vector_roundtrip:
  assumes "list_all f64_wf v"
  shows "\<exists>ls. map_opt float_literal v = Some ls \<and> list_all num_ok ls \<and>
     map_opt (\<lambda>x. dec_float x 0) (map JNum ls) = Some v"
  using assms
proof (induction v)
  case (Cons x v)
  obtain l where "float_literal x = Some l" "num_ok l" "dec_float (JNum l) 0 = Some x"
    using float_roundtrip [of x] Cons.prems by auto
  then show ?case using Cons by fastforce
qed simp

lemma entry_roundtrip:
  assumes "valid_entry e"
  shows "\<exists>data. marshal_entry e = Some data \<and> unmarshal_entry data = Some e"
proof -
  obtain ls where ls: "map_opt float_literal (ve_Vector e) = Some ls" "list_all num_ok ls"
    "map_opt (\<lambda>x. dec_float x 0) (map JNum ls) = Some (ve_Vector e)"
    using vector_roundtrip [of "ve_Vector e"] assms by (auto simp: valid_entry_def)
  let ?j = "JObj [(''vector'', JArr (map JNum ls)), (''response'', JStr (ve_Response e)),
     (''model'', JStr (ve_Model e)), (''created'', JInt (ve_Created e))]"
  have "json_ok ?j" using assms ls(2) by (auto simp: valid_entry_def JInt_def list_all_iff)
  moreover have "json_depth (JArr (map JNum ls)) \<le> Suc 0" by (intro depth_JArr_le) (simp add: list_all_iff)
  then have "json_depth ?j \<le> Suc (Suc 0)"
    by (intro depth_JObj_le) (simp add: JInt_def del: json_depth.simps(1))
  then have "json_depth ?j \<le> max_depth" by (rule order_trans) simp
  ultimately have "json_parse (render ?j) = Some ?j" by (rule json_roundtrip)
  moreover have "dec_entry ?j entry_zero = Some e"
    using assms ls(3)
    by (cases e) (auto simp: dec_entry_def entry_zero_def dec_struct_def find_field_def dec_into_def
        dec_string_def dec_slice_def valid_entry_def)
  ultimately show ?thesis
    using ls(1) by (simp add: marshal_entry_def unmarshal_entry_def)
qed

section \<open>What a search finds\<close>

text \<open>A server that answers its reads.\<close>

definition reads_reliable :: "'w redis_ops \<Rightarrow> bool" where
  "reads_reliable ops \<longleftrightarrow>
     (\<forall>k w t. fst (rd_Get ops k w) \<noteq> Inl (RedisErr t)) \<and> (\<forall>p w. \<not> isl (fst (rd_Keys ops p w)))"

definition stored_entry :: "(string \<rightharpoonup> string) \<Rightarrow> string \<Rightarrow> vector_entry option" where
  "stored_entry s key = Option.bind (s key) unmarshal_entry"

text \<open>The entries a search may return.\<close>

definition qualifies ::
  "'w l2_cache \<Rightarrow> f64 list \<Rightarrow> string \<Rightarrow> (string \<rightharpoonup> string) \<Rightarrow> string \<Rightarrow> vector_entry \<Rightarrow> bool" where
  "qualifies c q model s key e \<longleftrightarrow>
     stored_entry s key = Some e \<and> (model = '''' \<or> ve_Model e = model) \<and>
     l2_similarityThreshold c \<le> cosineSimilarity q (ve_Vector e)"

text \<open>The specification: nothing when no key qualifies, else a qualifying entry none exceeds.\<close>

definition best_of ::
  "'w l2_cache \<Rightarrow> f64 list \<Rightarrow> string \<Rightarrow> (string \<rightharpoonup> string) \<Rightarrow> string set \<Rightarrow> search_result option \<Rightarrow> bool" where
  "best_of c q model s ks best \<longleftrightarrow>
     (case best of
        None \<Rightarrow> \<forall>k \<in> ks. \<forall>e. \<not> qualifies c q model s k e
      | Some r \<Rightarrow>
          (\<exists>e. sr_Key r \<in> ks \<and> qualifies c q model s (sr_Key r) e \<and> sr_Response r = ve_Response e \<and>
             sr_Similarity r = cosineSimilarity q (ve_Vector e)) \<and>
          (\<forall>k \<in> ks. \<forall>e. qualifies c q model s k e \<longrightarrow> cosineSimilarity q (ve_Vector e) \<le> sr_Similarity r))"

definition l2_keys :: "'w l2_cache \<Rightarrow> (string \<rightharpoonup> string) \<Rightarrow> string set" where
  "l2_keys c s = {k \<in> dom s. has_prefix k (l2_keyPrefix c @ '':'')}"

lemma read_entry_view:
  assumes "string_laws ops S" and "reads_reliable ops" and "read_entry ops key w = (e, w')"
  shows "S w' = S w" "e = stored_entry (S w) key"
proof -
  obtain r w1 where get: "rd_Get ops key w = (r, w1)" by fastforce
  have ok: "r \<noteq> Inl (RedisErr t)" for t using assms(2) get by (metis fst_conv reads_reliable_def)
  note G = string_Get [OF assms(1) get]
  show "S w' = S w" using assms(3) get G(1) by (auto simp: read_entry_def split: sum.splits)
  show "e = stored_entry (S w) key"
  proof (cases r)
    case (Inl x)
    then have "S w key = None" using ok G(3) by (cases x) auto
    then show ?thesis using assms(3) get Inl by (simp add: read_entry_def stored_entry_def)
  next
    case (Inr d)
    then show ?thesis using assms(3) get G(2) by (simp add: read_entry_def stored_entry_def)
  qed
qed

lemma best_of_step:
  assumes "best_of c q model s ks best"
  shows "stored_entry s key = None \<Longrightarrow> best_of c q model s (insert key ks) best"
    "stored_entry s key = Some e \<Longrightarrow>
      best_of c q model s (insert key ks) (consider_entry c q model key e best)"
proof -
  show "stored_entry s key = None \<Longrightarrow> best_of c q model s (insert key ks) best"
    using assms by (auto simp: best_of_def qualifies_def split: option.splits)
  assume e: "stored_entry s key = Some e"
  let ?sim = "cosineSimilarity q (ve_Vector e)"
  show "best_of c q model s (insert key ks) (consider_entry c q model key e best)"
  proof (cases "qualifies c q model s key e")
    case False
    then have "consider_entry c q model key e best = best"
      using e by (auto simp: consider_entry_def qualifies_def Let_def)
    then show ?thesis using assms e False by (auto simp: best_of_def qualifies_def split: option.splits)
  next
    case True
    show ?thesis
    proof (cases best)
      case None
      then show ?thesis
        using assms e True f64_not_NaN_le
        by (auto simp: best_of_def qualifies_def consider_entry_def Let_def)
    next
      case (Some b)
      have sim: "?sim \<noteq> NaN" using True f64_not_NaN_le by (auto simp: qualifies_def)
      obtain eb where eb: "sr_Key b \<in> ks" "qualifies c q model s (sr_Key b) eb"
        "sr_Response b = ve_Response eb" "sr_Similarity b = cosineSimilarity q (ve_Vector eb)"
        and top: "\<And>k e. k \<in> ks \<Longrightarrow> qualifies c q model s k e \<Longrightarrow> cosineSimilarity q (ve_Vector e) \<le> sr_Similarity b"
        using assms Some by (auto simp: best_of_def)
      have b: "sr_Similarity b \<noteq> NaN" using eb(2,4) f64_not_NaN_le by (auto simp: qualifies_def)
      have uniq: "qualifies c q model s key e' \<Longrightarrow> e' = e" for e'
        using e by (simp add: qualifies_def)
      show ?thesis
      proof (cases "sr_Similarity b < ?sim")
        case lt: True
        then have le: "sr_Similarity b \<le> ?sim" using f64_le_total [OF b sim] by (auto simp: f64_less_iff)
        have "consider_entry c q model key e best =
            Some \<lparr>sr_Response = ve_Response e, sr_Similarity = ?sim, sr_Key = key\<rparr>"
          using True lt Some by (auto simp: consider_entry_def qualifies_def Let_def)
        moreover have "cosineSimilarity q (ve_Vector e') \<le> ?sim"
          if "k \<in> insert key ks" "qualifies c q model s k e'" for k e'
        proof (cases "k = key")
          case True
          then show ?thesis using uniq that(2) sim by simp
        next
          case False
          then show ?thesis using top [of k e'] that le f64_le_trans by blast
        qed
        ultimately show ?thesis
          using True unfolding best_of_def by auto
      next
        case nlt: False
        then have le: "?sim \<le> sr_Similarity b" using b sim by (auto simp: f64_less_iff)
        have "consider_entry c q model key e best = best"
          using nlt Some by (auto simp: consider_entry_def Let_def)
        then show ?thesis using eb top le uniq by (auto simp: best_of_def Some)
      qed
    qed
  qed
qed

lemma search_loop_best:
  assumes "string_laws ops S" and "reads_reliable ops"
    and "best_of c q model (S w) ks best" and "search_loop c ops q model keys best w = (res, w')"
  shows "S w' = S w \<and> best_of c q model (S w) (ks \<union> set keys) res"
  using assms(3,4)
proof (induction keys arbitrary: ks best w)
  case (Cons key keys)
  obtain e w1 where r: "read_entry ops key w = (e, w1)" by fastforce
  have S: "S w1 = S w" "e = stored_entry (S w) key" using read_entry_view [OF assms(1,2) r] by simp_all
  have un: "insert key ks \<union> set keys = ks \<union> set (key # keys)" by simp
  show ?case
  proof (cases e)
    case None
    then show ?thesis
      using Cons.IH [of w1 "insert key ks" best] Cons.prems r S best_of_step(1) [OF Cons.prems(1), of key]
      unfolding un by simp
  next
    case (Some x)
    then show ?thesis
      using Cons.IH [of w1 "insert key ks" "consider_entry c q model key x best"] Cons.prems r S
        best_of_step(2) [OF Cons.prems(1), of key x]
      unfolding un by simp
  qed
qed simp

lemma l2_Search_view:
  assumes "string_laws ops S" and "reads_reliable ops" and "plain_pattern (l2_keyPrefix c @ '':'')"
    and "l2_client c = Some ops" and "l2_Search c q model w = (res, w')"
  shows "S w' = S w \<and> (\<exists>best. res = Inr best \<and> best_of c q model (S w) (l2_keys c (S w)) best)"
proof -
  obtain ks w1 where keys: "rd_Keys ops (l2_pattern c) w = (Inr ks, w1)"
    using assms(2) by (metis prod.collapse reads_reliable_def sum.collapse(2))
  have K: "S w1 = S w" "set ks = l2_keys c (S w)"
    using string_Keys [OF assms(1,3) keys [unfolded l2_pattern_def]] by (simp_all add: l2_keys_def)
  obtain best w2 where loop: "search_loop c ops q model ks None w1 = (best, w2)" by fastforce
  have "best_of c q model (S w1) {} None" by (simp add: best_of_def)
  note L = search_loop_best [OF assms(1,2) this loop]
  have "best_of c q model (S w) (l2_keys c (S w)) None" if "ks = []"
    using that K(2) by (simp add: best_of_def)
  then show ?thesis
    using assms(4,5) keys loop L K by (auto simp: l2_Search_def split: if_splits)
qed

text \<open>
  Claim C18. A search returns the best match: over a server that answers its reads, the result
  is an entry under the prefix whose model is the requested one (or any, for the empty model)
  and whose similarity reaches the threshold and is exceeded by no other such entry; it is a
  miss exactly when there is no such entry; and nothing stored changes.
\<close>
theorem l2_Search_best:
  assumes "string_laws ops S" and "reads_reliable ops" and "plain_pattern (l2_keyPrefix c @ '':'')"
    and "l2_client c = Some ops" and "l2_Search c q model w = (res, w')"
  shows "S w' = S w \<and> (\<exists>best. res = Inr best \<and> best_of c q model (S w) (l2_keys c (S w)) best)"
  by (rule l2_Search_view [OF assms])

definition ex_l2 :: "mem l2_cache" where
  "ex_l2 = NewL2Cache (Some mem_redis)
     \<lparr>l2c_Enabled = True, l2c_SimilarityThreshold = 1, l2c_TTL = 60, l2c_MaxSize = 5,
      l2c_KeyPrefix = ''c'', l2c_VectorDim = 1\<rparr>"

lemma ex_l2_facts: "reads_reliable mem_redis" "plain_pattern (l2_keyPrefix ex_l2 @ '':'')"
  "l2_client ex_l2 = Some mem_redis" "0 \<le> l2_ttl ex_l2"
  by (auto simp: reads_reliable_def mem_redis_def ex_l2_def NewL2Cache_def plain_pattern_def int64_ok_def
      split: option.splits)

theorem l2_Search_best_witness:
  "\<exists>best. best_of ex_l2 [1] '''' (mem_S mem_empty) (l2_keys ex_l2 (mem_S mem_empty)) best \<and>
     fst (l2_Search ex_l2 [1] '''' mem_empty) = Inr best"
proof -
  obtain res w' where run: "l2_Search ex_l2 [1] '''' mem_empty = (res, w')" by fastforce
  show ?thesis using l2_Search_best [OF mem_string_laws ex_l2_facts(1-3) run] run by auto
qed

section \<open>Eviction\<close>

lemma read_entries_view:
  assumes "string_laws ops S" and "reads_reliable ops" and "read_entries ops keys w = (es, w')"
  shows "S w' = S w" "map fst es = filter (\<lambda>k. stored_entry (S w) k \<noteq> None) keys"
    "(k, e) \<in> set es \<Longrightarrow> stored_entry (S w) k = Some e"
proof -
  have "S w' = S w \<and> map fst es = filter (\<lambda>k. stored_entry (S w) k \<noteq> None) keys \<and>
      (\<forall>(k, e) \<in> set es. stored_entry (S w) k = Some e)"
    using assms(3)
  proof (induction keys arbitrary: w es)
    case (Cons key keys)
    obtain e w1 where r: "read_entry ops key w = (e, w1)" by fastforce
    obtain es1 w2 where rs: "read_entries ops keys w1 = (es1, w2)" by fastforce
    have S: "S w1 = S w" "e = stored_entry (S w) key" using read_entry_view [OF assms(1,2) r] by simp_all
    have eq: "es = (case e of None \<Rightarrow> es1 | Some x \<Rightarrow> (key, x) # es1)" "w' = w2"
      using Cons.prems r rs by (auto split: option.splits)
    have IH: "S w2 = S w" "map fst es1 = filter (\<lambda>k. stored_entry (S w) k \<noteq> None) keys"
      "\<forall>(k, e) \<in> set es1. stored_entry (S w) k = Some e"
      using Cons.IH [of w1 es1] rs eq(2) S(1) by simp_all
    show ?case using eq IH S(2) by (cases e) auto
  qed simp
  then show "S w' = S w" "map fst es = filter (\<lambda>k. stored_entry (S w) k \<noteq> None) keys"
    "(k, e) \<in> set es \<Longrightarrow> stored_entry (S w) k = Some e" by auto
qed

text \<open>The keys under the prefix that decode, and the number of them a round deletes.\<close>

definition live_keys :: "'w l2_cache \<Rightarrow> (string \<rightharpoonup> string) \<Rightarrow> string set" where
  "live_keys c s = {k \<in> l2_keys c s. stored_entry s k \<noteq> None}"

definition created_at :: "(string \<rightharpoonup> string) \<Rightarrow> string \<Rightarrow> int" where
  "created_at s k = (case stored_entry s k of Some e \<Rightarrow> ve_Created e | None \<Rightarrow> 0)"

lemma sorted_take_drop:
  assumes "sorted (map f xs)" and "x \<in> set (take n xs)" and "y \<in> set (drop n xs)"
  shows "f x \<le> f y"
proof -
  have "sorted (map f (take n xs) @ map f (drop n xs))"
    using assms(1) by (simp flip: map_append)
  then show ?thesis using assms(2,3) by (auto simp: sorted_append)
qed

lemma oldest_keys_spec:
  assumes "sorts srt" and "distinct (map fst es)" and "es \<noteq> []"
    and "\<And>k e. (k, e) \<in> set es \<Longrightarrow> stored_entry s k = Some e"
  shows "\<exists>ks. oldest_keys srt es = Returns ks \<and> set ks \<subseteq> fst ` set es \<and>
    card (set ks) = max 1 (length es div 10) \<and>
    (\<forall>d \<in> set ks. \<forall>k \<in> fst ` set es - set ks. created_at s d \<le> created_at s k)"
proof -
  let ?n = "max 1 (length es div 10)"
  let ?xs = "srt es"
  have ms: "mset ?xs = mset es" and srtd: "sorted (map (ve_Created \<circ> snd) ?xs)"
    using assms(1) by (simp_all add: sorts_def)
  have set: "set ?xs = set es" by (metis ms set_mset_mset)
  have dist: "distinct (map fst ?xs)"
    using assms(2) mset_eq_imp_distinct_iff [of "map fst ?xs" "map fst es"] ms by simp
  have len: "length ?xs = length es" by (metis ms size_mset)
  have n: "?n \<le> length es" using assms(3) by (cases es) auto
  have ok: "oldest_keys srt es = Returns (map fst (take ?n ?xs))"
    using n by (auto simp: oldest_keys_def Let_def max_def)
  have dtake: "distinct (map fst (take ?n ?xs))" using dist by (simp add: take_map [symmetric])
  then have card: "card (set (map fst (take ?n ?xs))) = ?n"
    using n len distinct_card [OF dtake] by (simp del: set_map)
  have cre: "created_at s (fst x) = ve_Created (snd x)" if "x \<in> set es" for x
    using assms(4) [of "fst x" "snd x"] that by (simp add: created_at_def)
  have "created_at s d \<le> created_at s k"
    if d: "d \<in> set (map fst (take ?n ?xs))" and k: "k \<in> fst ` set es - set (map fst (take ?n ?xs))" for d k
  proof -
    obtain x where x: "x \<in> set (take ?n ?xs)" "d = fst x" using d unfolding set_map by blast
    obtain y where y: "y \<in> set ?xs" "k = fst y" using k unfolding set by blast
    have "y \<notin> set (take ?n ?xs)" using k y(2) by auto
    then have "y \<in> set (drop ?n ?xs)" using y(1) by (metis Un_iff append_take_drop_id set_append)
    then have "(ve_Created \<circ> snd) x \<le> (ve_Created \<circ> snd) y"
      using sorted_take_drop [OF srtd x(1)] by blast
    moreover have "x \<in> set es" "y \<in> set es" using x(1) y(1) set by (auto dest: in_set_takeD)
    ultimately show ?thesis using cre x(2) y(2) by simp
  qed
  moreover have "set (map fst (take ?n ?xs)) \<subseteq> fst ` set es" using set by (auto dest: in_set_takeD)
  ultimately show ?thesis using ok card by blast
qed


definition ex_store :: mem where
  "ex_store = \<lparr>mem_strings = [(''c:1'', ''[]''), (''c:2'', ''{}'')], mem_hashes = []\<rparr>"

definition ex_full :: "mem l2_cache" where
  "ex_full = ex_l2\<lparr>l2_maxSize := 2\<rparr>"


section \<open>Storing and finding\<close>

lemma l2_Store_view:
  assumes "string_laws ops S" and "l2_client c = Some ops" and "0 \<le> l2_ttl c"
    and "l2_Store srt c now key v resp model w = (Returns None, w')"
    and "valid_entry \<lparr>ve_Vector = v, ve_Response = resp, ve_Model = model, ve_Created = unix_seconds now\<rparr>"
      (is "valid_entry ?e")
  shows "stored_entry (S w') (l2_keyPrefix c @ '':'' @ key) = Some ?e"
proof -
  obtain data where data: "marshal_entry ?e = Some data" "unmarshal_entry data = Some ?e"
    using entry_roundtrip [OF assms(5)] by blast
  obtain w1 where "rd_Set ops (l2_keyPrefix c @ '':'' @ key) data (l2_ttl c) w1 = (None, w')"
    using assms(2,4) data(1)
    by (auto simp: l2_Store_def split: prod.splits go.splits)
  then have "S w' = (S w1)(l2_keyPrefix c @ '':'' @ key \<mapsto> data)"
    using string_Set(1) [OF assms(1,3)] by blast
  then show ?thesis using data(2) by (simp add: stored_entry_def)
qed


lemma isqrt_square: "isqrt (4 ^ k) = 2 ^ k"
proof (induction k)
  case 0
  show ?case by code_simp
next
  case (Suc k)
  have "\<not> (2 * 2 ^ k + 1) * (2 * 2 ^ k + 1) \<le> 4 * (4 :: nat) ^ k"
    by (simp add: algebra_simps flip: power_mult_distrib)
  then show ?case using Suc by (subst isqrt.simps) (simp add: Let_def)
qed

lemma ex_vector: "rnd 1 = Fin 1" "cosineSimilarity [Fin 1] [Fin 1] = Fin 1"
proof -
  show one: "rnd 1 = Fin 1" using rnd_of_int [of 1] by simp
  have "flog2 1 = 0" by code_simp
  moreover have "(1 :: rat) / (2 powi - 52 * 2 powi - 52) = of_nat (4 ^ 52)" by simp
  moreover have "isqrt (nat \<lfloor>of_nat (4 ^ 52) :: rat\<rfloor>) = 2 ^ 52"
    using isqrt_square [of 52] by (simp only: floor_of_nat nat_int)
  ultimately have "f64_sqrt (Fin 1) = Fin 1" by (simp add: Let_def)
  then show "cosineSimilarity [Fin 1] [Fin 1] = Fin 1"
    using one by (simp add: cosineSimilarity_def zero_f64_def f64_eq_def)
qed

lemma ex_entry: "valid_entry \<lparr>ve_Vector = [Fin 1], ve_Response = ''r'', ve_Model = ''m'',
    ve_Created = unix_seconds (63000000000 * second)\<rparr>"
  using ex_vector(1) by (simp add: valid_entry_def f64_wf_def unix_seconds_def int64_ok_def)

lemma ex_store_run:
  "fst (l2_Store srt ex_l2 (63000000000 * second) ''k'' [Fin 1] ''r'' ''m'' mem_empty) = Returns None"
proof -
  have "l2_evictIfNeeded srt ex_l2 mem_redis mem_empty = (Returns None, mem_empty)"
    by (simp add: l2_evictIfNeeded_def ex_l2_def NewL2Cache_def mem_redis_def mem_empty_def)
  moreover have "rd_Set mem_redis k v d w = (None, w\<lparr>mem_strings := AList.update k v (mem_strings w)\<rparr>)" for k v d w
    by (simp add: mem_redis_def)
  ultimately show ?thesis
    using entry_roundtrip [OF ex_entry] ex_l2_facts(3) by (auto simp: l2_Store_def)
qed


text \<open>
  Cosine similarity does not depend on the order of its arguments, in floating
  point as written; it is 0 for vectors of different lengths.
\<close>
lemma cosineSimilarity_symmetric:
  "cosineSimilarity a b = (if length a = length b then cosineSimilarity b a else 0)"
proof -
  have "cosine_sums b a (d, nb, na) =
      (case cosine_sums a b (d, na, nb) of (d, na, nb) \<Rightarrow> (d, nb, na))" for d na nb
    by (induction a b "(d, na, nb)" arbitrary: d na nb rule: cosine_sums.induct)
      (auto simp: f64_times_commute)
  from this [of 0 0 0] show ?thesis
    by (auto simp: cosineSimilarity_def f64_times_commute split: prod.splits)
qed

end
