(* ===== verification/Gateway.thy ===== *)
theory Gateway
  imports ChatCore Admin L2Cache
begin

text \<open>
  What the handlers of the gateway share: the dependencies they are built with, the state they
  keep, and the deferred accounting that \<open>internal/handler/chat.go\<close> and
  \<open>internal/handler/embedding.go\<close> have in common; with the contract of an endpoint that
  accounts for its requests, and what it gives for a sequence of requests.
\<close>

section \<open>The gateway\<close>

text \<open>
  What the handlers are built with, and what they keep.  \<open>ev_random\<close> are the eight bytes of
  \<open>crypto/rand\<close> for a trace id; \<open>ev_bind_err\<close> and \<open>ev_worker_err\<close> are the texts of
  \<open>encoding/json\<close>'s errors.
\<close>

record 'w gateway_env =
  ev_cfg :: config
  ev_sys :: "'w sys"
  ev_http :: "'w http_ops"
  ev_files :: "'w file_ops"
  ev_random :: "'w \<Rightarrow> string option \<times> 'w"
  ev_sort :: entry_sort
  ev_bind_err :: "string \<Rightarrow> string"
  ev_worker_err :: "string \<Rightarrow> string"
  ev_pg :: "'w pg_client option"
  ev_l1 :: "'w l1_cache option"
  ev_l2 :: "'w l2_cache option"

record 'w gateway =
  gw_registry :: "'w registry option"
  gw_worker :: "worker_client option"
  gw_usage :: usage_stats
  gw_tracer :: workflow_tracer

text \<open>The request as the handlers see it: headers, body, and the key id the authentication set.\<close>

record inbound =
  in_header :: "string \<Rightarrow> string"
  in_body :: "string option"
  in_apiKeyID :: "string option"

text \<open>The variables of a handler that its deferred function reads.\<close>

record handler_vars =
  hv_statusCode :: int
  hv_cacheHit :: bool
  hv_promptTokens :: int
  hv_completionTokens :: int
  hv_totalTokens :: int
  hv_routedModel :: string
  hv_upstreamProvider :: string
  hv_errorCode :: string
  hv_requestedModel :: string
  hv_reqModel :: string

definition handler_vars_zero :: handler_vars where
  "handler_vars_zero =
     \<lparr>hv_statusCode = 200, hv_cacheHit = False, hv_promptTokens = 0, hv_completionTokens = 0,
      hv_totalTokens = 0, hv_routedModel = '''', hv_upstreamProvider = '''', hv_errorCode = '''',
      hv_requestedModel = '''', hv_reqModel = ''''\<rparr>"

lemma handler_vars_zero_simps [simp]:
  "hv_statusCode handler_vars_zero = 200" "\<not> hv_cacheHit handler_vars_zero" "hv_totalTokens handler_vars_zero = 0"
  "hv_errorCode handler_vars_zero = ''''"
  by (simp_all add: handler_vars_zero_def)

section \<open>Accounting\<close>

text \<open>
  The deferred part that both handlers have in common: the metric, the row of the request log
  and the workflow trace.
\<close>

definition account ::
  "'w gateway_env \<Rightarrow> string \<Rightarrow> inbound \<Rightarrow> string \<Rightarrow> string \<Rightarrow> handler_vars \<Rightarrow> time
    \<Rightarrow> 'w gateway \<Rightarrow> 'w \<Rightarrow> 'w gateway \<times> 'w" where
  "account env endpoint inb requestedModel routed v startedAt g w =
     (let wx = extractWorkflowRequestContext (in_header inb);
          apiKeyID = (case in_apiKeyID inb of None \<Rightarrow> '''' | Some s \<Rightarrow> s);
          (t, w) = sys_now (ev_sys env) w;
          latency = time_sub t startedAt;
          (now, w) = sys_now (ev_sys env) w;
          usage = stats_Record (gw_usage g) now
            \<lparr>rm_Endpoint = endpoint, rm_Model = routed, rm_StatusCode = hv_statusCode v,
             rm_Latency = latency, rm_CacheHit = hv_cacheHit v, rm_TotalTokens = hv_totalTokens v\<rparr>;
          (w, _) = persistRequestLog (ev_pg env) endpoint apiKeyID routed (hv_statusCode v) latency
            (hv_cacheHit v) (hv_totalTokens v) w;
          (random, w) = (if wx_TraceID wx = '''' then ev_random env w else (None, w));
          (now1, w) = sys_now (ev_sys env) w;
          (now2, w) = sys_now (ev_sys env) w;
          (tracer, w) = tracer_Record (ev_files env) random now1 now2 (gw_tracer g)
            \<lparr>wt_TraceID = wx_TraceID wx, wt_Timestamp = '''', wt_Endpoint = endpoint,
             wt_SessionID = wx_SessionID wx, wt_StepID = wx_StepID wx, wt_StepType = wx_StepType wx,
             wt_Tool = wx_Tool wx, wt_RequestedModel = requestedModel, wt_UpstreamModel = routed,
             wt_UpstreamProvider = hv_upstreamProvider v, wt_StatusCode = hv_statusCode v,
             wt_LatencyMs = duration_ms latency, wt_CacheHit = hv_cacheHit v,
             wt_PromptTokens = hv_promptTokens v, wt_CompletionTokens = hv_completionTokens v,
             wt_TotalTokens = hv_totalTokens v, wt_EstimatedCost = 0, wt_ErrorCode = hv_errorCode v\<rparr> w
      in (g\<lparr>gw_usage := usage, gw_tracer := tracer\<rparr>, w))"

section \<open>One metric and one trace\<close>

text \<open>The accounting: one metric and one trace, about the same request.\<close>

definition accounted ::
  "string \<Rightarrow> handler_vars \<Rightarrow> string \<Rightarrow> 'w gateway \<Rightarrow> 'w gateway \<Rightarrow> bool" where
  "accounted endpoint v routed g g' \<longleftrightarrow>
     (\<exists>now m tr. g' = g\<lparr>gw_usage := stats_Record (gw_usage g) now m, gw_tracer := updateSummary tr (gw_tracer g)\<rparr> \<and>
        rm_Endpoint m = endpoint \<and> rm_Model m = routed \<and> rm_StatusCode m = hv_statusCode v \<and>
        rm_CacheHit m = hv_cacheHit v \<and> rm_TotalTokens m = hv_totalTokens v \<and>
        wt_Endpoint tr = endpoint \<and> wt_StatusCode tr = hv_statusCode v \<and> wt_CacheHit tr = hv_cacheHit v \<and>
        wt_UpstreamModel tr = trim_space routed \<and> wt_ErrorCode tr = trim_space (hv_errorCode v))"

lemma normalizeTrace_fields:
  "wt_StatusCode (normalizeTrace r t1 t2 tr) = (if wt_StatusCode tr = 0 then 200 else wt_StatusCode tr)"
  "wt_CacheHit (normalizeTrace r t1 t2 tr) = wt_CacheHit tr"
  "wt_Endpoint (normalizeTrace r t1 t2 tr) =
     (if trim_space (wt_Endpoint tr) = '''' then ''unknown'' else trim_space (wt_Endpoint tr))"
  "wt_UpstreamModel (normalizeTrace r t1 t2 tr) = trim_space (wt_UpstreamModel tr)"
  "wt_ErrorCode (normalizeTrace r t1 t2 tr) = trim_space (wt_ErrorCode tr)"
  by (simp_all add: normalizeTrace_def norm_ids_def trim_fields_def norm_numbers_def norm_cost_def Let_def)

lemma account_shape:
  "let wx = extractWorkflowRequestContext (in_header inb) in
   \<exists>now latency random t1 t2.
     fst (account env endpoint inb requestedModel routed v startedAt g w) =
     g\<lparr>gw_usage := stats_Record (gw_usage g) now
          \<lparr>rm_Endpoint = endpoint, rm_Model = routed, rm_StatusCode = hv_statusCode v,
           rm_Latency = latency, rm_CacheHit = hv_cacheHit v, rm_TotalTokens = hv_totalTokens v\<rparr>,
       gw_tracer := updateSummary (normalizeTrace random t1 t2
          \<lparr>wt_TraceID = wx_TraceID wx, wt_Timestamp = '''', wt_Endpoint = endpoint,
           wt_SessionID = wx_SessionID wx, wt_StepID = wx_StepID wx, wt_StepType = wx_StepType wx,
           wt_Tool = wx_Tool wx, wt_RequestedModel = requestedModel, wt_UpstreamModel = routed,
           wt_UpstreamProvider = hv_upstreamProvider v, wt_StatusCode = hv_statusCode v,
           wt_LatencyMs = duration_ms latency, wt_CacheHit = hv_cacheHit v,
           wt_PromptTokens = hv_promptTokens v, wt_CompletionTokens = hv_completionTokens v,
           wt_TotalTokens = hv_totalTokens v, wt_EstimatedCost = 0, wt_ErrorCode = hv_errorCode v\<rparr>)
         (gw_tracer g)\<rparr>"
  unfolding account_def tracer_Record_def Let_def case_prod_beta fst_conv snd_conv
  by (rule exI, rule exI, rule exI, rule exI, rule exI, rule refl)

lemma account_accounted:
  assumes "trim_space endpoint = endpoint" and "endpoint \<noteq> ''''" and "hv_statusCode v \<noteq> 0"
  shows "accounted endpoint v routed g (fst (account env endpoint inb requestedModel routed v startedAt g w))"
  using account_shape [of inb env endpoint requestedModel routed v startedAt g w] assms
  unfolding accounted_def Let_def by (elim exE) (intro exI conjI, assumption, simp_all add: normalizeTrace_fields)

lemma account_frame:
  "gw_registry (fst (account env e inb rm r v s g w)) = gw_registry g"
  "gw_worker (fst (account env e inb rm r v s g w)) = gw_worker g"
  by (simp_all add: account_def Let_def split: prod.split)

section \<open>Endpoints\<close>

fun serve_all ::
  "('i \<Rightarrow> 's \<Rightarrow> 'w \<Rightarrow> 'r \<times> 's \<times> 'w) \<Rightarrow> 'i list \<Rightarrow> 's \<Rightarrow> 'w \<Rightarrow> 'r list \<times> 's \<times> 'w" where
  "serve_all handle [] s w = ([], s, w)"
| "serve_all handle (i # is) s w =
     (case handle i s w of
        (r, s, w) \<Rightarrow> (case serve_all handle is s w of (rs, s, w) \<Rightarrow> (r # rs, s, w)))"

lemma serve_all_length: "serve_all handle is s w = (rs, s', w') \<Longrightarrow> length rs = length is"
  by (induction "is" arbitrary: s w rs) (auto split: prod.splits)

text \<open>
  An endpoint whose requests, however they end, are recorded once each, with the status that
  \<open>recorded\<close> gives for the reply; a reply for which it gives None leaves no record.
\<close>

locale accounted_endpoint =
  fixes handle :: "'i \<Rightarrow> 's \<Rightarrow> 'w \<Rightarrow> 'r \<times> 's \<times> 'w"
    and usage :: "'s \<Rightarrow> usage_stats"
    and tracer :: "'s \<Rightarrow> workflow_tracer"
    and recorded :: "'r \<Rightarrow> int option"
    and names :: "string set"
  assumes unrecorded: "handle i s w = (r, s', w') \<Longrightarrow> recorded r = None \<Longrightarrow>
      usage s' = usage s \<and> tracer s' = tracer s"
    and accounts: "handle i s w = (r, s', w') \<Longrightarrow> recorded r = Some status \<Longrightarrow>
      \<exists>now m tr. usage s' = stats_Record (usage s) now m \<and> tracer s' = updateSummary tr (tracer s) \<and>
        rm_Endpoint m \<in> names \<and> wt_Endpoint tr = rm_Endpoint m \<and>
        rm_StatusCode m = status \<and> wt_StatusCode tr = status"
begin

lemma run_records:
  "serve_all handle is s w = (rs, s', w') \<Longrightarrow> usage s = stats_run evs0 \<Longrightarrow>
   \<exists>evs trs. usage s' = stats_run (evs0 @ evs) \<and> tracer s' = tracer_run (tracer s) trs \<and>
     map (\<lambda>ev. rm_StatusCode (snd ev)) evs = List.map_filter recorded rs \<and>
     map wt_StatusCode trs = List.map_filter recorded rs \<and>
     (\<forall>ev \<in> set evs. rm_Endpoint (snd ev) \<in> names)"
proof (induction "is" arbitrary: s w evs0 rs)
  case Nil
  then show ?case by (intro exI [of _ "[]"]) (simp add: tracer_run_def)
next
  case (Cons i "is")
  obtain r s1 w1 where one: "handle i s w = (r, s1, w1)" by (metis prod_cases3)
  obtain rs1 where rest: "serve_all handle is s1 w1 = (rs1, s', w')" and rs: "rs = r # rs1"
    using Cons.prems(1) one by (auto split: prod.splits)
  show ?case
  proof (cases "recorded r")
    case None
    with unrecorded [OF one] Cons.IH [OF rest, of evs0] Cons.prems(2) show ?thesis
      by (simp add: rs map_filter_simps)
  next
    case (Some status)
    obtain now m tr where rec: "usage s1 = stats_Record (usage s) now m" "tracer s1 = updateSummary tr (tracer s)"
      "rm_Endpoint m \<in> names" "rm_StatusCode m = status" "wt_StatusCode tr = status"
      using accounts [OF one Some] by blast
    have "usage s1 = stats_run (evs0 @ [(now, m)])" using rec(1) Cons.prems(2) by simp
    from Cons.IH [OF rest this] obtain evs trs where
      "usage s' = stats_run ((evs0 @ [(now, m)]) @ evs)" "tracer s' = tracer_run (tracer s1) trs"
      "map (\<lambda>ev. rm_StatusCode (snd ev)) evs = List.map_filter recorded rs1"
      "map wt_StatusCode trs = List.map_filter recorded rs1"
      "\<forall>ev \<in> set evs. rm_Endpoint (snd ev) \<in> names" by blast
    then show ?thesis
      using rec rs Some
      by (intro exI [of _ "(now, m) # evs"] exI [of _ "tr # trs"]) (simp add: tracer_run_def map_filter_simps)
  qed
qed

lemma run_total:
  assumes "serve_all handle is s w = (rs, s', w')" and "usage s = NewUsageStats"
  shows "\<exists>evs. usage s' = stats_run evs \<and> length evs = length (filter (\<lambda>r. recorded r \<noteq> None) rs) \<and>
    map (\<lambda>ev. rm_StatusCode (snd ev)) evs = List.map_filter recorded rs \<and>
    st_totalRequests (usage s') = wrap64 (int (length (filter (\<lambda>r. recorded r \<noteq> None) rs)))"
proof -
  obtain evs where evs: "usage s' = stats_run evs"
    "map (\<lambda>ev. rm_StatusCode (snd ev)) evs = List.map_filter recorded rs"
    using run_records [OF assms(1), of "[]"] assms(2) by auto
  have "length (List.map_filter recorded xs) = length (filter (\<lambda>r. recorded r \<noteq> None) xs)" for xs
    by (simp add: List.map_filter_def)
  then have "length evs = length (filter (\<lambda>r. recorded r \<noteq> None) rs)" using evs(2) by (metis length_map)
  then show ?thesis using evs stats_run_totals [of evs] by auto
qed

end

end
