(* ===== verification/Chat.thy ===== *)
theory Chat
  imports Gateway
begin

text \<open>
  The handler of \<open>POST /v1/chat/completions\<close> (\<open>ChatCompletion\<close> in
  \<open>internal/handler/chat.go\<close>): binding, routing policy and validation of the request, the
  lookups in the two caches, the call of the provider registry, the stores into the caches and
  the reply, with the deferred accounting of every request.
\<close>

section \<open>The deferred part\<close>

definition chat_endpoint :: string where
  "chat_endpoint = ''/v1/chat/completions''"

definition chat_finish ::
  "'w gateway_env \<Rightarrow> inbound \<Rightarrow> handler_vars \<Rightarrow> time \<Rightarrow> 'w gateway \<Rightarrow> 'w \<Rightarrow> 'w gateway \<times> 'w" where
  "chat_finish env inb v startedAt g w =
     (let requestModel = trim_space (hv_reqModel v);
          requestModel = (if requestModel = '''' then ''unknown'' else requestModel);
          requestedModel = (if trim_space (hv_requestedModel v) = '''' then requestModel
                            else hv_requestedModel v)
      in account env chat_endpoint inb requestedModel
           (routedModelOrRequest (hv_routedModel v) requestModel) v startedAt g w)"

section \<open>Replies\<close>

datatype chat_body =
    ChatJSON chat_response
  | ChatStream "sse_event list"
  | ChatError error_response
  | ChatPanic

type_synonym chat_reply = "int \<times> chat_body"

definition reply_chat :: "bool \<Rightarrow> chat_response \<Rightarrow> chat_reply" where
  "reply_chat stream resp = (200, if stream then ChatStream (stream_events (Some resp)) else ChatJSON resp)"

definition reply_failure :: "gateway_error \<Rightarrow> chat_reply" where
  "reply_failure e = (case error_JSON e of (status, body) \<Rightarrow> (status, ChatError body))"

definition failed :: "gateway_error \<Rightarrow> handler_vars \<Rightarrow> handler_vars" where
  "failed e v = v\<lparr>hv_statusCode := HTTPStatus e, hv_errorCode := code_text (ge_Code e)\<rparr>"

definition answered :: "bool \<Rightarrow> string \<Rightarrow> chat_response \<Rightarrow> handler_vars \<Rightarrow> handler_vars" where
  "answered hit upstream r v =
     v\<lparr>hv_statusCode := 200, hv_cacheHit := hit, hv_routedModel := hs_Model r,
       hv_upstreamProvider := upstream, hv_promptTokens := hu_PromptTokens (hs_Usage r),
       hv_completionTokens := hu_CompletionTokens (hs_Usage r),
       hv_totalTokens := hu_TotalTokens (hs_Usage r)\<rparr>"

section \<open>The caches\<close>

definition cache_on :: "'w gateway_env \<Rightarrow> bool" where
  "cache_on env = cc_Enabled (cfg_Cache (ev_cfg env))"

definition lookup_l1 :: "'w gateway_env \<Rightarrow> string \<Rightarrow> 'w \<Rightarrow> chat_response option \<times> 'w" where
  "lookup_l1 env key w =
     (case ev_l1 env of
        None \<Rightarrow> (None, w)
      | Some c \<Rightarrow>
          if \<not> cache_on env then (None, w)
          else
            (case l1_Get c key w of
               (Inr (Some data), w) \<Rightarrow> (map_option toChatResponse (UnmarshalChatResponse data), w)
             | (_, w) \<Rightarrow> (None, w)))"

text \<open>The hit, and the semantic vector as far as it was computed (empty when not).\<close>

definition lookup_l2 ::
  "'w gateway_env \<Rightarrow> chat_request \<Rightarrow> 'w gateway \<Rightarrow> 'w
    \<Rightarrow> (chat_response option \<times> f64 list) \<times> 'w gateway \<times> 'w" where
  "lookup_l2 env q g w =
     (case ev_l2 env of
        None \<Rightarrow> ((None, []), g, w)
      | Some c \<Rightarrow>
          if \<not> cache_on env \<or> gw_worker g = None then ((None, []), g, w)
          else
            (case Healthy (ev_http env) (gw_worker g) w of
               (healthy, wk, w) \<Rightarrow>
                 let g = g\<lparr>gw_worker := wk\<rparr>
                 in if \<not> healthy then ((None, []), g, w)
                    else
                      (case fetchSemanticVector (ev_http env) (ev_worker_err env) wk (hr_Messages q) w of
                         (Inl _, w) \<Rightarrow> ((None, []), g, w)
                       | (Inr vector, w) \<Rightarrow>
                           if vector = [] then ((None, []), g, w)
                           else
                             (case l2_Search c vector (hr_Model q) w of
                                (Inr (Some hit), w) \<Rightarrow> ((unmarshal_chat (sr_Response hit), vector), g, w)
                              | (_, w) \<Rightarrow> ((None, vector), g, w)))))"

definition store_l1 :: "'w gateway_env \<Rightarrow> string \<Rightarrow> chat_response \<Rightarrow> 'w \<Rightarrow> 'w" where
  "store_l1 env key resp w =
     (case ev_l1 env of
        None \<Rightarrow> w
      | Some c \<Rightarrow> if cache_on env then snd (l1_Set c key (Marshal (toCacheResponse resp)) w) else w)"

text \<open>The vector of the lookup is reused; otherwise the worker is asked once more.\<close>

definition refetch_vector ::
  "'w gateway_env \<Rightarrow> chat_request \<Rightarrow> f64 list \<Rightarrow> 'w gateway \<Rightarrow> 'w \<Rightarrow> f64 list \<times> 'w gateway \<times> 'w" where
  "refetch_vector env q vector g w =
     (if vector \<noteq> [] then (vector, g, w)
      else
        (case Healthy (ev_http env) (gw_worker g) w of
           (healthy, wk, w) \<Rightarrow>
             let g = g\<lparr>gw_worker := wk\<rparr>
             in if \<not> healthy then (vector, g, w)
                else
                  (case fetchSemanticVector (ev_http env) (ev_worker_err env) wk (hr_Messages q) w of
                     (Inl _, w) \<Rightarrow> (vector, g, w)
                   | (Inr vector, w) \<Rightarrow> (vector, g, w))))"

definition store_l2 ::
  "'w gateway_env \<Rightarrow> string \<Rightarrow> chat_request \<Rightarrow> chat_response \<Rightarrow> f64 list \<Rightarrow> 'w gateway \<Rightarrow> 'w
    \<Rightarrow> unit go \<times> 'w gateway \<times> 'w" where
  "store_l2 env key q resp vector g w =
     (case ev_l2 env of
        None \<Rightarrow> (Returns (), g, w)
      | Some c \<Rightarrow>
          if \<not> cache_on env \<or> gw_worker g = None then (Returns (), g, w)
          else
            (case refetch_vector env q vector g w of
               (vector, g, w) \<Rightarrow>
                 if vector = [] then (Returns (), g, w)
                 else
                   (case sys_now (ev_sys env) w of
                      (now, w) \<Rightarrow>
                        (case l2_Store (ev_sort env) c now key vector (marshal_chat resp) (hr_Model q) w of
                           (Panics, w) \<Rightarrow> (Panics, g, w)
                         | (Returns _, w) \<Rightarrow> (Returns (), g, w)))))"

section \<open>The handler\<close>

text \<open>The work on a valid request whose model the routing policy has set.\<close>

definition chat_upstream ::
  "'w gateway_env \<Rightarrow> chat_request \<Rightarrow> string \<Rightarrow> f64 list \<Rightarrow> handler_vars \<Rightarrow> 'w gateway \<Rightarrow> 'w
    \<Rightarrow> chat_reply \<times> handler_vars \<times> 'w gateway \<times> 'w" where
  "chat_upstream env q key vector v g w =
     (case forwardToProvider (ev_sys env) (gw_registry g) q w of
        (Inl e, rp, w) \<Rightarrow> (reply_failure e, failed e v, g\<lparr>gw_registry := rp\<rparr>, w)
      | (Inr (resp, providerName), rp, w) \<Rightarrow>
          let v = answered False providerName resp v;
              w = store_l1 env key resp w
          in case store_l2 env key q resp vector (g\<lparr>gw_registry := rp\<rparr>) w of
               (Panics, g, w) \<Rightarrow> ((500, ChatPanic), v, g, w)
             | (Returns _, g, w) \<Rightarrow> (reply_chat (hr_Stream q) resp, v, g, w))"

definition chat_answer ::
  "'w gateway_env \<Rightarrow> chat_request \<Rightarrow> handler_vars \<Rightarrow> 'w gateway \<Rightarrow> 'w
    \<Rightarrow> chat_reply \<times> handler_vars \<times> 'w gateway \<times> 'w" where
  "chat_answer env q v g w =
     (let key = chat_key q in
      case lookup_l1 env key w of
        (Some data, w) \<Rightarrow> (reply_chat (hr_Stream q) data, answered True ''cache_l1'' data v, g, w)
      | (None, w) \<Rightarrow>
          (case lookup_l2 env q g w of
             ((Some cached, _), g, w) \<Rightarrow>
               (reply_chat (hr_Stream q) cached, answered True ''cache_l2'' cached v, g, w)
           | ((None, vector), g, w) \<Rightarrow> chat_upstream env q key vector v g w))"

text \<open>
  What \<open>req\<close> holds when the binding fails: nothing after a syntax error, and after a field of
  the wrong type the fields that did decode.  Only its model is read.
\<close>

fun dec_fields_skip :: "(string \<times> 'a dec) list \<Rightarrow> (string \<times> json) list \<Rightarrow> 'a \<Rightarrow> 'a" where
  "dec_fields_skip fds [] v = v"
| "dec_fields_skip fds ((k, j) # kvs) v =
     (case find_field fds k of
        None \<Rightarrow> dec_fields_skip fds kvs v
      | Some f \<Rightarrow> dec_fields_skip fds kvs (case f j v of None \<Rightarrow> v | Some v' \<Rightarrow> v'))"

definition bind_partial :: "(string \<times> 'a dec) list \<Rightarrow> 'a \<Rightarrow> string option \<Rightarrow> 'a" where
  "bind_partial fds zero body =
     (case Option.bind body json_decode of
        Some (JObj kvs, _) \<Rightarrow> dec_fields_skip fds kvs zero
      | _ \<Rightarrow> zero)"

definition chat_serve ::
  "'w gateway_env \<Rightarrow> inbound \<Rightarrow> 'w gateway \<Rightarrow> 'w \<Rightarrow> chat_reply \<times> handler_vars \<times> 'w gateway \<times> 'w" where
  "chat_serve env inb g w =
     (case bind_json dec_chat_request chat_request_zero (ev_bind_err env) (in_body inb) of
        Inl e \<Rightarrow>
          (reply_failure (InvalidRequest e),
           failed (InvalidRequest e) (handler_vars_zero
             \<lparr>hv_reqModel := hr_Model (bind_partial chat_request_fields chat_request_zero (in_body inb))\<rparr>),
           g, w)
      | Inr q \<Rightarrow>
          let requestedModel = trim_space (hr_Model q);
              wx = extractWorkflowRequestContext (in_header inb);
              q = applyWorkflowRoutePolicy (ev_cfg env) (wx_StepType wx) q;
              v = handler_vars_zero\<lparr>hv_requestedModel := requestedModel, hv_reqModel := hr_Model q\<rparr>
          in case validateChatRequest q of
               Some e \<Rightarrow> (reply_failure (InvalidRequest e), failed (InvalidRequest e) v, g, w)
             | None \<Rightarrow> chat_answer env q v g w)"

definition ChatCompletion ::
  "'w gateway_env \<Rightarrow> inbound \<Rightarrow> 'w gateway \<Rightarrow> 'w \<Rightarrow> chat_reply \<times> 'w gateway \<times> 'w" where
  "ChatCompletion env inb g w =
     (let (startedAt, w) = sys_now (ev_sys env) w;
          (reply, v, g, w) = chat_serve env inb g w;
          (g, w) = chat_finish env inb v startedAt g w
      in (reply, g, w))"

section \<open>What every request leaves behind\<close>

definition chat_request_ok :: "chat_request \<Rightarrow> bool" where
  "chat_request_ok q \<longleftrightarrow> trim_space (hr_Model q) \<noteq> '''' \<and> hr_Messages q \<noteq> [] \<and>
     list_all message_valid (hr_Messages q) \<and> \<not> hr_Temperature q < 0 \<and> \<not> Fin 2 < hr_Temperature q \<and>
     \<not> hr_TopP q < 0 \<and> \<not> 1 < hr_TopP q \<and> 0 \<le> hr_MaxTokens q \<and>
     (case hr_Stop q of None \<Rightarrow> True | Some ss \<Rightarrow> length ss \<le> 4)"

lemma validate_ok: "validateChatRequest q = None \<longleftrightarrow> chat_request_ok q"
  unfolding chat_request_ok_def validate_messages_ok [of 0, symmetric]
  by (auto simp: validateChatRequest_def split: option.splits)

lemma chat_endpoint_trim: "trim_space chat_endpoint = chat_endpoint" "chat_endpoint \<noteq> ''''"
  by (simp add: chat_endpoint_def, code_simp) (simp add: chat_endpoint_def)

text \<open>What the recorded variables have to do with the reply.\<close>

definition vars_match :: "chat_reply \<Rightarrow> handler_vars \<Rightarrow> bool" where
  "vars_match reply v \<longleftrightarrow>
     (case snd reply of
        ChatJSON r \<Rightarrow> fst reply = 200 \<and> hv_statusCode v = 200 \<and> hv_errorCode v = '''' \<and>
          hv_routedModel v = hs_Model r \<and> hv_totalTokens v = hu_TotalTokens (hs_Usage r)
      | ChatStream evs \<Rightarrow> fst reply = 200 \<and> hv_statusCode v = 200 \<and> hv_errorCode v = ''''
      | ChatError e \<Rightarrow> fst reply = HTTPStatus (er_Error e) \<and> hv_statusCode v = fst reply \<and>
          hv_errorCode v = code_text (ge_Code (er_Error e)) \<and> \<not> hv_cacheHit v \<and> hv_totalTokens v = 0
      | ChatPanic \<Rightarrow> fst reply = 500 \<and> hv_statusCode v = 200 \<and> \<not> hv_cacheHit v)"

definition fresh_vars :: "handler_vars \<Rightarrow> bool" where
  "fresh_vars v \<longleftrightarrow> v = handler_vars_zero\<lparr>hv_requestedModel := hv_requestedModel v, hv_reqModel := hv_reqModel v\<rparr>"

lemma fresh_varsD:
  "fresh_vars v \<Longrightarrow> hv_statusCode v = 200 \<and> \<not> hv_cacheHit v \<and> hv_totalTokens v = 0 \<and> hv_errorCode v = ''''"
  unfolding fresh_vars_def handler_vars_zero_def by (cases v) simp

lemma vars_match_failure: "fresh_vars v \<Longrightarrow> vars_match (reply_failure e) (failed e v)"
  by (auto simp: vars_match_def reply_failure_def error_JSON_def ToErrorResponse_def failed_def dest: fresh_varsD)

lemma vars_match_answered: "fresh_vars v \<Longrightarrow> vars_match (reply_chat stream r) (answered hit up r v)"
  by (auto simp: vars_match_def reply_chat_def answered_def dest: fresh_varsD)

lemma chat_upstream_match:
  assumes "fresh_vars v" and "chat_upstream env q key vector v g w = (reply, v', g', w')"
  shows "vars_match reply v'"
  using assms vars_match_failure [OF assms(1)] vars_match_answered [OF assms(1)]
  by (auto simp: chat_upstream_def Let_def vars_match_def [of "(500, ChatPanic)"] answered_def dest: fresh_varsD
      split: prod.splits sum.splits go.splits)

lemma chat_answer_match:
  assumes "fresh_vars v" and "chat_answer env q v g w = (reply, v', g', w')"
  shows "vars_match reply v'"
  using assms vars_match_answered [OF assms(1)]
  by (auto simp: chat_answer_def Let_def dest: chat_upstream_match [OF assms(1)] split: prod.splits option.splits)

lemma fresh_vars_init [simp]:
  "fresh_vars (handler_vars_zero\<lparr>hv_reqModel := m\<rparr>)"
  "fresh_vars (handler_vars_zero\<lparr>hv_requestedModel := rm, hv_reqModel := m\<rparr>)"
  by (simp_all add: fresh_vars_def handler_vars_zero_def)

lemma chat_serve_match:
  assumes "chat_serve env inb g w = (reply, v, g', w')"
  shows "vars_match reply v"
  using assms
  by (auto simp: chat_serve_def Let_def intro: vars_match_failure
      dest: chat_answer_match [OF fresh_vars_init(2)] split: sum.splits option.splits)

lemma vars_match_status: "vars_match reply v \<Longrightarrow> hv_statusCode v \<noteq> 0"
  using HTTPStatus_range [of "case snd reply of ChatError e \<Rightarrow> er_Error e"]
  by (auto simp: vars_match_def split: chat_body.splits)

lemma chat_finish_accounted:
  assumes "hv_statusCode v \<noteq> 0"
  shows "\<exists>m. accounted chat_endpoint v (routedModelOrRequest (hv_routedModel v) m) g
    (fst (chat_finish env inb v startedAt g w))"
  unfolding chat_finish_def Let_def by (rule exI, rule account_accounted [OF chat_endpoint_trim assms])

lemma store_l2_frame:
  "store_l2 env key q resp vector g w = (r, g', w') \<Longrightarrow> gw_usage g' = gw_usage g \<and> gw_tracer g' = gw_tracer g"
  by (auto simp: store_l2_def refetch_vector_def Let_def split: option.splits prod.splits if_splits sum.splits go.splits)

lemma lookup_l2_frame:
  "lookup_l2 env q g w = (r, g', w') \<Longrightarrow>
    gw_usage g' = gw_usage g \<and> gw_tracer g' = gw_tracer g \<and> gw_registry g' = gw_registry g"
  by (auto simp: lookup_l2_def Let_def split: option.splits prod.splits if_splits sum.splits)

lemma chat_upstream_frame:
  "chat_upstream env q key vector v g w = (r, v', g', w') \<Longrightarrow> gw_usage g' = gw_usage g \<and> gw_tracer g' = gw_tracer g"
  by (auto simp: chat_upstream_def Let_def dest!: store_l2_frame split: prod.splits sum.splits go.splits)

lemma chat_answer_frame:
  "chat_answer env q v g w = (r, v', g', w') \<Longrightarrow> gw_usage g' = gw_usage g \<and> gw_tracer g' = gw_tracer g"
  by (fastforce simp: chat_answer_def Let_def dest!: lookup_l2_frame chat_upstream_frame
      split: prod.splits option.splits)

lemma chat_serve_frame:
  "chat_serve env inb g w = (r, v', g', w') \<Longrightarrow> gw_usage g' = gw_usage g \<and> gw_tracer g' = gw_tracer g"
  by (auto simp: chat_serve_def Let_def dest!: chat_answer_frame split: sum.splits option.splits)

lemma chat_accounts:
  assumes "ChatCompletion env inb g w = (reply, g', w')"
  shows "\<exists>v g1 n. vars_match reply v \<and> gw_usage g1 = gw_usage g \<and> gw_tracer g1 = gw_tracer g \<and>
    accounted chat_endpoint v (routedModelOrRequest (hv_routedModel v) n) g1 g'"
proof -
  obtain t w1 where t: "sys_now (ev_sys env) w = (t, w1)" by fastforce
  obtain rep v g1 w2 where serve: "chat_serve env inb g w1 = (rep, v, g1, w2)" by (metis prod_cases4)
  obtain g2 w3 where fin: "chat_finish env inb v t g1 w2 = (g2, w3)" by fastforce
  note match = chat_serve_match [OF serve]
  have "rep = reply" "g2 = g'" using assms t serve fin by (simp_all add: ChatCompletion_def)
  moreover obtain n where "accounted chat_endpoint v (routedModelOrRequest (hv_routedModel v) n) g1 g2"
    using chat_finish_accounted [OF vars_match_status [OF match], of g1 env inb t w2] fin by auto
  ultimately show ?thesis using match chat_serve_frame [OF serve] by blast
qed

lemma trim_code_text: "trim_space (code_text c) = code_text c"
  by (cases c; simp only: code_text.simps; code_simp)

text \<open>What the accounting records as the status of a reply.\<close>

definition chat_recorded :: "chat_reply \<Rightarrow> int" where
  "chat_recorded reply = (case snd reply of ChatPanic \<Rightarrow> 200 | _ \<Rightarrow> fst reply)"

interpretation chat_api: accounted_endpoint "ChatCompletion env" gw_usage gw_tracer "\<lambda>r. Some (chat_recorded r)" "{chat_endpoint}" for env
proof unfold_locales
  fix i g w r g' w' status
  assume "ChatCompletion env i g w = (r, g', w')"
    and status: "Some (chat_recorded r) = Some status"
  from chat_accounts [OF this(1)] obtain v g1 n where match: "vars_match r v" and
    acc: "accounted chat_endpoint v (routedModelOrRequest (hv_routedModel v) n) g1 g'" and
    g1: "gw_usage g1 = gw_usage g" "gw_tracer g1 = gw_tracer g" by blast
  have "hv_statusCode v = status"
    using match by (auto simp: vars_match_def chat_recorded_def status [symmetric, simplified] split: chat_body.splits)
  then show "\<exists>now m tr. gw_usage g' = stats_Record (gw_usage g) now m \<and> gw_tracer g' = updateSummary tr (gw_tracer g) \<and>
      rm_Endpoint m \<in> {chat_endpoint} \<and> wt_Endpoint tr = rm_Endpoint m \<and>
      rm_StatusCode m = status \<and> wt_StatusCode tr = status"
    using acc g1 unfolding accounted_def by (elim exE) (intro exI, auto)
qed simp


end
