(* ===== verification/ChatCache.thy ===== *)
theory ChatCache
  imports Chat
begin

text \<open>
  The chat handler in front of its caches: which calls leave a part of the outside world
  alone, and what follows for a request that is repeated.
\<close>

section \<open>Parts of the world that calls leave alone\<close>

text \<open>\<open>V\<close> is the part of the world in question, here what the Redis hashes hold.\<close>

definition keeps :: "('w \<Rightarrow> 's) \<Rightarrow> ('w \<Rightarrow> 'a \<times> 'w) \<Rightarrow> bool" where
  "keeps V cmd \<longleftrightarrow> (\<forall>w. V (snd (cmd w)) = V w)"

lemma keepsD: "keeps V cmd \<Longrightarrow> cmd w = (a, w') \<Longrightarrow> V w' = V w"
  by (metis keeps_def snd_conv)

definition http_keeps :: "('w \<Rightarrow> 's) \<Rightarrow> 'w http_ops \<Rightarrow> bool" where
  "http_keeps V http \<longleftrightarrow>
     (\<forall>rq. keeps V (ht_Do http rq)) \<and> (\<forall>d. keeps V (ht_Sleep http d)) \<and> keeps V (ht_Now http)"

definition sys_keeps :: "('w \<Rightarrow> 's) \<Rightarrow> 'w sys \<Rightarrow> bool" where
  "sys_keeps V sys \<longleftrightarrow> keeps V (sys_now sys) \<and> (\<forall>n. keeps V (\<lambda>w. sys_rand sys w n))"

definition registry_keeps :: "('w \<Rightarrow> 's) \<Rightarrow> 'w registry \<Rightarrow> bool" where
  "registry_keeps V r \<longleftrightarrow>
     (case rg_nowFunc r of None \<Rightarrow> True | Some f \<Rightarrow> keeps V f) \<and>
     (case rg_randIntn r of None \<Rightarrow> True | Some f \<Rightarrow> \<forall>n. keeps V (\<lambda>w. f w n)) \<and>
     (\<forall>p client req. rg_providers r p = Some client \<longrightarrow> keeps V (\<lambda>w. client w req))"

definition files_keeps :: "('w \<Rightarrow> 's) \<Rightarrow> 'w file_ops \<Rightarrow> bool" where
  "files_keeps V fo \<longleftrightarrow>
     (\<forall>d. keeps V (fo_MkdirAll fo d)) \<and> (\<forall>p. keeps V (fo_OpenAppend fo p)) \<and>
     (\<forall>p s. keeps V (fo_Write fo p s)) \<and> (\<forall>p w. V (fo_Close fo p w) = V w)"

definition l2_keeps :: "('w \<Rightarrow> 's) \<Rightarrow> entry_sort \<Rightarrow> 'w l2_cache \<Rightarrow> bool" where
  "l2_keeps V srt c \<longleftrightarrow>
     (\<forall>vec m. keeps V (l2_Search c vec m)) \<and>
     (\<forall>now k vec resp m. keeps V (l2_Store srt c now k vec resp m))"

text \<open>Everything around the exact cache.\<close>

definition env_keeps :: "('w \<Rightarrow> 's) \<Rightarrow> 'w gateway_env \<Rightarrow> bool" where
  "env_keeps V env \<longleftrightarrow>
     sys_keeps V (ev_sys env) \<and> http_keeps V (ev_http env) \<and> files_keeps V (ev_files env) \<and>
     keeps V (ev_random env) \<and>
     (case ev_pg env of None \<Rightarrow> True | Some p \<Rightarrow> pg_db p = None \<or>
        (\<forall>sql args. keeps V (sq_Exec (the (pg_db p)) sql args))) \<and>
     (case ev_l2 env of None \<Rightarrow> True | Some c \<Rightarrow> l2_keeps V (ev_sort env) c)"

section \<open>The registry\<close>

lemma registry_now_keeps:
  "sys_keeps V sys \<Longrightarrow> registry_keeps V r \<Longrightarrow> registry_now sys r w = (t, w') \<Longrightarrow> V w' = V w"
  by (auto simp: registry_now_def sys_keeps_def registry_keeps_def dest: keepsD split: option.splits)

lemma registry_rand_keeps:
  assumes "sys_keeps V sys" and "registry_keeps V r" and "registry_rand sys r n w = (i, w')"
  shows "V w' = V w"
  using assms unfolding registry_rand_def sys_keeps_def registry_keeps_def
  by (auto dest: keepsD [where cmd = "\<lambda>w. sys_rand sys w n"] keepsD [where cmd = "\<lambda>w. f w n" for f]
      split: option.splits if_splits)

lemma weightedPickIndex_keeps:
  "sys_keeps V sys \<Longrightarrow> registry_keeps V r \<Longrightarrow> weightedPickIndex sys r cs w = (i, w') \<Longrightarrow> V w' = V w"
  by (auto simp: weightedPickIndex_def Let_def dest: registry_rand_keeps split: if_splits prod.splits)

lemma weighted_loop_keeps:
  assumes "sys_keeps V sys" and "registry_keeps V r"
  shows "weighted_loop sys r pool ordered w = (cs, w') \<Longrightarrow> V w' = V w"
proof (induction pool arbitrary: ordered w rule: length_induct)
  case (1 pool)
  obtain idx w1 where pick: "weightedPickIndex sys r pool w = (idx, w1)" by fastforce
  show ?case
  proof (cases "pool = []")
    case False
    then have "idx < length pool" using weightedPickIndex_less pick by metis
    then have "length (take idx pool @ drop (Suc idx) pool) < length pool" by simp
    then show ?thesis
      using "1.IH" "1.prems" False pick weightedPickIndex_keeps [OF assms pick]
      by (subst (asm) weighted_loop.simps) fastforce
  qed (use "1.prems" in \<open>simp add: weighted_loop.simps\<close>)
qed

lemma queue_loop_keeps:
  assumes "sys_keeps V sys" and "registry_keeps V r"
  shows "queue_loop sys r ms acc w = (cs, w') \<Longrightarrow> V w' = V w"
proof (induction ms arbitrary: acc w)
  case Nil
  then show ?case by (cases acc) simp
next
  case (Cons m ms)
  obtain ordered w1 where o: "weightedOrder sys r (routesForModel r m) w = (ordered, w1)" by fastforce
  then have "V w1 = V w"
    using weighted_loop_keeps [OF assms] by (auto simp: weightedOrder_def split: if_splits)
  then show ?case using Cons.IH Cons.prems o by simp
qed

lemma attempt_route_keeps:
  assumes "sys_keeps V sys" and "registry_keeps V r" and "attempt_route sys r req c w = (a, r', w')"
  shows "V w' = V w"
proof (cases "rg_providers r (rc_providerName c)")
  case None
  then show ?thesis using assms(3) by (simp add: attempt_route_def)
next
  case (Some client)
  obtain b r1 where e: "ensureCircuit r c = (b, r1)" by fastforce
  have "registry_now sys r1 = registry_now sys r" by (rule registry_now_frame [OF registry_frame_ensure [OF e]])
  moreover have "keeps V (\<lambda>w. client w req)" for req using assms(2) Some by (simp add: registry_keeps_def)
  note keepsD [OF this]
  ultimately show ?thesis
    using assms(3) Some e registry_now_keeps [OF assms(1,2)]
    by (fastforce simp: attempt_route_def Let_def split: prod.splits if_splits sum.splits)
qed

lemma registry_keeps_frame: "registry_frame r r' cs \<Longrightarrow> registry_keeps V r' = registry_keeps V r"
  by (simp add: registry_frame_def registry_keeps_def)

lemma route_loop_keeps:
  assumes "sys_keeps V sys"
  shows "registry_keeps V r \<Longrightarrow> route_loop sys r req cs l s w = (res, r', w') \<Longrightarrow> V w' = V w"
proof (induction cs arbitrary: r l s w)
  case (Cons c cs)
  obtain a r1 w1 where a: "attempt_route sys r req c w = (a, r1, w1)" by (metis prod_cases3)
  have "V w1 = V w" by (rule attempt_route_keeps [OF assms Cons.prems(1) a])
  moreover have "registry_keeps V r1" using Cons.prems(1) registry_keeps_frame [OF attempt_route_frame [OF a]] by blast
  ultimately show ?case
    using Cons.IH [of r1] Cons.prems(2) a by (auto split: attempt.splits if_splits)
qed simp

lemma registry_chat_keeps:
  assumes "sys_keeps V sys" and "registry_keeps V r" and "registry_chat sys r req w = (res, r', w')"
  shows "V w' = V w"
proof -
  obtain queue w1 where q: "buildRouteQueue sys r (chat_model req) w = (queue, w1)" by fastforce
  obtain out r1 w2 where l: "route_loop sys r req queue None 0 w1 = (out, r1, w2)" by (metis prod_cases3)
  have "V w1 = V w" using queue_loop_keeps [OF assms(1,2) q [unfolded buildRouteQueue_def]] .
  moreover have "V w2 = V w1" by (rule route_loop_keeps [OF assms(1,2) l])
  moreover have "w' = w1 \<or> w' = w2"
    using assms(3) q l by (auto simp: registry_chat_def Let_def split: if_splits loop_result.splits option.splits)
  ultimately show ?thesis by auto
qed

section \<open>The embedding worker\<close>

lemma probe_paths_keeps:
  "http_keeps V http \<Longrightarrow> probe_paths http base paths w = (b, w') \<Longrightarrow> V w' = V w"
proof (induction paths arbitrary: w)
  case (Cons p paths)
  then show ?case
    by (auto simp: http_keeps_def split: option.splits prod.splits sum.splits if_splits dest!: keepsD)
qed simp

lemma Healthy_keeps:
  assumes "http_keeps V http" and "Healthy http cp w = (b, cp', w')"
  shows "V w' = V w"
proof (cases cp)
  case (Some c)
  obtain now w1 where n: "ht_Now http w = (now, w1)" by fastforce
  obtain h w2 where p: "probeHealth http c w1 = (h, w2)" by fastforce
  have "keeps V (ht_Now http)" using assms(1) by (simp add: http_keeps_def)
  then have "V w1 = V w" using n by (rule keepsD)
  moreover have "V w2 = V w1" by (rule probe_paths_keeps [OF assms(1) p [unfolded probeHealth_def]])
  ultimately show ?thesis using assms(2) Some n p by (auto simp: Healthy_def split: if_splits)
qed (use assms(2) in \<open>simp add: Healthy_def\<close>)

lemma generateOnce_keeps:
  assumes "http_keeps V http" and "generateOnce http err c req w = (r, w')"
  shows "V w' = V w"
  using assms
  by (auto simp: generateOnce_def Let_def http_keeps_def dest: keepsD
      split: option.splits prod.splits sum.splits if_splits)

lemma generate_loop_keeps:
  assumes "http_keeps V http"
  shows "generate_loop http err c req n b l w = (r, w') \<Longrightarrow> V w' = V w"
proof (induction n arbitrary: b l w)
  case (Suc n)
  have "V w2 = V w1" if "ht_Sleep http d w1 = (e, w2)" for d w1 e w2
    using assms that keepsD unfolding http_keeps_def by metis
  then show ?case
    using Suc generateOnce_keeps [OF assms]
    by (fastforce split: prod.splits sum.splits if_splits option.splits)
qed simp

lemma fetchSemanticVector_keeps:
  assumes "http_keeps V http" and "fetchSemanticVector http err wk ms w = (r, w')"
  shows "V w' = V w"
  using assms(2) generate_loop_keeps [OF assms(1)]
  by (fastforce simp: fetchSemanticVector_def Generate_def Let_def
      split: option.splits prod.splits sum.splits if_splits list.splits)

section \<open>The handler's own steps\<close>

lemma forwardToProvider_keeps:
  assumes "sys_keeps V sys" and "case rp of None \<Rightarrow> True | Some r \<Rightarrow> registry_keeps V r"
    and "forwardToProvider sys rp q w = (res, rp', w')"
  shows "V w' = V w"
  using assms
  by (auto simp: forwardToProvider_def registry_ChatCompletion_def dest!: registry_chat_keeps [rotated 2]
      split: option.splits prod.splits sum.splits)

lemma lookup_l2_keeps:
  assumes "env_keeps V env" and "lookup_l2 env q g w = (res, g', w')"
  shows "V w' = V w"
proof (cases "ev_l2 env")
  case (Some c)
  obtain ok wk w1 where h: "Healthy (ev_http env) (gw_worker g) w = (ok, wk, w1)" by (metis prod_cases3)
  obtain r w2 where f: "fetchSemanticVector (ev_http env) (ev_worker_err env) wk (hr_Messages q) w1 = (r, w2)"
    by fastforce
  have http: "http_keeps V (ev_http env)" and l2: "l2_keeps V (ev_sort env) c"
    using assms(1) Some by (simp_all add: env_keeps_def)
  have "V w1 = V w" "V w2 = V w1"
    using Healthy_keeps [OF http h] fetchSemanticVector_keeps [OF http f] by simp_all
  moreover have "V w4 = V w3" if "l2_Search c vec m w3 = (x, w4)" for vec m w3 x w4
    using l2 that keepsD unfolding l2_keeps_def by metis
  ultimately show ?thesis
    using assms(2) Some h f by (auto simp: lookup_l2_def Let_def split: if_splits prod.splits sum.splits option.splits)
qed (use assms(2) in \<open>simp add: lookup_l2_def\<close>)

lemma refetch_vector_keeps:
  assumes "env_keeps V env" and "refetch_vector env q vec g w = (vec', g', w')"
  shows "V w' = V w"
proof -
  obtain ok wk w1 where h: "Healthy (ev_http env) (gw_worker g) w = (ok, wk, w1)" by (metis prod_cases3)
  obtain r w2 where f: "fetchSemanticVector (ev_http env) (ev_worker_err env) wk (hr_Messages q) w1 = (r, w2)"
    by fastforce
  have http: "http_keeps V (ev_http env)" using assms(1) by (simp add: env_keeps_def)
  show ?thesis
    using assms(2) h f Healthy_keeps [OF http h] fetchSemanticVector_keeps [OF http f]
    by (auto simp: refetch_vector_def Let_def split: if_splits sum.splits)
qed

lemma store_l2_keeps:
  assumes "env_keeps V env" and "store_l2 env key q resp vec g w = (res, g', w')"
  shows "V w' = V w"
proof (cases "ev_l2 env")
  case (Some c)
  obtain v1 g1 w1 where r: "refetch_vector env q vec g w = (v1, g1, w1)" by (metis prod_cases3)
  obtain now w2 where n: "sys_now (ev_sys env) w1 = (now, w2)" by fastforce
  have "keeps V (sys_now (ev_sys env))" and l2: "l2_keeps V (ev_sort env) c"
    using assms(1) Some by (simp_all add: env_keeps_def sys_keeps_def)
  then have "V w2 = V w1" using keepsD n by metis
  moreover have "V w1 = V w" by (rule refetch_vector_keeps [OF assms(1) r])
  moreover have "V w4 = V w3" if "l2_Store (ev_sort env) c t k vec rs m w3 = (x, w4)" for t k vec rs m w3 x w4
    using l2 that keepsD unfolding l2_keeps_def by metis
  ultimately show ?thesis
    using assms(2) Some r n by (auto simp: store_l2_def split: if_splits prod.splits go.splits)
qed (use assms(2) in \<open>simp add: store_l2_def\<close>)

lemma persist_keeps:
  assumes "env_keeps V env" and "persistRequestLog (ev_pg env) e k m s l h n w = (w', msgs)"
  shows "V w' = V w"
proof -
  have "V w2 = V w1" if "ev_pg env = Some p" "pg_db p = Some db" "sq_Exec db sql args w1 = (x, w2)"
    for p db sql args w1 x w2
    using assms(1) that keepsD unfolding env_keeps_def by fastforce
  then show ?thesis
    using assms(2)
    by (auto simp: persistRequestLog_def InsertRequestLog_def pg_handle_def Let_def
        split: option.splits prod.splits if_splits)
qed

lemma tracer_Record_keeps:
  assumes "files_keeps V fo" and "tracer_Record fo rbytes t1 t2 tr trace w = (tr', w')"
  shows "V w' = V w"
proof -
  have mk: "keeps V (fo_MkdirAll fo d)" and op: "keeps V (fo_OpenAppend fo p)"
    and wr: "keeps V (fo_Write fo p s)" and cl: "V (fo_Close fo p w1) = V w1" for d p s w1
    using assms(1) by (simp_all add: files_keeps_def)
  show ?thesis
    using assms(2) keepsD [OF mk] keepsD [OF op] keepsD [OF wr] cl
    by (fastforce simp: tracer_Record_def appendJSONL_def Let_def split: if_splits prod.splits option.splits)
qed

lemma account_keeps:
  assumes "env_keeps V env" and "account env e inb rm r v s g w = (g', w')"
  shows "V w' = V w"
proof -
  let ?now = "sys_now (ev_sys env)"
  have now: "keeps V ?now" and rand: "keeps V (ev_random env)" and fo: "files_keeps V (ev_files env)"
    using assms(1) by (simp_all add: env_keeps_def sys_keeps_def)
  show ?thesis
    using assms(2) keepsD [OF now] keepsD [OF rand] persist_keeps [OF assms(1)] tracer_Record_keeps [OF fo]
    unfolding account_def Let_def by (auto split: prod.splits if_splits)
qed

lemma chat_finish_keeps:
  "env_keeps V env \<Longrightarrow> chat_finish env inb v s g w = (g', w') \<Longrightarrow> V w' = V w"
  unfolding chat_finish_def Let_def by (rule account_keeps)

section \<open>Repeated requests\<close>

text \<open>A Redis that answers: a read of a field gives its value or a miss, and writes succeed.\<close>

definition hash_up :: "'w redis_ops \<Rightarrow> bool" where
  "hash_up ops \<longleftrightarrow>
     (\<forall>k f w e. fst (rd_HGet ops k f w) = Inl e \<longrightarrow> e = RedisNil) \<and>
     (\<forall>k f v w. fst (rd_HSet ops k f v w) = None) \<and> (\<forall>k d w. fst (rd_Expire ops k d w) = None)"

text \<open>The exact cache of the gateway, over the hashes \<open>H\<close>.\<close>

definition l1_installed :: "'w gateway_env \<Rightarrow> 'w l1_cache \<Rightarrow> ('w \<Rightarrow> hashes) \<Rightarrow> bool" where
  "l1_installed env c H \<longleftrightarrow>
     cache_on env \<and> ev_l1 env = Some c \<and>
     (case l1_client c of None \<Rightarrow> False | Some ops \<Rightarrow> hash_laws ops H \<and> hash_up ops)"

definition cached_reply :: "'w l1_cache \<Rightarrow> hashes \<Rightarrow> string \<Rightarrow> chat_response option" where
  "cached_reply c h key = Option.bind (h (l1_keyPrefix c) key) unmarshal_chat"

lemma lookup_l1_value:
  assumes "l1_installed env c H" and "lookup_l1 env key w = (res, w')"
  shows "res = cached_reply c (H w) key" "H w' = H w"
proof -
  obtain ops where ops: "l1_client c = Some ops" "hash_laws ops H" "hash_up ops"
    using assms(1) by (auto simp: l1_installed_def split: option.splits)
  obtain r w1 where g: "rd_HGet ops (l1_keyPrefix c) key w = (r, w1)" by fastforce
  have "r = Inl e \<Longrightarrow> e = RedisNil" for e using ops(3) g by (metis fst_conv hash_up_def)
  then show "res = cached_reply c (H w) key" "H w' = H w"
    using assms ops(1) g hash_HGet [OF ops(2) g]
    by (auto simp: l1_installed_def lookup_l1_def l1_Get_def cached_reply_def unmarshal_chat_def
        split: sum.splits redis_err.splits)
qed

lemma store_l1_value:
  assumes "l1_installed env c H" and "valid_response (toCacheResponse r)"
  shows "cached_reply c (H (store_l1 env key r w)) key = Some r"
proof -
  obtain ops where ops: "l1_client c = Some ops" "hash_laws ops H" "hash_up ops"
    using assms(1) by (auto simp: l1_installed_def split: option.splits)
  obtain e w1 where s: "l1_Set c key (Marshal (toCacheResponse r)) w = (e, w1)" by fastforce
  have up: "fst (rd_HSet ops k f v w) = None" "fst (rd_Expire ops k d w) = None" for k f v d w
    using ops(3) by (simp_all add: hash_up_def)
  have "fst (l1_Set c key (Marshal (toCacheResponse r)) w) = None"
    by (simp add: l1_Set_def ops(1) Let_def case_prod_beta up)
  then have "e = None" using s by simp
  then have "H w1 (l1_keyPrefix c) key = Some (Marshal (toCacheResponse r))"
    using set_view(3) [OF ops(2,1) s] by simp
  moreover have "store_l1 env key r w = w1" using assms(1) s by (simp add: l1_installed_def store_l1_def)
  moreover have "UnmarshalChatResponse (Marshal (toCacheResponse r)) = Some (toCacheResponse r)"
    using json_roundtrip [OF response_json_ok [OF assms(2)]] dec_response_json [OF assms(2)]
    by (simp add: UnmarshalChatResponse_def Marshal_def)
  ultimately show ?thesis by (simp add: cached_reply_def unmarshal_chat_def)
qed

text \<open>The request a body stands for, once bound and routed.\<close>

definition bound_request :: "'w gateway_env \<Rightarrow> inbound \<Rightarrow> chat_request option" where
  "bound_request env inb =
     (case bind_json dec_chat_request chat_request_zero (ev_bind_err env) (in_body inb) of
        Inl _ \<Rightarrow> None
      | Inr q \<Rightarrow>
          let q = applyWorkflowRoutePolicy (ev_cfg env)
                (wx_StepType (extractWorkflowRequestContext (in_header inb))) q
          in if chat_request_ok q then Some q else None)"

lemma chat_serve_bound:
  "bound_request env inb = Some q \<Longrightarrow>
    \<exists>v. fresh_vars v \<and> chat_serve env inb g w = chat_answer env q v g w"
  by (auto simp: bound_request_def chat_serve_def Let_def validate_ok [symmetric] split: sum.splits if_splits
      intro!: exI [of _ "handler_vars_zero\<lparr>hv_requestedModel := rm, hv_reqModel := m\<rparr>" for rm m])

lemma chat_serve_unbound:
  "bound_request env inb = None \<Longrightarrow>
    \<exists>e v. chat_serve env inb g w = (reply_failure (InvalidRequest e), failed (InvalidRequest e) v, g, w)"
  by (auto simp: bound_request_def chat_serve_def Let_def validate_ok [symmetric]
      split: sum.splits if_splits option.splits)

lemma chat_serve_hit:
  assumes "l1_installed env c H" and "bound_request env inb = Some q"
    and "cached_reply c (H w) (chat_key q) = Some r"
  shows "\<exists>v w'. chat_serve env inb g w = (reply_chat (hr_Stream q) r, answered True ''cache_l1'' r v, g, w') \<and>
    H w' = H w"
proof -
  obtain v where v: "chat_serve env inb g w = chat_answer env q v g w" using chat_serve_bound [OF assms(2)] by blast
  obtain res w' where l: "lookup_l1 env (chat_key q) w = (res, w')" by fastforce
  show ?thesis
    using v l lookup_l1_value [OF assms(1) l] assms(3) by (simp add: chat_answer_def) blast
qed

text \<open>A full answer that did not come from the semantic cache is in the exact cache afterwards.\<close>

lemma chat_serve_fills:
  assumes "l1_installed env c H" and "env_keeps H env"
    and "case gw_registry g of None \<Rightarrow> True | Some r \<Rightarrow> registry_keeps H r"
    and "chat_serve env inb g w = ((200, ChatJSON r), v, g', w')"
    and "\<And>q g w. bound_request env inb = Some q \<Longrightarrow> fst (fst (lookup_l2 env q g w)) = None"
    and "valid_response (toCacheResponse r)"
  shows "\<exists>q. bound_request env inb = Some q \<and> \<not> hr_Stream q \<and> cached_reply c (H w') (chat_key q) = Some r"
proof (cases "bound_request env inb")
  case None
  from chat_serve_unbound [OF this, of g w] show ?thesis
    using assms(4) by (auto simp: reply_failure_def error_JSON_def)
next
  case (Some q)
  obtain v0 where v0: "chat_serve env inb g w = chat_answer env q v0 g w" using chat_serve_bound [OF Some] by blast
  obtain res w1 where l1: "lookup_l1 env (chat_key q) w = (res, w1)" by fastforce
  note val = lookup_l1_value [OF assms(1) l1]
  show ?thesis
  proof (cases res)
    case (Some r0)
    then have "reply_chat (hr_Stream q) r0 = (200, ChatJSON r)" "w' = w1"
      using assms(4) v0 l1 by (simp_all add: chat_answer_def)
    then have "\<not> hr_Stream q" "r0 = r" by (simp_all add: reply_chat_def split: if_splits)
    then show ?thesis using Some val \<open>w' = w1\<close> \<open>bound_request env inb = Some q\<close> by simp
  next
    case None
    obtain miss vec g1 w2 where l2: "lookup_l2 env q g w1 = ((miss, vec), g1, w2)" by (metis prod.collapse)
    have "miss = None" using assms(5) [OF \<open>bound_request env inb = Some q\<close>, of g w1] l2 by simp
    then have up: "chat_upstream env q (chat_key q) vec v0 g1 w2 = ((200, ChatJSON r), v, g', w')"
      using assms(4) v0 l1 None l2 by (simp add: chat_answer_def)
    obtain out rp w3 where f: "forwardToProvider (ev_sys env) (gw_registry g1) q w2 = (out, rp, w3)"
      by (metis prod_cases3)
    obtain resp nm where out: "out = Inr (resp, nm)"
      using up f by (cases out) (auto simp: chat_upstream_def reply_failure_def error_JSON_def)
    obtain u g2 w4 where s2: "store_l2 env (chat_key q) q resp vec (g1\<lparr>gw_registry := rp\<rparr>)
        (store_l1 env (chat_key q) resp w3) = (u, g2, w4)" by (metis prod_cases3)
    have "resp = r" "\<not> hr_Stream q" "w' = w4"
      using up f out s2 by (auto simp: chat_upstream_def reply_chat_def Let_def split: go.splits if_splits)
    moreover have "H w4 = H (store_l1 env (chat_key q) resp w3)" by (rule store_l2_keeps [OF assms(2) s2])
    ultimately show ?thesis
      using store_l1_value [OF assms(1,6), of "chat_key q" w3] \<open>bound_request env inb = Some q\<close> by simp
  qed
qed


section \<open>A gateway in memory\<close>

text \<open>One upstream that always answers, a Redis in memory and no database, for the concrete inputs.\<close>

definition ex_config :: config where
  "ex_config =
     \<lparr>cfg_Server = \<lparr>sc_Host = '''', sc_Port = 8080, sc_Mode = ''debug''\<rparr>,
      cfg_Logger = \<lparr>lc_Level = '''', lc_Format = '''', lc_OutputPath = ''''\<rparr>,
      cfg_Database = \<lparr>dc_Host = '''', dc_Port = 5432, dc_User = '''', dc_Password = '''', dc_DBName = ''''\<rparr>,
      cfg_Redis = \<lparr>rdc_Address = '''', rdc_Password = '''', rdc_DB = 0\<rparr>,
      cfg_PythonWorker = \<lparr>pw_Address = '''', pw_Timeout = 0, pw_RetryMax = 0, pw_RetryBackoff = 0, pw_HealthTTL = 0\<rparr>,
      cfg_Providers = \<lparr>pvs_OpenAI = \<lparr>pvc_APIKey = ''k'', pvc_BaseURL = ''u''\<rparr>,
        pvs_Anthropic = \<lparr>pvc_APIKey = '''', pvc_BaseURL = ''''\<rparr>, pvs_MiniMax = \<lparr>pvc_APIKey = '''', pvc_BaseURL = ''''\<rparr>\<rparr>,
      cfg_Cache = \<lparr>cc_Enabled = True, cc_SimilarityThreshold = 0, cc_TTL = 60, cc_L1TTL = 60, cc_MaxCacheSize = 2\<rparr>,
      cfg_RateLimit = \<lparr>rl_GlobalQPS = 0, rl_Burst = 0, rl_MaxTokens = 0, rl_ModelLimits = Map.empty\<rparr>,
      cfg_Models = [], cfg_Workflow = \<lparr>wc_ReplayLogPath = '''', wc_RoutePolicies = None\<rparr>,
      cfg_Monitoring = \<lparr>moc_Prometheus = \<lparr>pmc_Enabled = False, pmc_Port = 0\<rparr>,
        moc_Jaeger = \<lparr>jc_Enabled = False, jc_Endpoint = ''''\<rparr>,
        moc_OTLP = \<lparr>oc_Enabled = False, oc_Endpoint = '''', oc_Insecure = False\<rparr>\<rparr>\<rparr>"

definition ex_clock :: "mem sys" where
  "ex_clock = \<lparr>sys_now = (\<lambda>w. (5 * second, w)), sys_rand = (\<lambda>w n. (0, w))\<rparr>"

definition ex_answer :: prov_response where
  "ex_answer = \<lparr>ps_ID = ''c1'', ps_Object = ''chat.completion'', ps_Created = 7, ps_Model = ''gpt-4'',
     ps_Choices = [\<lparr>pc_Index = 0, pc_Message = \<lparr>pm_Role = ''assistant'', pm_Content = ''hello'', pm_Name = ''''\<rparr>,
       pc_FinishReason = ''stop''\<rparr>],
     ps_Usage = \<lparr>pu_PromptTokens = 3, pu_CompletionTokens = 4, pu_TotalTokens = 7\<rparr>, ps_Provider = ''openai''\<rparr>"

definition ex_routes :: "mem registry" where
  "ex_routes = \<lparr>rg_providers = [''openai'' \<mapsto> (\<lambda>w req. (Inr ex_answer, w))], rg_modelRoutes = Map.empty,
     rg_modelFallbacks = [], rg_circuits = Map.empty, rg_nowFunc = None, rg_randIntn = None\<rparr>"

definition ex_env :: "mem gateway_env" where
  "ex_env = \<lparr>ev_cfg = ex_config, ev_sys = ex_clock,
     ev_http = \<lparr>ht_NewRequest = (\<lambda>m u. None), ht_Do = (\<lambda>rq w. (Inl ''no network'', w)),
       ht_Sleep = (\<lambda>d w. (None, w)), ht_Now = (\<lambda>w. (5 * second, w))\<rparr>,
     ev_files = \<lparr>fo_MkdirAll = (\<lambda>d w. (None, w)), fo_OpenAppend = (\<lambda>p w. (None, w)),
       fo_Write = (\<lambda>p s w. (None, w)), fo_Close = (\<lambda>p w. w)\<rparr>,
     ev_random = (\<lambda>w. (None, w)), ev_sort = sort_key (ve_Created \<circ> snd), ev_bind_err = (\<lambda>_. ''bad JSON''),
     ev_worker_err = (\<lambda>_. ''bad JSON''), ev_pg = None, ev_l1 = Some ex_l1, ev_l2 = None\<rparr>"

definition ex_gateway :: "mem gateway" where
  "ex_gateway = \<lparr>gw_registry = Some ex_routes, gw_worker = None, gw_usage = NewUsageStats,
     gw_tracer = NewWorkflowTracer ''''\<rparr>"

definition ex_inbound :: inbound where
  "ex_inbound = \<lparr>in_header = (\<lambda>_. ''''),
     in_body = Some ([CHR ''{'', CHR 0x22] @ ''model'' @ [CHR 0x22, CHR '':'', CHR 0x22] @ ''gpt-4'' @
       [CHR 0x22, CHR '','', CHR 0x22] @ ''messages'' @ [CHR 0x22, CHR '':'', CHR ''['', CHR ''{'', CHR 0x22] @
       ''role'' @ [CHR 0x22, CHR '':'', CHR 0x22] @ ''user'' @ [CHR 0x22, CHR '','', CHR 0x22] @ ''content'' @
       [CHR 0x22, CHR '':'', CHR 0x22] @ ''hi'' @ [CHR 0x22, CHR ''}'', CHR '']'', CHR ''}'']),
     in_apiKeyID = None\<rparr>"

lemma ex_bound: "bound_request ex_env ex_inbound = Some ex_chat_request"
  by code_simp

lemma ex_keeps: "env_keeps mem_H ex_env" "registry_keeps mem_H ex_routes"
  by (simp_all add: env_keeps_def ex_env_def ex_clock_def sys_keeps_def http_keeps_def files_keeps_def keeps_def
      registry_keeps_def ex_routes_def)

lemma ex_installed: "l1_installed ex_env ex_l1 mem_H"
proof -
  have "hash_up mem_redis" by (auto simp: hash_up_def mem_redis_def split: option.splits)
  then show ?thesis
    by (simp add: l1_installed_def cache_on_def ex_env_def ex_config_def ex_l1_sel mem_hash_laws)
qed

lemma ex_l2_silent: "fst (fst (lookup_l2 ex_env q g w)) = None"
  by (simp add: lookup_l2_def ex_env_def)

lemma ex_forward:
  "\<exists>rp w'. forwardToProvider ex_clock (Some ex_routes) ex_chat_request w =
    (Inr (toHandlerResponse ex_answer, ''openai''), rp, w')"
proof -
  have "fst (forwardToProvider ex_clock (Some ex_routes) ex_chat_request w) =
      Inr (toHandlerResponse ex_answer, ''openai'')"
    by code_simp
  then show ?thesis by (metis prod.collapse)
qed

lemma ex_first_chat:
  "\<exists>g1 w1. ChatCompletion ex_env ex_inbound ex_gateway mem_empty =
    ((200, ChatJSON (toHandlerResponse ex_answer)), g1, w1)"
proof -
  obtain v where v: "chat_serve ex_env ex_inbound ex_gateway mem_empty = chat_answer ex_env ex_chat_request v ex_gateway mem_empty"
    using chat_serve_bound [OF ex_bound] by blast
  obtain res wa where l: "lookup_l1 ex_env (chat_key ex_chat_request) mem_empty = (res, wa)" by fastforce
  have "mem_H mem_empty k f = None" for k f by (simp add: mem_H_def mem_hash_def mem_empty_def)
  then have "res = None" using lookup_l1_value [OF ex_installed l] by (simp add: cached_reply_def)
  moreover have "ev_sys ex_env = ex_clock" "ev_l2 ex_env = None" "gw_registry ex_gateway = Some ex_routes"
    "hr_Stream ex_chat_request = False"
    by (simp_all add: ex_env_def ex_gateway_def ex_chat_request_def chat_request_zero_def)
  moreover obtain rp wb where "forwardToProvider ex_clock (Some ex_routes) ex_chat_request wa =
    (Inr (toHandlerResponse ex_answer, ''openai''), rp, wb)" using ex_forward by blast
  ultimately have "fst (chat_serve ex_env ex_inbound ex_gateway mem_empty) =
      (200, ChatJSON (toHandlerResponse ex_answer))"
    using v l by (simp add: chat_answer_def lookup_l2_def chat_upstream_def store_l2_def reply_chat_def Let_def)
  moreover have "sys_now (ev_sys ex_env) mem_empty = (5 * second, mem_empty)" by (simp add: ex_env_def ex_clock_def)
  ultimately show ?thesis
    by (auto simp: ChatCompletion_def split: prod.splits)
qed


text \<open>
  Claim C37. A bad request stops at the door: a body that does not decode, or decodes to a
  request without a model, without messages, with a message whose role or content is blank or
  whose role is unknown, or with a parameter out of range, is answered with 400 and the code
  \<open>invalid_request\<close>; nothing but the accounting happens, so neither cache, upstream nor
  worker is asked and their state is unchanged.
\<close>
theorem bad_request_contained:
  assumes "bound_request env inb = None" and "ChatCompletion env inb g w = (reply, g', w')"
  shows "\<exists>e v t w1. reply = (400, ChatError \<lparr>er_Error = InvalidRequest e\<rparr>) \<and>
    sys_now (ev_sys env) w = (t, w1) \<and> chat_finish env inb v t g w1 = (g', w') \<and>
    gw_registry g' = gw_registry g \<and> gw_worker g' = gw_worker g \<and>
    st_cacheHits (gw_usage g') = st_cacheHits (gw_usage g) \<and> st_totalTokens (gw_usage g') = st_totalTokens (gw_usage g)"
proof -
  obtain t w1 where t: "sys_now (ev_sys env) w = (t, w1)" by fastforce
  obtain e v where s: "chat_serve env inb g w1 = (reply_failure (InvalidRequest e), v, g, w1)"
    using chat_serve_unbound [OF assms(1)] by blast
  obtain g2 w2 where fin: "chat_finish env inb v t g w1 = (g2, w2)" by fastforce
  have eqs: "reply = reply_failure (InvalidRequest e)" "g' = g2" "w' = w2"
    using assms(2) t s fin by (simp_all add: ChatCompletion_def)
  note match = chat_serve_match [OF s]
  have v: "\<not> hv_cacheHit v" "hv_totalTokens v = 0"
    using match by (simp_all add: vars_match_def reply_failure_def error_JSON_def)
  obtain m where acc: "accounted chat_endpoint v (routedModelOrRequest (hv_routedModel v) m) g g2"
    using chat_finish_accounted [OF vars_match_status [OF match], of g env inb t w1] fin by auto
  then have "gw_registry g2 = gw_registry g \<and> gw_worker g2 = gw_worker g \<and>
      st_cacheHits (gw_usage g2) = st_cacheHits (gw_usage g) \<and> st_totalTokens (gw_usage g2) = st_totalTokens (gw_usage g)"
    using v by (auto simp: accounted_def stats_Record_def Let_def)
  moreover have "reply = (400, ChatError \<lparr>er_Error = InvalidRequest e\<rparr>)"
    by (simp add: eqs(1) reply_failure_def error_JSON_def ToErrorResponse_def)
  ultimately show ?thesis using t fin eqs(2,3) by blast
qed

theorem bad_request_contained_witness:
  "\<exists>e g' w'. ChatCompletion ex_env (ex_inbound\<lparr>in_body := None\<rparr>) ex_gateway mem_empty =
      ((400, ChatError \<lparr>er_Error = InvalidRequest e\<rparr>), g', w') \<and> gw_registry g' = gw_registry ex_gateway"
proof -
  have "bound_request ex_env (ex_inbound\<lparr>in_body := None\<rparr>) = None"
    by (simp add: bound_request_def bind_json_def)
  then show ?thesis
    using bad_request_contained by (metis prod_cases3)
qed

end
