(* ===== verification/Embedding.thy ===== *)
theory Embedding
  imports ChatCache
begin

text \<open>
  The handler of \<open>POST /v1/embeddings\<close> (\<open>internal/handler/embedding.go\<close>), with the same
  accounting as the chat handler.
\<close>

section \<open>Types\<close>

text \<open>\<open>Input\<close> holds any JSON value.\<close>

record embedding_request =
  eq_Input :: json
  eq_Model :: string

record embed_entry =
  ee_Object :: string
  ee_Embedding :: "f64 list"
  ee_Index :: int

record embedding_response =
  er_Object :: string
  er_Data :: "embed_entry list"
  er_Model :: string
  er_Usage :: chat_usage

text \<open>
  A JSON value decoded into an \<open>interface{}\<close>, as the JSON value it is encoded to again: a
  number becomes a float, an object a map, which has the last of several equal keys and is
  encoded in the order of its keys.  None is the error for a number out of range.
\<close>

fun any_value :: "json \<Rightarrow> json option"
  and any_list :: "json list \<Rightarrow> json list option"
  and any_members :: "(string \<times> json) list \<Rightarrow> (string \<times> json) list \<Rightarrow> (string \<times> json) list option" where
  "any_value (JNum l) =
     (case rnd (literal_value l) of Fin x \<Rightarrow> map_option JNum (float_literal (Fin x)) | _ \<Rightarrow> None)"
| "any_value (JArr xs) = map_option JArr (any_list xs)"
| "any_value (JObj kvs) = map_option (\<lambda>m. JObj (sort_key fst m)) (any_members kvs [])"
| "any_value j = Some j"
| "any_list [] = Some []"
| "any_list (x # xs) =
     (case any_value x of None \<Rightarrow> None | Some y \<Rightarrow> map_option ((#) y) (any_list xs))"
| "any_members [] m = Some m"
| "any_members ((k, x) # kvs) m =
     (case any_value x of None \<Rightarrow> None | Some y \<Rightarrow> any_members kvs (AList.update k y m))"

definition dec_any :: "json dec" where
  "dec_any j old = any_value j"

definition embedding_request_fields :: "(string \<times> embedding_request dec) list" where
  "embedding_request_fields =
     [(''input'', dec_into eq_Input eq_Input_update dec_any),
      (''model'', dec_into eq_Model eq_Model_update dec_string)]"

definition dec_embedding_request :: "embedding_request dec" where
  "dec_embedding_request = dec_struct embedding_request_fields"

definition embedding_request_zero :: embedding_request where
  "embedding_request_zero = \<lparr>eq_Input = JNull, eq_Model = ''''\<rparr>"

definition defaultEmbeddingModel :: string where
  "defaultEmbeddingModel = ''text-embedding-ada-002''"

section \<open>Errors and results\<close>

definition mapEmbeddingWorkerError :: "worker_error option \<Rightarrow> gateway_error" where
  "mapEmbeddingWorkerError err =
     (let message = (case err of Some e \<Rightarrow> if we_Message e \<noteq> '''' then we_Message e
                                           else ''upstream embedding provider error''
                     | None \<Rightarrow> ''upstream embedding provider error'')
      in case err of
           None \<Rightarrow> ProviderError message
         | Some e \<Rightarrow>
             let code = we_StatusCode e in
             if code = 400 then InvalidRequest message
             else if code = 401 then InvalidAPIKey message
             else if code = 403 then KeyDisabled message
             else if code = 429 then RateLimitExceeded message
             else if code = 502 then BadGateway message
             else if code = 503 then ServiceUnavailable message
             else if code \<ge> 500 then ProviderError message
             else InternalError message)"

definition toEmbeddingResponse :: "worker_response \<Rightarrow> embedding_response" where
  "toEmbeddingResponse r =
     \<lparr>er_Object = wr_Object r,
      er_Data = map (\<lambda>d. \<lparr>ee_Object = de_Object d, ee_Embedding = de_Embedding d, ee_Index = de_Index d\<rparr>) (wr_Data r),
      er_Model = wr_Model r,
      er_Usage = \<lparr>hu_PromptTokens = wu_PromptTokens (wr_Usage r),
        hu_CompletionTokens = wu_CompletionTokens (wr_Usage r), hu_TotalTokens = wu_TotalTokens (wr_Usage r)\<rparr>\<rparr>"

datatype embedding_body =
    EmbJSON embedding_response
  | EmbError error_response
  | EmbPanic

type_synonym embedding_reply = "int \<times> embedding_body"

definition emb_failure :: "gateway_error \<Rightarrow> embedding_reply" where
  "emb_failure e = (case error_JSON e of (status, body) \<Rightarrow> (status, EmbError body))"

section \<open>The handler\<close>

definition embedding_endpoint :: string where
  "embedding_endpoint = ''/v1/embeddings''"

definition embedding_finish ::
  "'w gateway_env \<Rightarrow> inbound \<Rightarrow> handler_vars \<Rightarrow> time \<Rightarrow> 'w gateway \<Rightarrow> 'w \<Rightarrow> 'w gateway \<times> 'w" where
  "embedding_finish env inb v startedAt g w =
     (let requestModel = trim_space (hv_reqModel v);
          requestModel = (if requestModel = '''' then defaultEmbeddingModel else requestModel);
          requestedModel = (if trim_space (hv_requestedModel v) = '''' then requestModel
                            else hv_requestedModel v);
          routedModel = (if trim_space (hv_routedModel v) = '''' then requestModel else hv_routedModel v)
      in account env embedding_endpoint inb requestedModel routedModel
           (v\<lparr>hv_upstreamProvider := ''embedding_worker''\<rparr>) startedAt g w)"

text \<open>
  A nil response with a nil error, which only a client without attempts gives, is
  dereferenced.
\<close>

definition embedding_serve ::
  "'w gateway_env \<Rightarrow> inbound \<Rightarrow> 'w gateway \<Rightarrow> 'w \<Rightarrow> embedding_reply \<times> handler_vars \<times> 'w" where
  "embedding_serve env inb g w =
     (case bind_json dec_embedding_request embedding_request_zero (ev_bind_err env) (in_body inb) of
        Inl e \<Rightarrow>
          (emb_failure (InvalidRequest e),
           failed (InvalidRequest e) (handler_vars_zero
             \<lparr>hv_reqModel := eq_Model (bind_partial embedding_request_fields embedding_request_zero (in_body inb))\<rparr>), w)
      | Inr req \<Rightarrow>
          let requestedModel = trim_space (eq_Model req);
              req = (if eq_Model req = '''' then req\<lparr>eq_Model := defaultEmbeddingModel\<rparr> else req);
              v = handler_vars_zero\<lparr>hv_requestedModel := requestedModel, hv_reqModel := eq_Model req\<rparr>
          in case gw_worker g of
               None \<Rightarrow>
                 let e = ServiceUnavailable ''embedding worker is not configured'' in (emb_failure e, failed e v, w)
             | Some _ \<Rightarrow>
                 (case Generate (ev_http env) (ev_worker_err env) (gw_worker g)
                         \<lparr>wq_Input = eq_Input req, wq_Model = eq_Model req\<rparr> w of
                    (Inl (Some err), w) \<Rightarrow>
                      let e = mapEmbeddingWorkerError (Some err) in (emb_failure e, failed e v, w)
                  | (Inl None, w) \<Rightarrow> ((500, EmbPanic), v, w)
                  | (Inr resp, w) \<Rightarrow>
                      ((200, EmbJSON (toEmbeddingResponse resp)),
                       v\<lparr>hv_statusCode := 200, hv_routedModel := wr_Model resp,
                         hv_totalTokens := wu_TotalTokens (wr_Usage resp)\<rparr>, w)))"

definition EmbeddingHandler ::
  "'w gateway_env \<Rightarrow> inbound \<Rightarrow> 'w gateway \<Rightarrow> 'w \<Rightarrow> embedding_reply \<times> 'w gateway \<times> 'w" where
  "EmbeddingHandler env inb g w =
     (let (startedAt, w) = sys_now (ev_sys env) w;
          (reply, v, w) = embedding_serve env inb g w;
          (g, w) = embedding_finish env inb v startedAt g w
      in (reply, g, w))"

section \<open>What every request leaves behind\<close>

lemma mapEmbeddingWorkerError_table:
  "let g = mapEmbeddingWorkerError (Some e); c = we_StatusCode e in
   HTTPStatus g = (if c \<in> {400, 401, 403, 429, 502, 503} then c else 500) \<and>
   ge_Message g = (if we_Message e = '''' then ''upstream embedding provider error'' else we_Message e)"
  by (simp add: mapEmbeddingWorkerError_def Let_def)

definition emb_match :: "embedding_reply \<Rightarrow> handler_vars \<Rightarrow> bool" where
  "emb_match reply v \<longleftrightarrow> \<not> hv_cacheHit v \<and>
     (case snd reply of
        EmbJSON r \<Rightarrow> fst reply = 200 \<and> hv_statusCode v = 200 \<and> hv_errorCode v = '''' \<and>
          hv_routedModel v = er_Model r \<and> hv_totalTokens v = hu_TotalTokens (er_Usage r)
      | EmbError e \<Rightarrow> fst reply = HTTPStatus (er_Error e) \<and> hv_statusCode v = fst reply \<and>
          hv_errorCode v = code_text (ge_Code (er_Error e)) \<and> hv_totalTokens v = 0
      | EmbPanic \<Rightarrow> fst reply = 500 \<and> hv_statusCode v = 200)"

lemma emb_match_failure: "fresh_vars v \<Longrightarrow> emb_match (emb_failure e) (failed e v)"
  by (auto simp: emb_match_def emb_failure_def error_JSON_def ToErrorResponse_def failed_def dest: fresh_varsD)

lemma embedding_serve_match:
  assumes "embedding_serve env inb g w = (reply, v, w')"
  shows "emb_match reply v"
proof (cases "bind_json dec_embedding_request embedding_request_zero (ev_bind_err env) (in_body inb)")
  case (Inl e)
  then show ?thesis using assms by (auto simp: embedding_serve_def intro: emb_match_failure)
next
  case (Inr req)
  note fresh = fresh_vars_init(2)
  note zero = fresh_varsD [OF fresh]
  show ?thesis
    using assms Inr
    by (auto simp: embedding_serve_def Let_def emb_match_failure [OF fresh] emb_match_def [of "(500, EmbPanic)"]
        emb_match_def [of "(200, EmbJSON r)" for r] toEmbeddingResponse_def zero
        split: option.splits prod.splits sum.splits)
qed

lemma emb_match_status: "emb_match reply v \<Longrightarrow> hv_statusCode v \<noteq> 0"
  using HTTPStatus_range [of "case snd reply of EmbError e \<Rightarrow> er_Error e"]
  by (auto simp: emb_match_def split: embedding_body.splits)

lemma embedding_endpoint_trim: "trim_space embedding_endpoint = embedding_endpoint" "embedding_endpoint \<noteq> ''''"
  by (simp add: embedding_endpoint_def, code_simp) (simp add: embedding_endpoint_def)

lemma if_not_nonempty: "(if \<not> P then a else b) = (if P then b else a)"
  by simp

lemma embedding_finish_accounted:
  assumes "hv_statusCode v \<noteq> 0"
  shows "\<exists>m. accounted embedding_endpoint v (routedModelOrRequest (hv_routedModel v) m) g
    (fst (embedding_finish env inb v startedAt g w))"
proof -
  let ?v = "v\<lparr>hv_upstreamProvider := ''embedding_worker''\<rparr>"
  have "accounted e ?v routed g g' = accounted e v routed g g'" for e routed g' by (simp add: accounted_def)
  moreover have "hv_statusCode ?v \<noteq> 0" using assms by simp
  note acc = account_accounted [OF embedding_endpoint_trim this]
  moreover have "\<exists>m rm. embedding_finish env inb v startedAt g w =
      account env embedding_endpoint inb rm (routedModelOrRequest (hv_routedModel v) m) ?v startedAt g w"
    unfolding embedding_finish_def Let_def routedModelOrRequest_def if_not_nonempty by (intro exI) (rule refl)
  ultimately show ?thesis by metis
qed

lemma embedding_accounts:
  assumes "EmbeddingHandler env inb g w = (reply, g', w')"
  shows "\<exists>v n. emb_match reply v \<and>
    accounted embedding_endpoint v (routedModelOrRequest (hv_routedModel v) n) g g'"
proof -
  obtain t w1 where t: "sys_now (ev_sys env) w = (t, w1)" by fastforce
  obtain rep v w2 where serve: "embedding_serve env inb g w1 = (rep, v, w2)" by (metis prod_cases3)
  obtain g2 w3 where fin: "embedding_finish env inb v t g w2 = (g2, w3)" by fastforce
  note match = embedding_serve_match [OF serve]
  have "rep = reply" "g2 = g'" using assms t serve fin by (simp_all add: EmbeddingHandler_def)
  moreover obtain n where "accounted embedding_endpoint v (routedModelOrRequest (hv_routedModel v) n) g g2"
    using embedding_finish_accounted [OF emb_match_status [OF match], of g env inb t w2] fin by auto
  ultimately show ?thesis using match by blast
qed

definition embedding_recorded :: "embedding_reply \<Rightarrow> int" where
  "embedding_recorded reply = (case snd reply of EmbPanic \<Rightarrow> 200 | _ \<Rightarrow> fst reply)"

interpretation embedding_api:
  accounted_endpoint "EmbeddingHandler env" gw_usage gw_tracer "\<lambda>r. Some (embedding_recorded r)" "{embedding_endpoint}" for env
proof unfold_locales
  fix i g w r g' w' status
  assume "EmbeddingHandler env i g w = (r, g', w')"
    and status: "Some (embedding_recorded r) = Some status"
  from embedding_accounts [OF this(1)] obtain v n where match: "emb_match r v" and
    acc: "accounted embedding_endpoint v (routedModelOrRequest (hv_routedModel v) n) g g'"
    by blast
  have "hv_statusCode v = status"
    using match by (auto simp: emb_match_def embedding_recorded_def status [symmetric, simplified] split: embedding_body.splits)
  then show "\<exists>now m tr. gw_usage g' = stats_Record (gw_usage g) now m \<and> gw_tracer g' = updateSummary tr (gw_tracer g) \<and>
      rm_Endpoint m \<in> {embedding_endpoint} \<and> wt_Endpoint tr = rm_Endpoint m \<and>
      rm_StatusCode m = status \<and> wt_StatusCode tr = status"
    using acc unfolding accounted_def by (elim exE) (intro exI, auto)
qed simp

end
