(* ===== verification/RateLimit.thy ===== *)
theory RateLimit
  imports Config GatewayErrors GoTime Json "HOL-Library.Sublist"
begin

text \<open>
  \<open>internal/middleware/ratelimit.go\<close>: the in-memory token bucket on \<open>float64\<close>, the
  fixed-window counter on Redis, and the middleware that applies a bucket per model and a
  global one.  A bucket's \<open>Allow\<close> runs under its mutex, so concurrent requests are a
  sequence of calls; the clock reading of each call is an argument.
\<close>

section \<open>The token bucket\<close>

record rate_limiter =
  tb_tokens :: f64
  tb_maxTokens :: f64
  tb_refillRate :: f64
  tb_lastRefill :: time

definition NewRateLimiter :: "int \<Rightarrow> int \<Rightarrow> time \<Rightarrow> rate_limiter" where
  "NewRateLimiter qps burst now =
     \<lparr>tb_tokens = f64_of_int burst, tb_maxTokens = f64_of_int burst,
      tb_refillRate = f64_of_int qps, tb_lastRefill = now\<rparr>"

definition refill :: "rate_limiter \<Rightarrow> time \<Rightarrow> f64" where
  "refill r now =
     (let elapsed = duration_seconds (time_sub now (tb_lastRefill r));
          tokens = tb_tokens r + elapsed * tb_refillRate r
      in if tb_maxTokens r < tokens then tb_maxTokens r else tokens)"

definition rl_Allow :: "rate_limiter \<Rightarrow> time \<Rightarrow> bool \<times> rate_limiter" where
  "rl_Allow r now =
     (let tokens = refill r now;
          r = r\<lparr>tb_tokens := tokens, tb_lastRefill := now\<rparr>
      in if 1 \<le> tokens then (True, r\<lparr>tb_tokens := tokens - 1\<rparr>) else (False, r))"

section \<open>The Redis counter\<close>

text \<open>
  The client is outside the repository: \<open>incr\<close> and \<open>expire\<close> are the two commands on the
  outside world, a Go \<open>error\<close> being its text.
\<close>

record redis_rate_limiter =
  rrl_key :: string
  rrl_limit :: int
  rrl_window :: duration

definition NewRedisRateLimiter :: "string \<Rightarrow> int \<Rightarrow> duration \<Rightarrow> redis_rate_limiter" where
  "NewRedisRateLimiter key limit window = \<lparr>rrl_key = key, rrl_limit = limit, rrl_window = window\<rparr>"

definition rrl_Allow ::
  "(string \<Rightarrow> 'w \<Rightarrow> (string + int) \<times> 'w) \<Rightarrow> (string \<Rightarrow> duration \<Rightarrow> 'w \<Rightarrow> 'w) \<Rightarrow> redis_rate_limiter
    \<Rightarrow> 'w \<Rightarrow> (string + bool) \<times> 'w" where
  "rrl_Allow incr expire r w =
     (case incr (rrl_key r) w of
        (Inl err, w) \<Rightarrow> (Inl err, w)
      | (Inr n, w) \<Rightarrow>
          let w = (if n = 1 then expire (rrl_key r) (rrl_window r) w else w)
          in (Inr (n \<le> rrl_limit r), w))"

section \<open>The model of a request\<close>

text \<open>
  What the middleware reads of a gin context.  \<open>Query\<close> and \<open>PostForm\<close> give the values
  gin parsed (the empty string when absent); the body is None when the request has none,
  and reading it may fail.  Parsing a form reads the body of a request whose content type is
  that of a form: \<open>gr_AfterForm\<close> is what it leaves, the body itself for any other type.
\<close>

record gin_request =
  gr_Query :: "string \<Rightarrow> string"
  gr_PostForm :: "string \<Rightarrow> string"
  gr_ContentType :: string
  gr_Body :: "(string + string) option"
  gr_AfterForm :: "(string + string) option"

definition dec_model_payload :: "string dec" where
  "dec_model_payload = dec_struct [(''model'', dec_string)]"

definition extractModelFromRequest :: "gin_request \<Rightarrow> string" where
  "extractModelFromRequest c =
     (let queryModel = trim_space (gr_Query c ''model'');
          formModel = trim_space (gr_PostForm c ''model'')
      in if queryModel \<noteq> '''' then queryModel
         else if formModel \<noteq> '''' then formModel
         else
           (case gr_AfterForm c of
              None \<Rightarrow> ''''
            | Some b \<Rightarrow>
                if \<not> contains (to_lower (gr_ContentType c)) ''application/json'' then ''''
                else
                  (case b of
                     Inl err \<Rightarrow> ''''
                   | Inr body \<Rightarrow>
                       (case Option.bind (json_parse body) (\<lambda>j. dec_model_payload j '''') of
                          None \<Rightarrow> ''''
                        | Some m \<Rightarrow> trim_space m))))"

text \<open>
  The body that the handler finds behind the middleware: the form is parsed unless the query
  names a model, and a body that was read as JSON is put back.
\<close>

definition body_left :: "gin_request \<Rightarrow> (string + string) option" where
  "body_left c = (if trim_space (gr_Query c ''model'') \<noteq> '''' then gr_Body c else gr_AfterForm c)"

section \<open>The middleware\<close>

record limiters =
  ls_global :: rate_limiter
  ls_models :: "string \<rightharpoonup> rate_limiter"

text \<open>
  The buckets are made at start-up, each with its own clock reading: \<open>made None\<close> for the
  global one and \<open>made (Some m)\<close> for the bucket of model \<open>m\<close>.
\<close>

definition new_limiters :: "ratelimit_config \<Rightarrow> (string option \<Rightarrow> time) \<Rightarrow> limiters" where
  "new_limiters cfg made =
     \<lparr>ls_global = NewRateLimiter (rl_GlobalQPS cfg) (rl_Burst cfg) (made None),
      ls_models = (\<lambda>m. case rl_ModelLimits cfg m of
          None \<Rightarrow> None
        | Some limit \<Rightarrow> if limit \<le> 0 then None else Some (NewRateLimiter limit limit (made (Some m))))\<rparr>"

text \<open>
  The handler for one request: pass on (None) or the response of the rejection, its headers
  and its error.  \<open>t1\<close> and \<open>t2\<close> are the clock readings of the two buckets.
\<close>

definition too_many :: "string \<Rightarrow> (string \<times> string) list \<times> gateway_error" where
  "too_many msg = ([(''Retry-After'', itoa 1)], RateLimitExceeded msg)"

definition RateLimit ::
  "limiters \<Rightarrow> gin_request \<Rightarrow> time \<Rightarrow> time \<Rightarrow> ((string \<times> string) list \<times> gateway_error) option \<times> limiters" where
  "RateLimit ls c t1 t2 =
     (let model = extractModelFromRequest c;
          model = (if model = '''' then ''default'' else model);
          (rejected, ls) =
            (case ls_models ls model of
               None \<Rightarrow> (False, ls)
             | Some limiter \<Rightarrow>
                 let (ok, limiter) = rl_Allow limiter t1
                 in (\<not> ok, ls\<lparr>ls_models := (ls_models ls)(model \<mapsto> limiter)\<rparr>))
      in if rejected then (Some (too_many (''Rate limit exceeded for model '' @ model)), ls)
         else
           let (ok, global) = rl_Allow (ls_global ls) t2;
               ls = ls\<lparr>ls_global := global\<rparr>
           in if \<not> ok then (Some (too_many ''Rate limit exceeded''), ls) else (None, ls))"

section \<open>The bucket: bounds\<close>

text \<open>A run of calls, one for each clock reading, with the number admitted.\<close>

fun rl_run :: "rate_limiter \<Rightarrow> time list \<Rightarrow> nat \<times> rate_limiter" where
  "rl_run r [] = (0, r)"
| "rl_run r (t # ts) =
     (case rl_Allow r t of (ok, r) \<Rightarrow>
        case rl_run r ts of (n, r) \<Rightarrow> (if ok then Suc n else n, r))"

text \<open>The seconds between two readings, as an exact number.\<close>

definition secs :: "duration \<Rightarrow> rat" where
  "secs d = of_int d / of_int second"

lemma secs_add: "secs (a + b) = secs a + secs b"
  by (simp add: secs_def add_divide_distrib)

lemma secs_mono: "a \<le> b \<Longrightarrow> secs a \<le> secs b"
  by (simp add: secs_def divide_right_mono)

lemma secs_nonneg: "0 \<le> d \<Longrightarrow> 0 \<le> secs d"
  by (simp add: secs_def)

text \<open>
  A bucket of capacity \<open>B\<close> and rate \<open>q\<close>, both whole numbers of at most 31 bits, that holds
  \<open>x\<close> tokens.
\<close>

definition bucket :: "int \<Rightarrow> int \<Rightarrow> rat \<Rightarrow> rate_limiter \<Rightarrow> bool" where
  "bucket B q x r \<longleftrightarrow> 1 \<le> B \<and> B \<le> 2 ^ 31 \<and> 0 \<le> q \<and> q \<le> 2 ^ 31 \<and> 0 \<le> x \<and> x \<le> of_int B \<and>
     tb_tokens r = Fin x \<and> tb_maxTokens r = Fin (of_int B) \<and> tb_refillRate r = Fin (of_int q)"

lemma duration_seconds_bounds:
  assumes "0 \<le> d" and "d < 2 ^ 63"
  shows "\<exists>s. duration_seconds d = Fin s \<and> 0 \<le> s \<and> s \<le> secs d * (1 + eps) ^ 2 \<and> s \<le> 2 ^ 35 \<and>
    (s = 0 \<or> 1 / 2 ^ 33 \<le> s) \<and> (second \<le> d \<longrightarrow> 1 \<le> s)"
proof -
  define a n where an: "a = d div second" "n = d mod second"
  have d: "d = a * second + n" and n: "0 \<le> n" "n < second" unfolding an by simp_all
  have "0 \<le> a" using assms(1) by (simp add: an pos_imp_zdiv_nonneg_iff)
  moreover have "a * second < 2 ^ 63" using d n assms(2) by linarith
  ultimately have a: "0 \<le> a" "a < 2 ^ 34" by simp_all
  have "sgn d * (\<bar>d\<bar> div second) = a" using assms(1) by (auto simp: an sgn_if)
  then have ds: "duration_seconds d = f64_of_int a + f64_of_int n / f64_of_int 1000000000"
    using d by (simp add: duration_seconds_def Let_def)
  let ?f = "of_int n / of_int second :: rat"
  have f: "0 \<le> ?f" "?f \<le> 1" "?f = 0 \<or> 1 / 2 ^ 30 \<le> ?f"
    using n by (auto simp: field_simps)
  then have f34: "?f \<le> 2 ^ 100" "?f = 0 \<or> 1 / 2 ^ 34 \<le> ?f" by auto
  obtain y where y: "rnd (of_int n / of_int second) = Fin y" "0 \<le> y"
    "of_int n / of_int second * (1 - eps) \<le> y" "y \<le> of_int n / of_int second * (1 + eps)"
    using rnd_relative [OF f(1) f34(2,1)] by blast
  have y1: "y \<le> 2" "y = 0 \<or> 1 / 2 ^ 31 \<le> y"
    using y(3,4) f by auto
  have a': "0 \<le> (of_int a :: rat)" "(of_int a :: rat) \<le> 2 ^ 34" "(of_int a :: rat) = 0 \<or> 1 \<le> (of_int a :: rat)"
    using a by auto
  have "0 \<le> of_int a + y" "of_int a + y = 0 \<or> 1 / 2 ^ 34 \<le> of_int a + y" "of_int a + y \<le> 2 ^ 100"
    using y(2) y1 a' by auto
  then obtain s where s: "rnd (of_int a + y) = Fin s" "0 \<le> s" "(of_int a + y) * (1 - eps) \<le> s"
    "s \<le> (of_int a + y) * (1 + eps)"
    using rnd_relative [of "of_int a + y"] by blast
  have "(of_int a + y) * (1 + eps) \<le> (of_int a + ?f) * (1 + eps) * (1 + eps)"
    using y(4) a'(1) by (intro mult_right_mono) (simp_all add: algebra_simps)
  also have "of_int a + ?f = secs d" by (simp add: secs_def d add_divide_distrib)
  finally have up: "s \<le> secs d * (1 + eps) ^ 2" using s(4) by (simp add: power2_eq_square mult.assoc)
  have "s \<le> 2 ^ 35" using s(4) a'(2) y1(1) by simp
  moreover have "s = 0 \<or> 1 / 2 ^ 33 \<le> s" using s(1,3,4) y(2) y1(2) a'(1,3) by auto
  moreover have "1 \<le> s" if "second \<le> d"
  proof -
    have "1 \<le> a" using that n d by linarith
    then have "rnd (of_int 1) \<le> rnd (of_int a + y)" using y(2) by (intro rnd_mono) simp
    then show ?thesis using s(1) rnd_of_int [of 1] by simp
  qed
  moreover have "duration_seconds d = Fin s"
    using a n y(1) s(1) by (simp add: ds f64_of_int_small)
  ultimately show ?thesis using s(2) up by blast
qed

text \<open>What one call credits: elapsed seconds times the rate, rounded.\<close>

lemma credit_bounds:
  assumes "0 \<le> d" and "d < 2 ^ 63" and "0 \<le> q" and "q \<le> 2 ^ 31"
  shows "\<exists>k. duration_seconds d * Fin (of_int q) = Fin k \<and> 0 \<le> k \<and>
    k \<le> of_int q * secs d * (1 + 4 * eps) \<and> (second \<le> d \<and> 1 \<le> q \<longrightarrow> 1 \<le> k)"
proof -
  obtain s where s: "duration_seconds d = Fin s" "0 \<le> s" "s \<le> secs d * (1 + eps) ^ 2" "s \<le> 2 ^ 35"
    "s = 0 \<or> 1 / 2 ^ 33 \<le> s" "second \<le> d \<Longrightarrow> 1 \<le> s"
    using duration_seconds_bounds [OF assms(1,2)] by blast
  have q: "0 \<le> (of_int q :: rat)" "(of_int q :: rat) = 0 \<or> 1 \<le> (of_int q :: rat)" "(of_int q :: rat) \<le> 2 ^ 31"
    using assms(3,4) by auto
  have "s * of_int q \<le> 2 ^ 35 * 2 ^ 31" using s(2,4) q(1,3) by (intro mult_mono) auto
  then have "s * of_int q \<le> 2 ^ 100" by simp
  moreover have "s * of_int q = 0 \<or> 1 / 2 ^ 34 \<le> s * of_int q"
  proof (cases "s = 0 \<or> q = 0")
    case False
    then have "1 / 2 ^ 33 * 1 \<le> s * of_int q" using s(2,5) q(1,2) by (intro mult_mono) auto
    then show ?thesis by simp
  qed auto
  ultimately obtain k where k: "rnd (s * of_int q) = Fin k" "0 \<le> k" "k \<le> s * of_int q * (1 + eps)"
    using rnd_relative [of "s * of_int q"] s(2) q(1) by auto
  have "s * of_int q * (1 + eps) \<le> (secs d * (1 + eps) ^ 2) * of_int q * (1 + eps)"
    using s(3) q(1) by (intro mult_right_mono) auto
  also have "\<dots> = of_int q * secs d * (1 + eps) ^ 3"
    by (simp add: power2_eq_square power3_eq_cube mult.commute mult.left_commute)
  also have "\<dots> \<le> of_int q * secs d * (1 + 4 * eps)"
    using q(1) secs_nonneg [OF assms(1)] by (intro mult_left_mono) (simp_all add: power3_eq_cube)
  finally have up: "k \<le> of_int q * secs d * (1 + 4 * eps)" using k(3) by linarith
  have "1 \<le> k" if "second \<le> d" "1 \<le> q"
  proof -
    have "1 * 1 \<le> s * of_int q" using s(6) that by (intro mult_mono) auto
    then have "rnd (of_int 1) \<le> rnd (s * of_int q)" by (intro rnd_mono) simp
    then show ?thesis using k(1) rnd_of_int [of 1] by simp
  qed
  then show ?thesis using s(1) k(1,2) up by auto
qed

lemma refill_bounds:
  assumes "bucket B q x r" and "0 \<le> d" and "d < 2 ^ 63" and "time_sub now (tb_lastRefill r) = d"
  shows "\<exists>y. refill r now = Fin y \<and> 0 \<le> y \<and> y \<le> of_int B \<and>
    y \<le> x + of_int q * secs d * (1 + 4 * eps) + of_int B * eps \<and>
    (\<forall>n \<le> B. of_int n \<le> x \<longrightarrow> of_int n \<le> y) \<and> (second \<le> d \<and> 1 \<le> q \<longrightarrow> 1 \<le> y)"
proof -
  note b = assms(1) [unfolded bucket_def]
  have q: "0 \<le> q" "q \<le> 2 ^ 31" and B: "1 \<le> B" "\<bar>B\<bar> \<le> 2 ^ 53" and x: "0 \<le> x" "x \<le> of_int B"
    using b by auto
  obtain k where k: "duration_seconds d * Fin (of_int q) = Fin k" "0 \<le> k"
    "k \<le> of_int q * secs d * (1 + 4 * eps)" "second \<le> d \<and> 1 \<le> q \<longrightarrow> 1 \<le> k"
    using credit_bounds [OF assms(2,3) q] by blast
  have r: "refill r now = (if Fin (of_int B) < rnd (x + k) then Fin (of_int B) else rnd (x + k))"
    using b k(1) by (simp add: refill_def assms(4) Let_def)
  have mono: "rnd (of_int n) \<le> rnd (x + k)" if "of_int n \<le> x" for n
    using that k(2) by (intro rnd_mono) simp
  show ?thesis
  proof (cases "x + k \<le> of_int B")
    case True
    then obtain y where y: "rnd (x + k) = Fin y" "0 \<le> y" "y \<le> of_int B"
      using rnd_between [of 0 "x + k" B] x(1) k(2) B(2) by auto
    have yr: "y = round_rat (x + k)" using y(1) rnd_cases [of "x + k"] by auto
    have "y \<le> x + k + of_int B * eps"
      using round_rat_error_below [of "x + k" "of_int B"] x(1) k(2) True B(1) by (simp add: yr)
    moreover have "of_int n \<le> y" if "n \<le> B" "of_int n \<le> x" for n
    proof (cases "0 \<le> n")
      case True
      then have "\<bar>n\<bar> \<le> 2 ^ 53" using that(1) B by linarith
      then show ?thesis using mono [OF that(2)] y(1) rnd_of_int by simp
    next
      case False
      then have "(of_int n :: rat) \<le> 0" by simp
      then show ?thesis using y(2) by linarith
    qed
    moreover have "1 \<le> y" if "second \<le> d \<and> 1 \<le> q"
    proof -
      have "rnd (of_int 1) \<le> rnd (x + k)" using k(4) that x(1) by (intro rnd_mono) auto
      then show ?thesis using y(1) rnd_of_int [of 1] by simp
    qed
    ultimately show ?thesis using r y k(3) by auto
  next
    case False
    have "Fin (of_int B) \<le> rnd (x + k)"
      using rnd_mono [of "of_int B" "x + k"] False rnd_of_int [OF B(2)] by simp
    then have "refill r now = Fin (of_int B)"
      unfolding r by (cases "rnd (x + k)") auto
    moreover have "0 \<le> of_int B * eps" using B(1) by simp
    then have "of_int B \<le> x + of_int q * secs d * (1 + 4 * eps) + of_int B * eps"
      using False k(3) by linarith
    moreover have "0 \<le> (of_int B :: rat)" "1 \<le> (of_int B :: rat)" using B(1) by simp_all
    ultimately show ?thesis by auto
  qed
qed

lemma bucket_step:
  assumes "bucket B q x r" and "0 \<le> d" and "d < 2 ^ 63" and "time_sub now (tb_lastRefill r) = d"
    and "rl_Allow r now = (ok, r')"
  shows "\<exists>x'. bucket B q x' r' \<and> tb_lastRefill r' = now \<and>
    x' + (if ok then 1 else 0) \<le> x + of_int q * secs d * (1 + 4 * eps) + 2 * of_int B * eps \<and>
    (\<forall>n \<le> B. 0 \<le> n \<and> of_int (n + 1) \<le> x \<longrightarrow> ok \<and> of_int n \<le> x') \<and>
    (second \<le> d \<and> 1 \<le> q \<longrightarrow> ok)"
proof -
  note b = assms(1) [unfolded bucket_def]
  have B: "1 \<le> B" "B \<le> 2 ^ 31" using b by auto
  obtain y where y: "refill r now = Fin y" "0 \<le> y" "y \<le> of_int B"
    "y \<le> x + of_int q * secs d * (1 + 4 * eps) + of_int B * eps"
    "\<And>n. n \<le> B \<Longrightarrow> of_int n \<le> x \<Longrightarrow> of_int n \<le> y" "second \<le> d \<and> 1 \<le> q \<Longrightarrow> 1 \<le> y"
    using refill_bounds [OF assms(1-4)] by blast
  show ?thesis
  proof (cases "1 \<le> y")
    case True
    have "of_int 0 \<le> y - 1" "y - 1 \<le> of_int B" using True y(3) by simp_all
    then obtain z where z: "rnd (y - 1) = Fin z" "0 \<le> z" "z \<le> of_int B"
      using rnd_between [of 0 "y - 1" B] B by auto
    have "z = round_rat (y - 1)" using z(1) rnd_cases [of "y - 1"] by auto
    then have zup: "z \<le> y - 1 + of_int B * eps"
      using round_rat_error_below [of "y - 1" "of_int B"] True y(3) B(1) by simp
    have low: "of_int n \<le> z" if "n \<le> B" "0 \<le> n" "of_int (n + 1) \<le> x" for n
    proof -
      have "n + 1 \<le> B" using that(3) b by (metis of_int_le_iff order_trans)
      then have "of_int (n + 1) \<le> y" using y(5) that(3) by blast
      then have "rnd (of_int n) \<le> rnd (y - 1)" by (intro rnd_mono) simp
      then show ?thesis using z(1) rnd_of_int [of n] that(1,2) B by simp
    qed
    have r': "ok" "r' = r\<lparr>tb_tokens := Fin z, tb_lastRefill := now\<rparr>"
      using assms(5) True y(1) z(1) by (auto simp: rl_Allow_def one_f64_def minus_f64_def)
    show ?thesis using z r' b zup y(4) low True
      by (intro exI [of _ z]) (auto simp: bucket_def)
  next
    case False
    have r': "\<not> ok" "r' = r\<lparr>tb_tokens := Fin y, tb_lastRefill := now\<rparr>"
      using assms(5) False y(1) by (auto simp: rl_Allow_def one_f64_def)
    have "\<not> of_int (n + 1) \<le> x" if "n \<le> B" "0 \<le> n" for n
    proof -
      have "\<not> 1 \<le> x" using y(5) [of 1] False B by auto
      moreover have "0 \<le> (of_int n :: rat)" using that(2) by simp
      ultimately show ?thesis by auto
    qed
    then show ?thesis using r' b y False B
      by (intro exI [of _ y]) (auto simp: bucket_def)
  qed
qed

section \<open>Runs of the bucket\<close>

lemma rl_run_bound:
  assumes "bucket B q x r" and "sorted (tb_lastRefill r # ts)"
    and "last (tb_lastRefill r # ts) - tb_lastRefill r < 2 ^ 63" and "rl_run r ts = (n, r')"
  shows "of_nat n \<le> x + of_int q * secs (last (tb_lastRefill r # ts) - tb_lastRefill r) * (1 + 4 * eps)
    + of_nat (length ts) * (2 * of_int B * eps)"
  using assms
proof (induction ts arbitrary: r x n)
  case Nil
  then show ?case by (simp add: bucket_def secs_def)
next
  case (Cons t ts)
  obtain ok r1 where step: "rl_Allow r t = (ok, r1)" by fastforce
  obtain n1 where run: "rl_run r1 ts = (n1, r')" "n = (if ok then Suc n1 else n1)"
    using Cons.prems(4) step by (auto split: prod.splits)
  define d where "d = t - tb_lastRefill r"
  have last: "t \<le> last (t # ts)" using Cons.prems(2) by (cases ts rule: rev_cases) (auto simp: sorted_append)
  have d: "0 \<le> d" "d < 2 ^ 63" using Cons.prems(2,3) last by (auto simp: d_def)
  then have sub: "time_sub t (tb_lastRefill r) = d" by (simp add: d_def time_sub_def)
  obtain x1 where x1: "bucket B q x1 r1" "tb_lastRefill r1 = t"
    "x1 + (if ok then 1 else 0) \<le> x + of_int q * secs d * (1 + 4 * eps) + 2 * of_int B * eps"
    using bucket_step [OF Cons.prems(1) d sub step] by blast
  let ?T = "last (t # ts) - t"
  have "of_nat n1 \<le> x1 + of_int q * secs ?T * (1 + 4 * eps) + of_nat (length ts) * (2 * of_int B * eps)"
    using Cons.IH [OF x1(1) _ _ run(1)] Cons.prems(2,3) d(1) unfolding x1(2) by (simp add: d_def)
  moreover obtain E e :: rat where E: "E = 1 + 4 * eps" "e = 2 * of_int B * eps" by blast
  have "last (tb_lastRefill r # t # ts) - tb_lastRefill r = ?T + d" by (simp add: d_def)
  then have "of_int q * secs (last (tb_lastRefill r # t # ts) - tb_lastRefill r) * E =
      of_int q * secs ?T * E + of_int q * secs d * E"
    by (simp only: secs_add distrib_left distrib_right)
  moreover have "of_nat (length (t # ts)) * e = of_nat (length ts) * e + e"
    by (simp add: distrib_right)
  moreover have "(of_nat n :: rat) = of_nat n1 + (if ok then 1 else 0)" using run(2) by simp
  ultimately show ?case using x1(3) unfolding E [symmetric] by linarith
qed

lemma rl_run_burst:
  assumes "bucket B q x r" and "sorted (tb_lastRefill r # ts)"
    and "last (tb_lastRefill r # ts) - tb_lastRefill r < 2 ^ 63"
    and "int (length ts) \<le> B" and "of_int (int (length ts)) \<le> x"
  shows "fst (rl_run r ts) = length ts"
  using assms
proof (induction ts arbitrary: r x)
  case (Cons t ts)
  obtain ok r1 where step: "rl_Allow r t = (ok, r1)" by fastforce
  define d where "d = t - tb_lastRefill r"
  have last: "t \<le> last (t # ts)" using Cons.prems(2) by (cases ts rule: rev_cases) (auto simp: sorted_append)
  have d: "0 \<le> d" "d < 2 ^ 63" using Cons.prems(2,3) last by (auto simp: d_def)
  then have sub: "time_sub t (tb_lastRefill r) = d" by (simp add: d_def time_sub_def)
  obtain x1 where x1: "bucket B q x1 r1" "tb_lastRefill r1 = t"
    "\<forall>n \<le> B. 0 \<le> n \<and> of_int (n + 1) \<le> x \<longrightarrow> ok \<and> of_int n \<le> x1"
    using bucket_step [OF Cons.prems(1) d sub step] by blast
  have "ok \<and> of_int (int (length ts)) \<le> x1"
    using x1(3) [rule_format, of "int (length ts)"] Cons.prems(4,5) by simp
  then show ?case
    using Cons.IH [OF x1(1)] Cons.prems(2-4) d(1) step unfolding x1(2)
    by (simp add: d_def case_prod_beta)
qed simp

lemma bucket_new:
  assumes "1 \<le> burst" and "burst \<le> 2 ^ 31" and "0 \<le> qps" and "qps \<le> 2 ^ 31"
  shows "bucket burst qps (of_int burst) (NewRateLimiter qps burst now)"
  using assms by (simp add: bucket_def NewRateLimiter_def f64_of_int_small)

section \<open>Runs of the middleware\<close>

text \<open>
  Requests with their clock readings, one after the other; the result lists for each request
  whether it was passed on.
\<close>

fun mw_run :: "limiters \<Rightarrow> (gin_request \<times> time \<times> time) list \<Rightarrow> bool list" where
  "mw_run ls [] = []"
| "mw_run ls ((c, t1, t2) # reqs) =
     (case RateLimit ls c t1 t2 of (out, ls) \<Rightarrow> (out = None) # mw_run ls reqs)"

definition request_model :: "gin_request \<Rightarrow> string" where
  "request_model c = (let m = extractModelFromRequest c in if m = '''' then ''default'' else m)"

lemma RateLimit_cases:
  assumes "RateLimit ls c t1 t2 = (out, ls')"
  shows "ls_models ls' = (case ls_models ls (request_model c) of None \<Rightarrow> ls_models ls
      | Some b \<Rightarrow> (ls_models ls)(request_model c \<mapsto> snd (rl_Allow b t1)))"
    and "(case ls_models ls (request_model c) of None \<Rightarrow> True | Some b \<Rightarrow> fst (rl_Allow b t1)) \<Longrightarrow>
      ls_global ls' = snd (rl_Allow (ls_global ls) t2) \<and> (out = None \<longleftrightarrow> fst (rl_Allow (ls_global ls) t2))"
    and "\<not> (case ls_models ls (request_model c) of None \<Rightarrow> True | Some b \<Rightarrow> fst (rl_Allow b t1)) \<Longrightarrow>
      ls_global ls' = ls_global ls \<and> out \<noteq> None"
  using assms
  by (auto simp: RateLimit_def request_model_def Let_def split: option.splits prod.splits if_splits)

text \<open>
  A model in the query is the model of the request, whatever the body says: one without a bucket
  of its own takes the request past the limit of the model that the body asks for, and the handler
  still finds the body.
\<close>

lemma model_limit_evaded:
  assumes "trim_space (gr_Query c ''model'') = m" and "m \<noteq> ''''" and "ls_models ls m = None"
    and "RateLimit ls c t1 t2 = (out, ls')"
  shows "out = None \<longleftrightarrow> fst (rl_Allow (ls_global ls) t2)" "ls_models ls' = ls_models ls" "body_left c = gr_Body c"
proof -
  have "request_model c = m" using assms(1,2) by (simp add: request_model_def extractModelFromRequest_def)
  then show "out = None \<longleftrightarrow> fst (rl_Allow (ls_global ls) t2)" "ls_models ls' = ls_models ls" "body_left c = gr_Body c"
    using RateLimit_cases(1,2) [OF assms(4)] assms(1-3) by (simp_all add: body_left_def)
qed

lemma mw_run_global:
  "\<exists>ts. subseq ts (map (\<lambda>(c, t1, t2). t2) reqs) \<and>
    fst (rl_run (ls_global ls) ts) = length (filter (\<lambda>ok. ok) (mw_run ls reqs))"
proof (induction reqs arbitrary: ls)
  case (Cons req reqs)
  obtain c t1 t2 where req: "req = (c, t1, t2)" by (metis prod_cases3)
  obtain out ls' where step: "RateLimit ls c t1 t2 = (out, ls')" by fastforce
  obtain ts where ts: "subseq ts (map (\<lambda>(c, t1, t2). t2) reqs)"
    "fst (rl_run (ls_global ls') ts) = length (filter (\<lambda>ok. ok) (mw_run ls' reqs))"
    using Cons.IH by blast
  show ?case
  proof (cases "case ls_models ls (request_model c) of None \<Rightarrow> True | Some b \<Rightarrow> fst (rl_Allow b t1)")
    case True
    then have "fst (rl_run (ls_global ls) (t2 # ts)) = length (filter (\<lambda>ok. ok) (mw_run ls (req # reqs)))"
      using RateLimit_cases(2) [OF step] ts(2) step req by (auto split: prod.splits)
    then show ?thesis using ts(1) req by (intro exI [of _ "t2 # ts"]) auto
  next
    case False
    then have "fst (rl_run (ls_global ls) ts) = length (filter (\<lambda>ok. ok) (mw_run ls (req # reqs)))"
      using RateLimit_cases(3) [OF step] ts(2) step req by simp
    then show ?thesis using ts(1) req by (intro exI [of _ ts]) auto
  qed
qed (auto intro: exI [of _ "[]"])

text \<open>The requests of one model that were passed on, against the model's own bucket.\<close>

definition passed_for :: "string \<Rightarrow> limiters \<Rightarrow> (gin_request \<times> time \<times> time) list \<Rightarrow> nat" where
  "passed_for m ls reqs =
     length (filter (\<lambda>((c, t1, t2), ok). ok \<and> request_model c = m) (zip reqs (mw_run ls reqs)))"

lemma mw_run_model:
  "ls_models ls m = Some b \<Longrightarrow>
   \<exists>ts. subseq ts (map (\<lambda>(c, t1, t2). t1) reqs) \<and> passed_for m ls reqs \<le> fst (rl_run b ts)"
proof (induction reqs arbitrary: ls b)
  case Nil
  then show ?case by (auto simp: passed_for_def)
next
  case (Cons req reqs)
  obtain c t1 t2 where req: "req = (c, t1, t2)" by (metis prod_cases3)
  obtain out ls' where step: "RateLimit ls c t1 t2 = (out, ls')" by fastforce
  have p: "passed_for m ls (req # reqs) =
      (if out = None \<and> request_model c = m then 1 else 0) + passed_for m ls' reqs"
    by (simp add: passed_for_def req step)
  show ?case
  proof (cases "request_model c = m")
    case True
    then have b': "ls_models ls' m = Some (snd (rl_Allow b t1))"
      using RateLimit_cases(1) [OF step] Cons.prems by simp
    obtain ts where ts: "subseq ts (map (\<lambda>(c, t1, t2). t1) reqs)"
      "passed_for m ls' reqs \<le> fst (rl_run (snd (rl_Allow b t1)) ts)"
      using Cons.IH [OF b'] by blast
    have "out = None \<Longrightarrow> fst (rl_Allow b t1)"
      using RateLimit_cases(3) [OF step] Cons.prems True by auto
    then have "passed_for m ls (req # reqs) \<le> fst (rl_run b (t1 # ts))"
      using p ts(2) True by (auto split: prod.splits)
    then show ?thesis using ts(1) req by (intro exI [of _ "t1 # ts"]) auto
  next
    case False
    then have b': "ls_models ls' m = Some b"
      using RateLimit_cases(1) [OF step] Cons.prems by (auto split: option.splits)
    obtain ts where "subseq ts (map (\<lambda>(c, t1, t2). t1) reqs)" "passed_for m ls' reqs \<le> fst (rl_run b ts)"
      using Cons.IH [OF b'] by blast
    then show ?thesis using p False req by (intro exI [of _ ts]) auto
  qed
qed

text \<open>The bound for a subsequence of a sorted list of readings.\<close>

lemma subseq_subset: "subseq xs ys \<Longrightarrow> set xs \<subseteq> set ys"
  by (induction rule: list_emb.induct) auto

lemma sorted_subseq: "subseq xs ys \<Longrightarrow> sorted ys \<Longrightarrow> sorted xs"
  by (induction rule: list_emb.induct) (use subseq_subset in fastforce)+

lemma sorted_le_last: "sorted ys \<Longrightarrow> y \<in> set ys \<Longrightarrow> y \<le> last ys"
  by (induction ys rule: rev_induct) (auto simp: sorted_append)

lemma rl_run_bound_subseq:
  assumes "1 \<le> burst" and "burst \<le> 2 ^ 31" and "0 \<le> qps" and "qps \<le> 2 ^ 31"
    and "sorted (t0 # ts)" and "last (t0 # ts) - t0 < 2 ^ 63" and "subseq us ts"
  shows "of_nat (fst (rl_run (NewRateLimiter qps burst t0) us)) \<le>
    of_int burst + of_int qps * secs (last (t0 # ts) - t0) * (1 + 4 * eps) +
    of_nat (length ts) * (2 * of_int burst * eps)"
proof -
  let ?r = "NewRateLimiter qps burst t0"
  obtain n r' where run: "rl_run ?r us = (n, r')" by fastforce
  have t0: "tb_lastRefill ?r = t0" by (simp add: NewRateLimiter_def)
  have sub: "subseq (t0 # us) (t0 # ts)" using assms(7) by simp
  have su: "sorted (t0 # us)" using sorted_subseq [OF sub assms(5)] .
  have lu: "last (t0 # us) \<le> last (t0 # ts)"
  proof -
    have "last (t0 # us) \<in> set (t0 # ts)" using subseq_subset [OF sub] last_in_set [of "t0 # us"] by blast
    then show ?thesis using sorted_le_last [OF assms(5)] by blast
  qed
  have "of_nat n \<le> of_int burst + of_int qps * secs (last (t0 # us) - t0) * (1 + 4 * eps)
      + of_nat (length us) * (2 * of_int burst * eps)"
    using rl_run_bound [OF bucket_new [OF assms(1-4), of t0] _ _ run] su lu assms(6) unfolding t0 by simp
  moreover have "of_int qps * secs (last (t0 # us) - t0) * (1 + 4 * eps) \<le>
      of_int qps * secs (last (t0 # ts) - t0) * (1 + 4 * eps)"
    using assms(3) lu by (intro mult_right_mono mult_left_mono secs_mono) simp_all
  moreover have "of_nat (length us) * (2 * of_int burst * eps) \<le> of_nat (length ts) * (2 * of_int burst * eps)"
    using list_emb_length [OF assms(7)] assms(1) by (intro mult_right_mono) simp_all
  ultimately show ?thesis using run by simp
qed

lemma rl_run_bucket:
  assumes "bucket B q x r" and "sorted (tb_lastRefill r # ts)"
    and "last (tb_lastRefill r # ts) - tb_lastRefill r < 2 ^ 63"
  shows "\<exists>x'. bucket B q x' (snd (rl_run r ts)) \<and>
    tb_lastRefill (snd (rl_run r ts)) = last (tb_lastRefill r # ts)"
  using assms
proof (induction ts arbitrary: r x)
  case (Cons t ts)
  obtain ok r1 where step: "rl_Allow r t = (ok, r1)" by fastforce
  define d where "d = t - tb_lastRefill r"
  have last: "t \<le> last (t # ts)" using Cons.prems(2) by (cases ts rule: rev_cases) (auto simp: sorted_append)
  have d: "0 \<le> d" "d < 2 ^ 63" using Cons.prems(2,3) last by (auto simp: d_def)
  then have sub: "time_sub t (tb_lastRefill r) = d" by (simp add: d_def time_sub_def)
  obtain x1 where x1: "bucket B q x1 r1" "tb_lastRefill r1 = t"
    using bucket_step [OF Cons.prems(1) d sub step] by blast
  show ?case
    using Cons.IH [OF x1(1)] Cons.prems(2,3) d(1) step unfolding x1(2)
    by (simp add: d_def case_prod_beta)
qed auto

section \<open>Runs of the Redis counter\<close>

fun rrl_run ::
  "(string \<Rightarrow> 'w \<Rightarrow> (string + int) \<times> 'w) \<Rightarrow> (string \<Rightarrow> duration \<Rightarrow> 'w \<Rightarrow> 'w) \<Rightarrow> redis_rate_limiter
    \<Rightarrow> nat \<Rightarrow> 'w \<Rightarrow> (string + bool) list \<times> 'w" where
  "rrl_run incr expire r 0 w = ([], w)"
| "rrl_run incr expire r (Suc n) w =
     (case rrl_Allow incr expire r w of (out, w) \<Rightarrow>
        case rrl_run incr expire r n w of (outs, w) \<Rightarrow> (out # outs, w))"

section \<open>Properties\<close>

text \<open>
  Claim C13.  The middleware bounds what it passes on: over any sequence of requests with
  non-decreasing clock readings, the requests passed are at most the burst, plus the global
  rate times the elapsed seconds, plus the rounding of the floating-point bucket (a relative
  \<open>4 / 2 ^ 53\<close> of the credit and an absolute \<open>2 * burst / 2 ^ 53\<close> for each request).
\<close>

theorem middleware_global_bound:
  assumes "1 \<le> rl_Burst cfg" and "rl_Burst cfg \<le> 2 ^ 31"
    and "0 \<le> rl_GlobalQPS cfg" and "rl_GlobalQPS cfg \<le> 2 ^ 31"
    and "sorted (made None # map (\<lambda>(c, t1, t2). t2) reqs)"
    and "last (made None # map (\<lambda>(c, t1, t2). t2) reqs) - made None < 2 ^ 63"
  shows "of_nat (length (filter (\<lambda>ok. ok) (mw_run (new_limiters cfg made) reqs))) \<le>
    of_int (rl_Burst cfg) +
    of_int (rl_GlobalQPS cfg) * secs (last (made None # map (\<lambda>(c, t1, t2). t2) reqs) - made None) * (1 + 4 * eps) +
    of_nat (length reqs) * (2 * of_int (rl_Burst cfg) * eps)"
proof -
  obtain ts where ts: "subseq ts (map (\<lambda>(c, t1, t2). t2) reqs)"
    "fst (rl_run (ls_global (new_limiters cfg made)) ts) =
      length (filter (\<lambda>ok. ok) (mw_run (new_limiters cfg made) reqs))"
    using mw_run_global by blast
  have "ls_global (new_limiters cfg made) = NewRateLimiter (rl_GlobalQPS cfg) (rl_Burst cfg) (made None)"
    by (simp add: new_limiters_def)
  with ts(2) rl_run_bound_subseq [OF assms ts(1)] show ?thesis by simp
qed

theorem middleware_global_bound_witness:
  "of_nat (length (filter (\<lambda>ok. ok) (mw_run (new_limiters
      \<lparr>rl_GlobalQPS = 10, rl_Burst = 2, rl_MaxTokens = 0, rl_ModelLimits = Map.empty\<rparr> (\<lambda>_. 5))
      [(\<lparr>gr_Query = (\<lambda>_. ''''), gr_PostForm = (\<lambda>_. ''''), gr_ContentType = '''', gr_Body = None, gr_AfterForm = None\<rparr>, 6, 7)]))) \<le>
    2 + 10 * secs 2 * (1 + 4 * eps) + 1 * (2 * 2 * eps)"
  using middleware_global_bound [of "\<lparr>rl_GlobalQPS = 10, rl_Burst = 2, rl_MaxTokens = 0, rl_ModelLimits = Map.empty\<rparr>"
      "\<lambda>_. 5" "[(\<lparr>gr_Query = (\<lambda>_. ''''), gr_PostForm = (\<lambda>_. ''''), gr_ContentType = '''', gr_Body = None, gr_AfterForm = None\<rparr>, 6, 7)]"]
  by simp

text \<open>
  Claim C14.  The same bound for a model with a limit of its own: the requests of that model
  that pass are at most its limit, plus its limit times the elapsed seconds, plus the rounding.
\<close>

theorem middleware_model_bound:
  assumes "rl_ModelLimits cfg m = Some limit" and "1 \<le> limit" and "limit \<le> 2 ^ 31"
    and "sorted (made (Some m) # map (\<lambda>(c, t1, t2). t1) reqs)"
    and "last (made (Some m) # map (\<lambda>(c, t1, t2). t1) reqs) - made (Some m) < 2 ^ 63"
  shows "of_nat (passed_for m (new_limiters cfg made) reqs) \<le>
    of_int limit +
    of_int limit * secs (last (made (Some m) # map (\<lambda>(c, t1, t2). t1) reqs) - made (Some m)) * (1 + 4 * eps) +
    of_nat (length reqs) * (2 * of_int limit * eps)"
proof -
  have "ls_models (new_limiters cfg made) m = Some (NewRateLimiter limit limit (made (Some m)))"
    using assms(1,2) by (simp add: new_limiters_def)
  from mw_run_model [OF this, of reqs] obtain ts where ts: "subseq ts (map (\<lambda>(c, t1, t2). t1) reqs)"
    "passed_for m (new_limiters cfg made) reqs \<le> fst (rl_run (NewRateLimiter limit limit (made (Some m))) ts)"
    by blast
  have "(of_nat (passed_for m (new_limiters cfg made) reqs) :: rat) \<le>
      of_nat (fst (rl_run (NewRateLimiter limit limit (made (Some m))) ts))"
    using ts(2) by simp
  also have "\<dots> \<le> of_int limit +
      of_int limit * secs (last (made (Some m) # map (\<lambda>(c, t1, t2). t1) reqs) - made (Some m)) * (1 + 4 * eps) +
      of_nat (length (map (\<lambda>(c, t1, t2). t1) reqs)) * (2 * of_int limit * eps)"
    using assms(2,3) by (intro rl_run_bound_subseq [OF assms(2,3) _ assms(3) assms(4,5) ts(1)]) simp
  finally show ?thesis by simp
qed

theorem middleware_model_bound_witness:
  "of_nat (passed_for ''default'' (new_limiters
      \<lparr>rl_GlobalQPS = 10, rl_Burst = 2, rl_MaxTokens = 0, rl_ModelLimits = [''default'' \<mapsto> 3]\<rparr> (\<lambda>_. 5))
      [(\<lparr>gr_Query = (\<lambda>_. ''''), gr_PostForm = (\<lambda>_. ''''), gr_ContentType = '''', gr_Body = None, gr_AfterForm = None\<rparr>, 6, 7)]) \<le>
    3 + 3 * secs 1 * (1 + 4 * eps) + 1 * (2 * 3 * eps)"
  using middleware_model_bound [of "\<lparr>rl_GlobalQPS = 10, rl_Burst = 2, rl_MaxTokens = 0,
      rl_ModelLimits = [''default'' \<mapsto> 3]\<rparr>" "''default''" 3 "\<lambda>_. 5"
      "[(\<lparr>gr_Query = (\<lambda>_. ''''), gr_PostForm = (\<lambda>_. ''''), gr_ContentType = '''', gr_Body = None, gr_AfterForm = None\<rparr>, 6, 7)]"]
  by simp

text \<open>
  Claim C15.  What a bucket guarantees its clients: the first \<open>burst\<close> calls are all admitted,
  whatever the readings, and with a rate of at least 1 a call that comes a second or more after
  the previous one is always admitted.
\<close>

theorem bucket_guarantees:
  assumes "1 \<le> burst" and "burst \<le> 2 ^ 31" and "0 \<le> qps" and "qps \<le> 2 ^ 31"
    and "sorted (t0 # ts)" and "last (t0 # ts) - t0 < 2 ^ 63"
  shows "(int (length ts) \<le> burst \<longrightarrow> fst (rl_run (NewRateLimiter qps burst t0) ts) = length ts) \<and>
    (1 \<le> qps \<and> second \<le> now - last (t0 # ts) \<and> now - last (t0 # ts) < 2 ^ 63 \<longrightarrow>
      fst (rl_Allow (snd (rl_run (NewRateLimiter qps burst t0) ts)) now))"
proof -
  let ?r = "NewRateLimiter qps burst t0"
  have t0: "tb_lastRefill ?r = t0" by (simp add: NewRateLimiter_def)
  note b = bucket_new [OF assms(1-4), of t0]
  have "fst (rl_run ?r ts) = length ts" if "int (length ts) \<le> burst"
    using rl_run_burst [OF b] assms(5,6) that unfolding t0 by (metis of_int_le_iff)
  moreover obtain x' where x': "bucket burst qps x' (snd (rl_run ?r ts))"
    "tb_lastRefill (snd (rl_run ?r ts)) = last (t0 # ts)"
    using rl_run_bucket [OF b] assms(5,6) unfolding t0 by blast
  have "fst (rl_Allow (snd (rl_run ?r ts)) now)"
    if "1 \<le> qps" "second \<le> now - last (t0 # ts)" "now - last (t0 # ts) < 2 ^ 63"
  proof -
    let ?d = "now - last (t0 # ts)"
    have d: "0 \<le> ?d" using that(2) by linarith
    have sub: "time_sub now (tb_lastRefill (snd (rl_run ?r ts))) = ?d"
      using that d unfolding x'(2) by (simp add: time_sub_def)
    obtain ok r' where "rl_Allow (snd (rl_run ?r ts)) now = (ok, r')" by fastforce
    with bucket_step [OF x'(1) d that(3) sub this] that(1,2) show ?thesis by auto
  qed
  ultimately show ?thesis by blast
qed

theorem bucket_guarantees_witness:
  "fst (rl_run (NewRateLimiter 1 3 0) [4, 4, 5]) = 3 \<and>
   fst (rl_Allow (snd (rl_run (NewRateLimiter 1 3 0) [4, 4, 5, 5, 5])) (5 + second))"
  using bucket_guarantees [of 3 1 0 "[4, 4, 5]" 0] bucket_guarantees [of 3 1 0 "[4, 4, 5, 5, 5]" "5 + second"]
  by simp

text \<open>
  The decision of the middleware on one request: it passes exactly when the bucket
  of its model, if there is one, and then the global bucket admit it; a rejection has status 429
  and \<open>Retry-After: 1\<close>; a rejection by the model's bucket leaves the global one untouched, while one by the
  global bucket has already taken the model's token.
\<close>

lemma RateLimit_decision:
  assumes "RateLimit ls c t1 t2 = (out, ls')"
    and "ok1 = (case ls_models ls (request_model c) of None \<Rightarrow> True | Some b \<Rightarrow> fst (rl_Allow b t1))"
    and "ok2 = fst (rl_Allow (ls_global ls) t2)"
  shows "(out = None \<longleftrightarrow> ok1 \<and> ok2) \<and>
    (\<forall>h e. out = Some (h, e) \<longrightarrow> HTTPStatus e = 429 \<and> h = [(''Retry-After'', ''1'')]) \<and>
    ls_global ls' = (if ok1 then snd (rl_Allow (ls_global ls) t2) else ls_global ls) \<and>
    (\<forall>b. ls_models ls (request_model c) = Some b \<longrightarrow>
       ls_models ls' (request_model c) = Some (snd (rl_Allow b t1)))"
proof -
  have "HTTPStatus e = 429 \<and> h = [(''Retry-After'', ''1'')]" if "out = Some (h, e)" for h e
  proof -
    have "itoa 1 = ''1''" by code_simp
    then show ?thesis
      using that assms(1) by (auto simp: RateLimit_def too_many_def Let_def split: prod.splits if_splits)
  qed
  then show ?thesis
    using RateLimit_cases [OF assms(1)] assms(2,3) by (auto split: option.splits)
qed

text \<open>
  With a Redis whose \<open>INCR\<close> counts and whose \<open>EXPIRE\<close> leaves the count alone, the
  calls on a fresh key inside one window are admitted exactly up to the limit.
\<close>

lemma redis_window_limit:
  assumes "\<And>w. \<exists>w'. incr (rrl_key r) w = (Inr (cnt w + 1), w') \<and> cnt w' = cnt w + (1 :: int)"
    and "\<And>w d. cnt (expire (rrl_key r) d w) = cnt w" and "cnt w = 0"
  shows "fst (rrl_run incr expire r n w) = map (\<lambda>i. Inr (int i + 1 \<le> rrl_limit r)) [0..<n]"
proof -
  have "fst (rrl_run incr expire r n w) = map (\<lambda>i. Inr (k + int i + 1 \<le> rrl_limit r)) [0..<n]"
    if "cnt w = k" for k w
    using that
  proof (induction n arbitrary: k w)
    case (Suc n)
    obtain w' where w': "incr (rrl_key r) w = (Inr (k + 1), w')" "cnt w' = k + 1"
      using assms(1) [of w] Suc.prems by auto
    obtain v where v: "rrl_Allow incr expire r w = (Inr (k + 1 \<le> rrl_limit r), v)" "cnt v = k + 1"
      using w' assms(2) by (auto simp: rrl_Allow_def)
    have "[0..<Suc n] = 0 # map Suc [0..<n]" by (metis map_Suc_upt upt_conv_Cons zero_less_Suc)
    then show ?case using Suc.IH [OF v(2)] v(1) by (simp add: case_prod_beta o_def add.commute add.left_commute)
  qed simp
  from this [OF assms(3)] show ?thesis by simp
qed

end
