(* ===== verification/Telemetry.thy ===== *)
theory Telemetry
  imports Config GoTime
begin

text \<open>
  The logger (\<open>internal/middleware/logging.go\<close>), the set-up of OpenTelemetry
  (\<open>internal/telemetry/otel.go\<close>) and the request spans (\<open>internal/middleware/tracing.go\<close>): what
  is decided from the configuration, with zap and the OpenTelemetry packages as parameters.
\<close>

section \<open>The logger\<close>

datatype log_level = DebugLevel | InfoLevel | WarnLevel | ErrorLevel | DPanicLevel | PanicLevel | FatalLevel

record log_settings =
  ml_Level :: string
  ml_Format :: string
  ml_OutputPath :: string

definition DefaultConfig :: log_settings where
  "DefaultConfig = \<lparr>ml_Level = ''info'', ml_Format = ''console'', ml_OutputPath = ''stdout''\<rparr>"

datatype log_sink = StdoutSink | StderrSink | FileSink string

record logger =
  lg_jsonEncoding :: bool
  lg_minLevel :: log_level
  lg_sink :: log_sink

definition parse_level :: "string \<Rightarrow> log_level" where
  "parse_level s =
     (if s = ''debug'' then DebugLevel else if s = ''info'' then InfoLevel else if s = ''warn'' then WarnLevel
      else if s = ''error'' then ErrorLevel else InfoLevel)"

text \<open>
  \<open>Init\<close>: the error of opening the file, or the new logger; \<open>old\<close> is the global logger before.
\<close>

definition log_Init ::
  "(string \<Rightarrow> 'w \<Rightarrow> string option \<times> 'w) \<Rightarrow> log_settings \<Rightarrow> logger option \<Rightarrow> 'w
    \<Rightarrow> string option \<times> logger option \<times> 'w" where
  "log_Init openFile cfg old w =
     (let made = (\<lambda>sink. \<lparr>lg_jsonEncoding = (ml_Format cfg = ''json''), lg_minLevel = parse_level (ml_Level cfg),
            lg_sink = sink\<rparr>)
      in if ml_OutputPath cfg = ''stdout'' then (None, Some (made StdoutSink), w)
         else if ml_OutputPath cfg = ''stderr'' then (None, Some (made StderrSink), w)
         else
           (case openFile (ml_OutputPath cfg) w of
              (Some e, w) \<Rightarrow> (Some e, old, w)
            | (None, w) \<Rightarrow> (None, Some (made (FileSink (ml_OutputPath cfg))), w)))"

text \<open>
  The functions from \<open>Debug\<close> to \<open>Fatal\<close>: nothing without a logger; with one the entry goes to
  zap, and an entry of level Panic then panics, one of level Fatal ends the process.
\<close>

datatype 'w log_outcome = LogReturns 'w | LogPanics 'w | LogEnds 'w

definition log_at ::
  "(logger \<Rightarrow> log_level \<Rightarrow> string \<Rightarrow> 'f list \<Rightarrow> 'w \<Rightarrow> 'w) \<Rightarrow> logger option \<Rightarrow> log_level \<Rightarrow> string \<Rightarrow> 'f list
    \<Rightarrow> 'w \<Rightarrow> 'w log_outcome" where
  "log_at zap lg level msg fs w =
     (case lg of
        None \<Rightarrow> LogReturns w
      | Some l \<Rightarrow>
          let w = zap l level msg fs w
          in case level of PanicLevel \<Rightarrow> LogPanics w | FatalLevel \<Rightarrow> LogEnds w | _ \<Rightarrow> LogReturns w)"

text \<open>
  \<open>Debugf\<close> to \<open>Errorf\<close>, which go to the sugared logger that \<open>Init\<close> sets together with the other,
  and \<open>Sync\<close>, which drops zap's error.
\<close>

definition logf_at ::
  "(logger \<Rightarrow> log_level \<Rightarrow> string \<Rightarrow> 'f list \<Rightarrow> 'w \<Rightarrow> 'w) \<Rightarrow> logger option \<Rightarrow> log_level \<Rightarrow> string \<Rightarrow> 'f list
    \<Rightarrow> 'w \<Rightarrow> 'w" where
  "logf_at sugar lg level template args w =
     (case lg of None \<Rightarrow> w | Some l \<Rightarrow> sugar l level template args w)"

definition log_Sync :: "(logger \<Rightarrow> 'w \<Rightarrow> 'w) \<Rightarrow> logger option \<Rightarrow> 'w \<Rightarrow> 'w" where
  "log_Sync zapSync lg w = (case lg of None \<Rightarrow> w | Some l \<Rightarrow> zapSync l w)"

text \<open>
  A call of \<open>Fatal\<close> followed by \<open>os.Exit(1)\<close>, as the start-up does it, ends the process with or
  without a logger; once \<open>Init\<close> has succeeded \<open>Fatal\<close> alone ends it.
\<close>

lemma log_at_nil: "log_at zap None level msg fs w = LogReturns w"
  by (simp add: log_at_def)

lemma log_at_continues:
  "level \<noteq> PanicLevel \<Longrightarrow> level \<noteq> FatalLevel \<Longrightarrow> \<exists>w'. log_at zap lg level msg fs w = LogReturns w'"
  by (cases level; cases lg) (simp_all add: log_at_def)

lemma log_Init_Fatal:
  "log_Init openFile cfg old w = (None, lg, w') \<Longrightarrow>
    lg \<noteq> None \<and> (\<exists>w2. log_at zap lg FatalLevel msg fs w1 = LogEnds w2)"
  by (auto simp: log_Init_def log_at_def Let_def split: if_splits prod.splits option.splits)

section \<open>OpenTelemetry\<close>

text \<open>\<open>url.URL\<close>, as far as \<open>Init\<close> reads it.\<close>

record parsed_url =
  pu_Scheme :: string
  pu_Host :: string
  pu_EscapedPath :: string

datatype otlp_option = WithTimeout duration | WithEndpoint string | WithURLPath string | WithInsecure

text \<open>
  The options of the exporter, None when tracing is off.  \<open>parse\<close> is \<open>url.Parse\<close> and \<open>quoted\<close>
  the verb \<open>%q\<close>.
\<close>

definition otlp_options ::
  "(string \<Rightarrow> string + parsed_url) \<Rightarrow> (string \<Rightarrow> string) \<Rightarrow> otlp_config \<Rightarrow> string + otlp_option list option" where
  "otlp_options parse quoted cfg =
     (let endpoint = trim_space (oc_Endpoint cfg); timeout = WithTimeout (5 * second)
      in if \<not> oc_Enabled cfg \<or> endpoint = '''' then Inr None
         else if contains endpoint ''://'' then
           (case parse endpoint of
              Inl e \<Rightarrow> Inl (''invalid otlp endpoint '' @ quoted endpoint @ '': '' @ e)
            | Inr u \<Rightarrow>
                if trim_space (pu_Host u) = '''' then Inl (''invalid otlp endpoint '' @ quoted endpoint @ '': host is empty'')
                else
                  let path = trim_space (pu_EscapedPath u);
                      opts = [timeout, WithEndpoint (pu_Host u)] @
                        (if path \<noteq> '''' \<and> path \<noteq> ''/'' then [WithURLPath path] else []);
                      scheme = to_lower (trim_space (pu_Scheme u))
                  in if scheme = ''http'' then Inr (Some (opts @ [WithInsecure]))
                     else if scheme = ''https'' \<or> scheme = '''' then Inr (Some opts)
                     else Inl (''invalid otlp endpoint '' @ quoted endpoint @ '': unsupported scheme '' @ quoted (pu_Scheme u)))
         else
           Inr (Some ([timeout, WithEndpoint endpoint] @ (if oc_Insecure cfg then [WithInsecure] else []))))"

text \<open>
  \<open>Init\<close>: \<open>exporter\<close> and \<open>resource\<close> are the constructors with their errors, \<open>install\<close> sets the
  global provider; the result tells whether there is a provider to shut down.
\<close>

record 'w otel_ops =
  ot_exporter :: "otlp_option list \<Rightarrow> 'w \<Rightarrow> string option \<times> 'w"
  ot_resource :: "'w \<Rightarrow> string option \<times> 'w"
  ot_install :: "'w \<Rightarrow> 'w"

definition telemetry_Init ::
  "'w otel_ops \<Rightarrow> (string \<Rightarrow> string + parsed_url) \<Rightarrow> (string \<Rightarrow> string) \<Rightarrow> monitoring_config \<Rightarrow> 'w
    \<Rightarrow> (string + bool) \<times> 'w" where
  "telemetry_Init ops parse quoted cfg w =
     (case otlp_options parse quoted (moc_OTLP cfg) of
        Inl e \<Rightarrow> (Inl e, w)
      | Inr None \<Rightarrow> (Inr False, w)
      | Inr (Some opts) \<Rightarrow>
          (case ot_exporter ops opts w of
             (Some e, w) \<Rightarrow> (Inl e, w)
           | (None, w) \<Rightarrow>
               (case ot_resource ops w of
                  (Some e, w) \<Rightarrow> (Inl e, w)
                | (None, w) \<Rightarrow> (Inr True, ot_install ops w))))"

text \<open>Traces leave in the clear only when the configuration says so.\<close>

lemma otlp_insecure:
  assumes "otlp_options parse quoted cfg = Inr (Some opts)"
  shows "WithInsecure \<in> set opts \<longleftrightarrow>
    (if contains (trim_space (oc_Endpoint cfg)) ''://''
     then (case parse (trim_space (oc_Endpoint cfg)) of
             Inl _ \<Rightarrow> False | Inr u \<Rightarrow> to_lower (trim_space (pu_Scheme u)) = ''http'')
     else oc_Insecure cfg)"
  using assms by (auto simp: otlp_options_def Let_def split: if_splits sum.splits)

lemma otlp_off: "otlp_options parse quoted cfg = Inr None \<longleftrightarrow> \<not> oc_Enabled cfg \<or> trim_space (oc_Endpoint cfg) = ''''"
  by (auto simp: otlp_options_def Let_def split: sum.split)

section \<open>Request spans\<close>

datatype span_status = SpanOk | SpanError string

record span =
  sn_Name :: string
  sn_Method :: string
  sn_Route :: string
  sn_Target :: string
  sn_StatusCode :: int
  sn_DurationMs :: int
  sn_Status :: span_status

definition span_name :: "string \<Rightarrow> string \<Rightarrow> string \<Rightarrow> string" where
  "span_name method fullPath path =
     (if fullPath = '''' then method @ '' '' @ path else method @ '' '' @ fullPath)"

text \<open>
  The middleware around the rest of the chain, \<open>next\<close>, whose result has a status; the span is
  what \<open>End\<close> hands to the tracer.
\<close>

definition Tracing ::
  "('w \<Rightarrow> time \<times> 'w) \<Rightarrow> string \<Rightarrow> string \<Rightarrow> string \<Rightarrow> ('r \<Rightarrow> int) \<Rightarrow> ('w \<Rightarrow> 'r \<times> 'w) \<Rightarrow> 'w \<Rightarrow> 'r \<times> span \<times> 'w" where
  "Tracing now method fullPath path status rest w =
     (let (startedAt, w) = now w;
          (r, w) = rest w;
          (t, w) = now w;
          code = status r
      in (r,
          \<lparr>sn_Name = span_name method fullPath path, sn_Method = method, sn_Route = fullPath, sn_Target = path,
           sn_StatusCode = code, sn_DurationMs = duration_ms (time_sub t startedAt),
           sn_Status = (if 500 \<le> code then SpanError (''http '' @ itoa code) else SpanOk)\<rparr>, w))"

lemma Tracing_transparent:
  "fst (Tracing now method fullPath path status rest w) = fst (rest (snd (now w)))"
  by (simp add: Tracing_def case_prod_beta Let_def)

end
