(* ===== verification/Server.thy ===== *)
theory Server
  imports Embedding RateLimit Telemetry
begin

text \<open>
  \<open>cmd/server/main.go\<close>: how the parts are built from the configuration and put together, and
  the two pipelines under \<open>/v1\<close> that serve completions and embeddings.
\<close>

section \<open>Start-up\<close>

text \<open>\<open>middleware.Fatal\<close> ends the process with status 1; its message is kept.\<close>

datatype 'a startup = Exits string | Starts 'a

text \<open>
  \<open>initStorage\<close>: a store that cannot be reached is dropped in debug mode and fatal in every
  other.  \<open>dial\<close> and \<open>opn\<close> are the constructors of the client libraries.
\<close>

definition debug_mode :: "config \<Rightarrow> bool" where
  "debug_mode cfg \<longleftrightarrow> sc_Mode (cfg_Server cfg) = ''debug''"

definition initStorage ::
  "(redis_options \<Rightarrow> 'w redis_ops) \<Rightarrow> (string \<Rightarrow> string + 'w sql_ops) \<Rightarrow> config \<Rightarrow> 'w
    \<Rightarrow> ('w redis_client option \<times> 'w pg_client option) startup \<times> 'w" where
  "initStorage dial opn cfg w =
     (case NewRedis dial (cfg_Redis cfg) w of
        (redisResult, w) \<Rightarrow>
          if isl redisResult \<and> \<not> debug_mode cfg
          then (Exits ''Failed to connect to Redis in release mode, exiting'', w)
          else
            let redisClient = (case redisResult of Inl _ \<Rightarrow> None | Inr r \<Rightarrow> Some r)
            in case NewPostgres opn (cfg_Database cfg) w of
                 (Inl _, w) \<Rightarrow>
                   if \<not> debug_mode cfg
                   then (Exits ''Failed to connect to PostgreSQL in release mode, exiting'', w)
                   else (Starts (redisClient, None), w)
               | (Inr p, w) \<Rightarrow>
                   (case EnsureRequestLogSchema (Some p) w of
                      (Some _, w) \<Rightarrow>
                        if \<not> debug_mode cfg
                        then (Exits ''Failed to ensure request log schema in release mode, exiting'', w)
                        else (Starts (redisClient, Some p), w)
                    | (None, w) \<Rightarrow> (Starts (redisClient, Some p), w)))"

definition initCaches :: "config \<Rightarrow> 'w redis_client option \<Rightarrow> 'w l1_cache option \<times> 'w l2_cache option" where
  "initCaches cfg redisClient =
     (case redisClient of
        None \<Rightarrow> (None, None)
      | Some r \<Rightarrow>
          let cc = cfg_Cache cfg in
          if \<not> cc_Enabled cc then (None, None)
          else
            (Some (NewL1Cache (Some (redis_Client r))
               \<lparr>l1c_Enabled = cc_Enabled cc, l1c_TTL = cc_L1TTL cc, l1c_MaxSize = cc_MaxCacheSize cc,
                l1c_KeyPrefix = ''cache:l1''\<rparr>),
             Some (NewL2Cache (Some (redis_Client r))
               \<lparr>l2c_Enabled = cc_Enabled cc, l2c_SimilarityThreshold = cc_SimilarityThreshold cc,
                l2c_TTL = cc_TTL cc, l2c_MaxSize = cc_MaxCacheSize cc, l2c_KeyPrefix = ''cache:l2'',
                l2c_VectorDim = 384\<rparr>)))"

text \<open>The \<open>-mode\<close> flag overrides the mode of the configuration when it is one of the two.\<close>

definition apply_mode :: "string \<Rightarrow> config \<Rightarrow> config" where
  "apply_mode mode cfg =
     (if mode = ''debug'' \<or> mode = ''release'' then cfg\<lparr>cfg_Server := (cfg_Server cfg)\<lparr>sc_Mode := mode\<rparr>\<rparr>
      else cfg)"

definition start_tracer :: "config \<Rightarrow> workflow_tracer" where
  "start_tracer cfg =
     (let path = wc_ReplayLogPath (cfg_Workflow cfg)
      in if path \<noteq> '''' then ConfigureDefaultWorkflowTracer path defaultWorkflowTracer else defaultWorkflowTracer)"

lemma start_tracer_empty: "wf_sessions (start_tracer cfg) = Map.empty"
  by (simp add: start_tracer_def ConfigureDefaultWorkflowTracer_def defaultWorkflowTracer_def NewWorkflowTracer_def Let_def)

definition provider_client :: "'w http_ops \<Rightarrow> (string \<Rightarrow> string) \<Rightarrow> string \<Rightarrow> provider_config \<Rightarrow> 'w client" where
  "provider_client http err name cfg =
     provider_ChatCompletion http err
       (if name = ''anthropic'' then newAnthropicProvider cfg None
        else if name = ''minimax'' then newMiniMaxProvider cfg None
        else newOpenAIProvider cfg None)"

definition start_worker :: "config \<Rightarrow> worker_client" where
  "start_worker cfg =
     (let pw = cfg_PythonWorker cfg
      in NewClient \<lparr>wk_Address = pw_Address pw, wk_Timeout = pw_Timeout pw, wk_RetryMax = pw_RetryMax pw,
           wk_RetryBackoff = pw_RetryBackoff pw, wk_HealthTTL = pw_HealthTTL pw\<rparr>)"

text \<open>The libraries and the operating system, as the process finds them.\<close>

record 'w platform =
  pf_dial :: "redis_options \<Rightarrow> 'w redis_ops"
  pf_open :: "string \<Rightarrow> string + 'w sql_ops"
  pf_sys :: "'w sys"
  pf_http :: "'w http_ops"
  pf_files :: "'w file_ops"
  pf_random :: "'w \<Rightarrow> string option \<times> 'w"
  pf_sort :: entry_sort
  pf_bind_err :: "string \<Rightarrow> string"
  pf_json_err :: "string \<Rightarrow> string"
  pf_rand :: "nat \<Rightarrow> 'w \<Rightarrow> nat list \<times> 'w"

record 'w server =
  sv_gateway :: "'w gateway"
  sv_limiters :: limiters

record 'w wiring =
  wr_env :: "'w gateway_env"
  wr_redis :: "'w redis_client option"
  wr_rand :: "nat \<Rightarrow> 'w \<Rightarrow> nat list \<times> 'w"

definition start_server ::
  "'w platform \<Rightarrow> string \<Rightarrow> config \<Rightarrow> (string option \<Rightarrow> time) \<Rightarrow> 'w
    \<Rightarrow> ('w wiring \<times> 'w server) startup \<times> 'w" where
  "start_server pf mode cfg made w =
     (let cfg = apply_mode mode cfg in
      case initStorage (pf_dial pf) (pf_open pf) cfg w of
        (Exits msg, w) \<Rightarrow> (Exits msg, w)
      | (Starts (redisClient, pg), w) \<Rightarrow>
          let (l1, l2) = initCaches cfg redisClient;
              env = \<lparr>ev_cfg = cfg, ev_sys = pf_sys pf, ev_http = pf_http pf, ev_files = pf_files pf,
                ev_random = pf_random pf, ev_sort = pf_sort pf, ev_bind_err = pf_bind_err pf,
                ev_worker_err = pf_json_err pf, ev_pg = pg, ev_l1 = l1, ev_l2 = l2\<rparr>;
              g = \<lparr>gw_registry = Some (NewRegistry (pf_sys pf) (provider_client (pf_http pf) (pf_json_err pf)) cfg),
                gw_worker = Some (start_worker cfg), gw_usage = NewUsageStats, gw_tracer = start_tracer cfg\<rparr>
          in (Starts (\<lparr>wr_env = env, wr_redis = redisClient, wr_rand = pf_rand pf\<rparr>,
                \<lparr>sv_gateway = g, sv_limiters = new_limiters (cfg_RateLimit cfg) made\<rparr>), w))"

text \<open>
  What \<open>main\<close> does before it listens: the configuration, the mode, the logger and the telemetry,
  then the rest.  Without the configuration or the logger it exits in every mode, without the
  telemetry in every mode but debug.  The result has the logger and whether there is a telemetry
  provider to shut down.
\<close>

record 'w boot =
  bt_readFile :: "string \<Rightarrow> string + string"
  bt_yaml :: "string \<Rightarrow> string + config"
  bt_getenv :: "string \<Rightarrow> string"
  bt_openLog :: "string \<Rightarrow> 'w \<Rightarrow> string option \<times> 'w"
  bt_otel :: "'w otel_ops"
  bt_parseURL :: "string \<Rightarrow> string + parsed_url"
  bt_quoted :: "string \<Rightarrow> string"

definition log_settings_of :: "config \<Rightarrow> log_settings" where
  "log_settings_of cfg =
     \<lparr>ml_Level = lc_Level (cfg_Logger cfg), ml_Format = lc_Format (cfg_Logger cfg),
      ml_OutputPath = lc_OutputPath (cfg_Logger cfg)\<rparr>"

definition gateway_main ::
  "'w boot \<Rightarrow> 'w platform \<Rightarrow> string \<Rightarrow> (string option \<Rightarrow> time) \<Rightarrow> 'w
    \<Rightarrow> ('w wiring \<times> 'w server \<times> logger option \<times> bool) startup \<times> 'w" where
  "gateway_main bt pf mode made w =
     (case Load (bt_readFile bt) (bt_yaml bt) (bt_getenv bt) ''configs/config.yaml'' of
        Inl e \<Rightarrow> (Exits (''Failed to load config: '' @ e), w)
      | Inr cfg \<Rightarrow>
          (case log_Init (bt_openLog bt) (log_settings_of cfg) None w of
             (Some e, _, w) \<Rightarrow> (Exits (''Failed to initialize logger: '' @ e), w)
           | (None, lg, w) \<Rightarrow>
               (case telemetry_Init (bt_otel bt) (bt_parseURL bt) (bt_quoted bt) (cfg_Monitoring cfg) w of
                  (tel, w) \<Rightarrow>
                    if isl tel \<and> \<not> debug_mode (apply_mode mode cfg)
                    then (Exits ''Failed to initialize OpenTelemetry in release mode, exiting'', w)
                    else
                      (case start_server pf mode cfg made w of
                         (Exits msg, w) \<Rightarrow> (Exits msg, w)
                       | (Starts (wr, s), w) \<Rightarrow> (Starts (wr, s, lg, tel = Inr True), w)))))"

section \<open>The pipelines\<close>

record v1_request =
  vr_header :: "string \<Rightarrow> string"
  vr_gin :: gin_request

datatype v1_call = CallChat v1_request | CallEmbeddings v1_request

datatype v1_reply =
    Refused "(string \<times> string) list" gateway_error
  | ChatDone chat_reply
  | EmbeddingDone embedding_reply

text \<open>
  The handler's view of a request that the middleware let pass, with the body that is left; one
  that could not be read does not decode.
\<close>

definition inbound_of :: "v1_request \<Rightarrow> (string + string) option \<Rightarrow> (string \<times> string) list \<Rightarrow> inbound" where
  "inbound_of rq body ctx =
     \<lparr>in_header = vr_header rq,
      in_body = (case body of None \<Rightarrow> None | Some (Inl _) \<Rightarrow> Some '''' | Some (Inr b) \<Rightarrow> Some b),
      in_apiKeyID = map_of ctx ''api_key_id''\<rparr>"

definition v1_chat :: "'w wiring \<Rightarrow> v1_request \<Rightarrow> 'w server \<Rightarrow> 'w \<Rightarrow> v1_reply \<times> 'w server \<times> 'w" where
  "v1_chat wr rq s w =
     (case APIKeyAuth (wr_redis wr) (vr_header rq) w of
        (Inl e, w) \<Rightarrow> (Refused [] e, s, w)
      | (Inr ctx, w) \<Rightarrow>
          let (t1, w) = sys_now (ev_sys (wr_env wr)) w;
              (t2, w) = sys_now (ev_sys (wr_env wr)) w;
              (out, ls) = RateLimit (sv_limiters s) (vr_gin rq) t1 t2;
              s = s\<lparr>sv_limiters := ls\<rparr>
          in case out of
               Some (hdrs, e) \<Rightarrow> (Refused hdrs e, s, w)
             | None \<Rightarrow>
                 (case ChatCompletion (wr_env wr) (inbound_of rq (body_left (vr_gin rq)) ctx) (sv_gateway s) w of
                    (r, g, w) \<Rightarrow> (ChatDone r, s\<lparr>sv_gateway := g\<rparr>, w)))"

text \<open>The embeddings route has no rate limit.\<close>

definition v1_embeddings :: "'w wiring \<Rightarrow> v1_request \<Rightarrow> 'w server \<Rightarrow> 'w \<Rightarrow> v1_reply \<times> 'w server \<times> 'w" where
  "v1_embeddings wr rq s w =
     (case APIKeyAuth (wr_redis wr) (vr_header rq) w of
        (Inl e, w) \<Rightarrow> (Refused [] e, s, w)
      | (Inr ctx, w) \<Rightarrow>
          (case EmbeddingHandler (wr_env wr) (inbound_of rq (gr_Body (vr_gin rq)) ctx) (sv_gateway s) w of
             (r, g, w) \<Rightarrow> (EmbeddingDone r, s\<lparr>sv_gateway := g\<rparr>, w)))"

fun v1 :: "'w wiring \<Rightarrow> v1_call \<Rightarrow> 'w server \<Rightarrow> 'w \<Rightarrow> v1_reply \<times> 'w server \<times> 'w" where
  "v1 wr (CallChat rq) s w = v1_chat wr rq s w"
| "v1 wr (CallEmbeddings rq) s w = v1_embeddings wr rq s w"

section \<open>What the pipelines guarantee\<close>

definition v1_recorded :: "v1_reply \<Rightarrow> int option" where
  "v1_recorded reply =
     (case reply of
        Refused _ _ \<Rightarrow> None
      | ChatDone r \<Rightarrow> Some (chat_recorded r)
      | EmbeddingDone r \<Rightarrow> Some (embedding_recorded r))"

lemma v1_chat_cases:
  assumes "v1_chat wr rq s w = (reply, s', w')"
  obtains (refused) h e where "reply = Refused h e" "sv_gateway s' = sv_gateway s"
  | (served) r ctx w1 t1 t2 w2 where "reply = ChatDone r"
      "APIKeyAuth (wr_redis wr) (vr_header rq) w = (Inr ctx, w1)"
      "RateLimit (sv_limiters s) (vr_gin rq) t1 t2 = (None, sv_limiters s')"
      "ChatCompletion (wr_env wr) (inbound_of rq (body_left (vr_gin rq)) ctx) (sv_gateway s) w2 = (r, sv_gateway s', w')"
  using assms
  by (fastforce simp: v1_chat_def Let_def split: sum.splits prod.splits option.splits)

lemma v1_embeddings_cases:
  assumes "v1_embeddings wr rq s w = (reply, s', w')"
  obtains (refused) h e where "reply = Refused h e" "s' = s"
  | (served) r ctx w1 where "reply = EmbeddingDone r"
      "APIKeyAuth (wr_redis wr) (vr_header rq) w = (Inr ctx, w1)"
      "EmbeddingHandler (wr_env wr) (inbound_of rq (gr_Body (vr_gin rq)) ctx) (sv_gateway s) w1 = (r, sv_gateway s', w')"
      "sv_limiters s' = sv_limiters s"
  using assms
  by (fastforce simp: v1_embeddings_def Let_def split: sum.splits prod.splits)

interpretation v1_api: accounted_endpoint "v1 wr" "\<lambda>s. gw_usage (sv_gateway s)" "\<lambda>s. gw_tracer (sv_gateway s)"
    v1_recorded "{chat_endpoint, embedding_endpoint}" for wr
proof unfold_locales
  fix call s w reply s' w'
  assume "v1 wr call s w = (reply, s', w')" and "v1_recorded reply = None"
  then show "gw_usage (sv_gateway s') = gw_usage (sv_gateway s) \<and> gw_tracer (sv_gateway s') = gw_tracer (sv_gateway s)"
    by (cases call) (auto simp: v1_recorded_def elim!: v1_chat_cases v1_embeddings_cases)
next
  fix call s w reply s' w' status
  assume run: "v1 wr call s w = (reply, s', w')" and status: "v1_recorded reply = Some status"
  show "\<exists>now m tr. gw_usage (sv_gateway s') = stats_Record (gw_usage (sv_gateway s)) now m \<and>
      gw_tracer (sv_gateway s') = updateSummary tr (gw_tracer (sv_gateway s)) \<and>
      rm_Endpoint m \<in> {chat_endpoint, embedding_endpoint} \<and> wt_Endpoint tr = rm_Endpoint m \<and>
      rm_StatusCode m = status \<and> wt_StatusCode tr = status"
  proof (cases call)
    case (CallChat rq)
    with run have "v1_chat wr rq s w = (reply, s', w')" by simp
    then show ?thesis
    proof (cases rule: v1_chat_cases)
      case (served r ctx w1 t1 t2 w2)
      then show ?thesis using chat_api.accounts [OF served(4)] status by (fastforce simp: v1_recorded_def)
    qed (use status in \<open>simp add: v1_recorded_def\<close>)
  next
    case (CallEmbeddings rq)
    with run have "v1_embeddings wr rq s w = (reply, s', w')" by simp
    then show ?thesis
    proof (cases rule: v1_embeddings_cases)
      case (served r ctx w1)
      then show ?thesis using embedding_api.accounts [OF served(3)] status by (fastforce simp: v1_recorded_def)
    qed (use status in \<open>simp add: v1_recorded_def\<close>)
  qed
qed

lemma apply_mode_frame:
  "cfg_RateLimit (apply_mode mode cfg) = cfg_RateLimit cfg" "cfg_Cache (apply_mode mode cfg) = cfg_Cache cfg"
  "cfg_PythonWorker (apply_mode mode cfg) = cfg_PythonWorker cfg" "cfg_Models (apply_mode mode cfg) = cfg_Models cfg"
  "cfg_Providers (apply_mode mode cfg) = cfg_Providers cfg"
  by (simp_all add: apply_mode_def)

lemma start_server_cases:
  assumes "start_server pf mode cfg made w = (Starts (wr, s), w')"
  shows "gw_usage (sv_gateway s) = NewUsageStats \<and> gw_tracer (sv_gateway s) = start_tracer (apply_mode mode cfg) \<and>
    sv_limiters s = new_limiters (cfg_RateLimit cfg) made \<and> ev_cfg (wr_env wr) = apply_mode mode cfg \<and>
    (\<exists>r. gw_registry (sv_gateway s) = Some r \<and>
       r = NewRegistry (pf_sys pf) (provider_client (pf_http pf) (pf_json_err pf)) cfg) \<and>
    gw_worker (sv_gateway s) = Some (start_worker cfg) \<and>
    (ev_l1 (wr_env wr), ev_l2 (wr_env wr)) = initCaches cfg (wr_redis wr) \<and>
    (\<exists>w1. initStorage (pf_dial pf) (pf_open pf) (apply_mode mode cfg) w = (Starts (wr_redis wr, ev_pg (wr_env wr)), w1))"
proof -
  have eqs: "start_worker (apply_mode mode cfg) = start_worker cfg" "initCaches (apply_mode mode cfg) rc = initCaches cfg rc"
    "NewRegistry y mk (apply_mode mode cfg) = NewRegistry y mk cfg" for y mk rc
    unfolding start_worker_def NewRegistry_def initCaches_def apply_mode_frame by (rule refl)+
  show ?thesis
    using assms by (auto simp: start_server_def Let_def eqs apply_mode_frame split: prod.splits startup.splits)
qed

definition ex_platform :: "mem platform" where
  "ex_platform = \<lparr>pf_dial = (\<lambda>_. mem_redis), pf_open = (\<lambda>_. Inl ''refused''), pf_sys = ex_clock,
     pf_http = ev_http ex_env, pf_files = ev_files ex_env, pf_random = ev_random ex_env, pf_sort = ev_sort ex_env,
     pf_bind_err = ev_bind_err ex_env, pf_json_err = ev_worker_err ex_env, pf_rand = (\<lambda>n w. (replicate n 0, w))\<rparr>"

lemma ex_start: "\<exists>wr s. start_server ex_platform '''' ex_config (\<lambda>_. 0) mem_empty = (Starts (wr, s), mem_empty) \<and>
    wr_redis wr = Some \<lparr>rc_client = mem_redis\<rparr>"
proof -
  have "NewRedis (\<lambda>_. mem_redis) (cfg_Redis ex_config) mem_empty = (Inr \<lparr>rc_client = mem_redis\<rparr>, mem_empty)"
    by (simp add: NewRedis_def mem_redis_def)
  moreover have "apply_mode '''' ex_config = ex_config" "debug_mode ex_config"
    by (simp_all add: apply_mode_def debug_mode_def ex_config_def)
  moreover have "NewPostgres (\<lambda>_. Inl ''refused'') (cfg_Database ex_config) w = (Inl (''failed to open database: '' @ ''refused''), w)"
    for w :: mem by (simp add: NewPostgres_def)
  ultimately show ?thesis
    by (simp add: start_server_def initStorage_def ex_platform_def Let_def split: prod.split)
qed

lemma initStorage_release:
  assumes "initStorage dial opn cfg w = (Starts (redis, pg), w')" and "\<not> debug_mode cfg"
  shows "redis \<noteq> None \<and> pg \<noteq> None"
  using assms by (auto simp: initStorage_def Let_def split: prod.splits sum.splits if_splits option.splits)

text \<open>What a started server is made of.\<close>

lemma start_server_parts:
  assumes "start_server pf mode cfg made w = (Starts (wr, s), w')"
  shows "(debug_mode (apply_mode mode cfg) \<or> wr_redis wr \<noteq> None \<and> ev_pg (wr_env wr) \<noteq> None) \<and>
    (case ev_l1 (wr_env wr) of
       None \<Rightarrow> ev_l2 (wr_env wr) = None \<and> (wr_redis wr = None \<or> \<not> cc_Enabled (cfg_Cache cfg))
     | Some c1 \<Rightarrow> cc_Enabled (cfg_Cache cfg) \<and> l1_client c1 = map_option rc_client (wr_redis wr) \<and>
         l1_client c1 \<noteq> None \<and> l1_keyPrefix c1 = ''cache:l1'' \<and> l1_maxSize c1 = cc_MaxCacheSize (cfg_Cache cfg) \<and>
         (\<exists>c2. ev_l2 (wr_env wr) = Some c2 \<and> l2_client c2 = l1_client c1 \<and> l2_keyPrefix c2 = ''cache:l2'' \<and>
            l2_maxSize c2 = cc_MaxCacheSize (cfg_Cache cfg))) \<and>
    (case gw_registry (sv_gateway s) of None \<Rightarrow> False | Some r \<Rightarrow> wf_registry r) \<and>
    (case gw_worker (sv_gateway s) of None \<Rightarrow> False | Some c \<Rightarrow> 1 \<le> wc_retryMax c \<and> 0 < wc_retryBackoff c) \<and>
    gw_usage (sv_gateway s) = NewUsageStats"
proof -
  note start = start_server_cases [OF assms]
  then obtain w1 where "initStorage (pf_dial pf) (pf_open pf) (apply_mode mode cfg) w =
      (Starts (wr_redis wr, ev_pg (wr_env wr)), w1)" by blast
  note stores = initStorage_release [OF this]
  have caches: "(ev_l1 (wr_env wr), ev_l2 (wr_env wr)) = initCaches cfg (wr_redis wr)" using start by blast
  have "1 \<le> wc_retryMax (start_worker cfg)" "0 < wc_retryBackoff (start_worker cfg)"
    by (simp_all add: start_worker_def NewClient_def Let_def)
  then show ?thesis
    using start stores caches NewRegistry_wf
    by (auto simp: initCaches_def NewL1Cache_def NewL2Cache_def redis_Client_def Let_def split: option.splits if_splits)
qed

lemma gateway_main_cases:
  assumes "gateway_main bt pf mode made w = (Starts (wr, s, lg, tp), w')"
  obtains cfg w1 tel w2 where "Load (bt_readFile bt) (bt_yaml bt) (bt_getenv bt) ''configs/config.yaml'' = Inr cfg"
    "log_Init (bt_openLog bt) (log_settings_of cfg) None w = (None, lg, w1)"
    "telemetry_Init (bt_otel bt) (bt_parseURL bt) (bt_quoted bt) (cfg_Monitoring cfg) w1 = (tel, w2)"
    "\<not> isl tel \<or> debug_mode (apply_mode mode cfg)"
    "start_server pf mode cfg made w2 = (Starts (wr, s), w')" "tp \<longleftrightarrow> tel = Inr True"
  using assms by (auto simp: gateway_main_def split: sum.splits prod.splits option.splits if_splits startup.splits)

lemma gateway_main_logger: "gateway_main bt pf mode made w = (Starts (wr, s, lg, tp), w') \<Longrightarrow> lg \<noteq> None"
  by (erule gateway_main_cases) (auto dest: log_Init_Fatal)

text \<open>
  Claim C38. What a gateway that has started is made of.  Its configuration was read and its
  logger made; unless it runs in debug mode it has both of its stores and no error in the
  telemetry options, and with the flag \<open>release\<close> it never runs in debug mode, whatever the
  configuration says; the two caches are there exactly when Redis is there and caching is
  enabled, under the prefixes \<open>cache:l1\<close> and \<open>cache:l2\<close> and with the configured size; the
  provider registry satisfies its invariant, the embedding worker makes at least one attempt,
  and nothing has been counted.
\<close>
theorem gateway_main_sound:
  assumes "gateway_main bt pf mode made w = (Starts (wr, s, lg, tp), w')"
  shows "lg \<noteq> None \<and> (\<exists>cfg. Load (bt_readFile bt) (bt_yaml bt) (bt_getenv bt) ''configs/config.yaml'' = Inr cfg \<and>
    ev_cfg (wr_env wr) = apply_mode mode cfg \<and>
    (debug_mode (ev_cfg (wr_env wr)) \<or> wr_redis wr \<noteq> None \<and> ev_pg (wr_env wr) \<noteq> None \<and>
       \<not> isl (otlp_options (bt_parseURL bt) (bt_quoted bt) (moc_OTLP (cfg_Monitoring cfg)))) \<and>
    (mode = ''release'' \<longrightarrow> \<not> debug_mode (ev_cfg (wr_env wr))) \<and>
    (case ev_l1 (wr_env wr) of
       None \<Rightarrow> ev_l2 (wr_env wr) = None \<and> (wr_redis wr = None \<or> \<not> cc_Enabled (cfg_Cache cfg))
     | Some c1 \<Rightarrow> cc_Enabled (cfg_Cache cfg) \<and> l1_client c1 = map_option rc_client (wr_redis wr) \<and>
         l1_client c1 \<noteq> None \<and> l1_keyPrefix c1 = ''cache:l1'' \<and> l1_maxSize c1 = cc_MaxCacheSize (cfg_Cache cfg) \<and>
         (\<exists>c2. ev_l2 (wr_env wr) = Some c2 \<and> l2_client c2 = l1_client c1 \<and> l2_keyPrefix c2 = ''cache:l2'' \<and>
            l2_maxSize c2 = cc_MaxCacheSize (cfg_Cache cfg))) \<and>
    (case gw_registry (sv_gateway s) of None \<Rightarrow> False | Some r \<Rightarrow> wf_registry r) \<and>
    (case gw_worker (sv_gateway s) of None \<Rightarrow> False | Some c \<Rightarrow> 1 \<le> wc_retryMax c \<and> 0 < wc_retryBackoff c) \<and>
    gw_usage (sv_gateway s) = NewUsageStats)"
  using assms
proof (cases rule: gateway_main_cases)
  case (1 cfg w1 tel w2)
  have "ev_cfg (wr_env wr) = apply_mode mode cfg" using start_server_cases [OF 1(5)] by blast
  moreover have "\<not> isl (otlp_options (bt_parseURL bt) (bt_quoted bt) (moc_OTLP (cfg_Monitoring cfg)))" if "\<not> isl tel"
    using 1(3) that by (auto simp: telemetry_Init_def split: sum.splits option.splits prod.splits)
  moreover have "mode = ''release'' \<longrightarrow> \<not> debug_mode (apply_mode mode cfg)"
    by (simp add: apply_mode_def debug_mode_def)
  moreover note start_server_parts [OF 1(5)]
  ultimately show ?thesis using 1(1,4) gateway_main_logger [OF assms] by (intro conjI exI [of _ cfg]) auto
qed

definition ex_boot :: "mem boot" where
  "ex_boot = \<lparr>bt_readFile = (\<lambda>_. Inr ''''), bt_yaml = (\<lambda>_. Inr ex_config), bt_getenv = (\<lambda>_. ''''),
     bt_openLog = (\<lambda>_ w. (None, w)), bt_otel = \<lparr>ot_exporter = (\<lambda>_ w. (None, w)), ot_resource = (\<lambda>w. (None, w)),
       ot_install = (\<lambda>w. w)\<rparr>, bt_parseURL = (\<lambda>_. Inl ''''), bt_quoted = (\<lambda>s. s)\<rparr>"

lemma ex_load_config:
  "Load (bt_readFile ex_boot) (bt_yaml ex_boot) (bt_getenv ex_boot) ''configs/config.yaml'' = Inr ex_config"
  by (simp add: Load_def ex_boot_def applyEnvOverrides_def env_override_def Let_def)

lemma ex_main: "\<exists>wr s lg. gateway_main ex_boot ex_platform '''' (\<lambda>_. 0) mem_empty = (Starts (wr, s, lg, False), mem_empty) \<and>
    wr_redis wr = Some \<lparr>rc_client = mem_redis\<rparr>"
proof -
  have "\<exists>lg. log_Init (bt_openLog ex_boot) (log_settings_of ex_config) None mem_empty = (None, lg, mem_empty)"
    by (simp add: log_Init_def ex_boot_def Let_def)
  moreover have "telemetry_Init (bt_otel ex_boot) (bt_parseURL ex_boot) (bt_quoted ex_boot) (cfg_Monitoring ex_config) mem_empty =
      (Inr False, mem_empty)"
    by (simp add: telemetry_Init_def otlp_options_def ex_config_def)
  ultimately show ?thesis using ex_start ex_load_config by (auto simp: gateway_main_def)
qed

theorem gateway_main_sound_witness:
  "\<exists>wr s lg. gateway_main ex_boot ex_platform '''' (\<lambda>_. 0) mem_empty = (Starts (wr, s, lg, False), mem_empty) \<and>
     (case ev_l1 (wr_env wr) of None \<Rightarrow> False | Some c1 \<Rightarrow> l1_client c1 = Some mem_redis \<and> l1_maxSize c1 = 2)"
proof -
  obtain wr s lg where start: "gateway_main ex_boot ex_platform '''' (\<lambda>_. 0) mem_empty = (Starts (wr, s, lg, False), mem_empty)"
    and redis: "wr_redis wr = Some \<lparr>rc_client = mem_redis\<rparr>" using ex_main by blast
  have "cc_Enabled (cfg_Cache ex_config)" "cc_MaxCacheSize (cfg_Cache ex_config) = 2" by (simp_all add: ex_config_def)
  then show ?thesis
    using gateway_main_sound [OF start] start redis ex_load_config by (auto split: option.splits)
qed

text \<open>What the two guards let pass and how they refuse.\<close>

lemma APIKeyAuth_refuses: "APIKeyAuth rc header w = (Inl e, w') \<Longrightarrow> HTTPStatus e = 401"
proof (cases rc)
  case (Some r)
  assume "APIKeyAuth rc header w = (Inl e, w')"
  then show ?thesis using Some APIKeyAuth_cases [of r header w]
    by (auto split: if_splits prod.splits sum.splits list.splits)
qed (simp add: APIKeyAuth_def)

lemma APIKeyAuth_passes:
  assumes "APIKeyAuth rc header w = (Inr ctx, w')"
  shows "case rc of
      None \<Rightarrow> True
    | Some r \<Rightarrow> \<exists>key kv kvs. header ''Authorization'' = ''Bearer '' @ key \<and>
        fst (redis_HGetAll r (metadata_key key) w) = Inr (kv # kvs)"
proof (cases rc)
  case (Some r)
  then have auth: "APIKeyAuth (Some r) header w = (Inr ctx, w')" using assms by simp
  then obtain key where "header ''Authorization'' = ''Bearer '' @ key"
    using APIKeyAuth_cases [of r header w] by (auto split: if_splits)
  then show ?thesis
    using auth Some APIKeyAuth_cases [of r header w]
    by (auto split: if_splits prod.splits sum.splits list.splits)
qed simp

lemma RateLimit_refuses:
  assumes "RateLimit ls c t1 t2 = (Some (h, e), ls')"
  shows "HTTPStatus e = 429 \<and> h = [(''Retry-After'', ''1'')]"
proof -
  have "itoa 1 = ''1''" by code_simp
  then show ?thesis
    using assms by (auto simp: RateLimit_def too_many_def Let_def split: prod.splits if_splits option.splits)
qed

lemma RateLimit_passes:
  assumes "RateLimit ls c t1 t2 = (None, ls')"
  shows "fst (rl_Allow (ls_global ls) t2) \<and>
    (case ls_models ls (request_model c) of None \<Rightarrow> True | Some b \<Rightarrow> fst (rl_Allow b t1))"
  using RateLimit_cases(2,3) [OF assms]
  by (cases "case ls_models ls (request_model c) of None \<Rightarrow> True | Some b \<Rightarrow> fst (rl_Allow b t1)") simp_all

text \<open>
  A body that the parsing of the form has used up is lost to the handler: the middleware asks
  gin for the form value \<open>model\<close>, so a completion request whose content type is that of a form
  is answered with 400, whatever its body is, unless its query names a model.
\<close>

lemma form_body_lost:
  assumes "gr_AfterForm (vr_gin rq) = Some (Inr '''')" and "trim_space (gr_Query (vr_gin rq) ''model'') = ''''"
    and "v1_chat wr rq s w = (ChatDone r, s', w')"
  shows "fst r = 400"
  using assms(3)
proof (cases rule: v1_chat_cases)
  case (served r' ctx w1 t1 t2 w2)
  let ?inb = "inbound_of rq (body_left (vr_gin rq)) ctx"
  have "in_body ?inb = Some ''''" using assms(1,2) by (simp add: inbound_of_def body_left_def)
  moreover have "json_decode '''' = None" by code_simp
  ultimately have "bound_request (wr_env wr) ?inb = None" by (simp add: bound_request_def bind_json_def)
  moreover obtain t w3 where "sys_now (ev_sys (wr_env wr)) w2 = (t, w3)" by fastforce
  ultimately show ?thesis
    using served chat_serve_unbound [of "wr_env wr" ?inb "sv_gateway s" w3]
    by (auto simp: ChatCompletion_def reply_failure_def error_JSON_def split: prod.splits)
qed simp

text \<open>
  Claim C7. Nobody reaches the upstreams around the two guards.  A completion request that is
  refused leaves the gateway as it was and gets 401, or 429 with \<open>Retry-After\<close>; one that is
  served presented a bearer key whose hash names an entry in Redis that could be read (or the
  server has no Redis to check keys with) and was admitted by the bucket of its model and by
  the global bucket.
\<close>
theorem v1_chat_guarded:
  "case v1_chat wr rq s w of (reply, s', w') \<Rightarrow>
     (case reply of
        Refused h e \<Rightarrow> sv_gateway s' = sv_gateway s \<and>
          (HTTPStatus e = 401 \<and> h = [] \<and> sv_limiters s' = sv_limiters s \<or> HTTPStatus e = 429 \<and> h = [(''Retry-After'', ''1'')])
      | ChatDone r \<Rightarrow>
          (case wr_redis wr of
             None \<Rightarrow> True
           | Some rc \<Rightarrow> \<exists>key kv kvs. vr_header rq ''Authorization'' = ''Bearer '' @ key \<and>
               fst (redis_HGetAll rc (metadata_key key) w) = Inr (kv # kvs)) \<and>
          (\<exists>t1 t2. RateLimit (sv_limiters s) (vr_gin rq) t1 t2 = (None, sv_limiters s') \<and>
             fst (rl_Allow (ls_global (sv_limiters s)) t2) \<and>
             (case ls_models (sv_limiters s) (request_model (vr_gin rq)) of
                None \<Rightarrow> True | Some b \<Rightarrow> fst (rl_Allow b t1)))
      | EmbeddingDone _ \<Rightarrow> False)"
proof -
  obtain auth w1 where a: "APIKeyAuth (wr_redis wr) (vr_header rq) w = (auth, w1)" by fastforce
  obtain t1 w2 where t1: "sys_now (ev_sys (wr_env wr)) w1 = (t1, w2)" by fastforce
  obtain t2 w3 where t2: "sys_now (ev_sys (wr_env wr)) w2 = (t2, w3)" by fastforce
  obtain out ls where o: "RateLimit (sv_limiters s) (vr_gin rq) t1 t2 = (out, ls)" by fastforce
  show ?thesis
  proof (cases auth)
    case (Inl e)
    then show ?thesis using a APIKeyAuth_refuses by (simp add: v1_chat_def)
  next
    case auth: (Inr ctx)
    show ?thesis
    proof (cases out)
      case None
      with o have "\<exists>t1 t2. RateLimit (sv_limiters s) (vr_gin rq) t1 t2 = (None, ls) \<and>
          fst (rl_Allow (ls_global (sv_limiters s)) t2) \<and>
          (case ls_models (sv_limiters s) (request_model (vr_gin rq)) of
             None \<Rightarrow> True | Some b \<Rightarrow> fst (rl_Allow b t1))"
        using RateLimit_passes by blast
      then show ?thesis
        using None a t1 t2 o auth APIKeyAuth_passes [OF a [unfolded auth]] by (simp add: v1_chat_def split: prod.split)
    next
      case (Some r)
      then show ?thesis using a t1 t2 o auth RateLimit_refuses by (cases r) (simp add: v1_chat_def)
    qed
  qed
qed

end
