(* ===== verification/Router.thy ===== *)
theory Router
  imports Server
begin

text \<open>
  The routes that \<open>main\<close> in \<open>cmd/server/main.go\<close> registers, with the CORS middleware in front of
  them, and what clients see of the statistics and the workflow sessions after any sequence of
  requests to any of the routes.
\<close>

section \<open>Routes\<close>

datatype route =
    RHealth | RChat | REmbeddings | RModels
  | RCreateKey | RListKeys | RDeleteKey string | RStats | RSummary string | RSummaries

text \<open>
  The table of routes, for a method and the segments of a path; a parameter in a path is a
  segment that is not empty.  None is a request that no handler gets: gin answers 404 itself, or
  redirects a path that differs from a route in its last slash only.
\<close>

definition route_of :: "string \<Rightarrow> string list \<Rightarrow> route option" where
  "route_of req_method path =
     (if req_method = ''GET'' \<and> path = [''health''] then Some RHealth
      else if req_method = ''POST'' \<and> path = [''v1'', ''chat'', ''completions''] then Some RChat
      else if req_method = ''POST'' \<and> path = [''v1'', ''embeddings''] then Some REmbeddings
      else if req_method = ''GET'' \<and> path = [''v1'', ''models''] then Some RModels
      else if req_method = ''POST'' \<and> path = [''api'', ''v1'', ''keys''] then Some RCreateKey
      else if req_method = ''GET'' \<and> path = [''api'', ''v1'', ''keys''] then Some RListKeys
      else if req_method = ''DELETE'' \<and> length path = 4 \<and> take 3 path = [''api'', ''v1'', ''keys''] \<and> path ! 3 \<noteq> ''''
      then Some (RDeleteKey (path ! 3))
      else if req_method = ''GET'' \<and> path = [''api'', ''v1'', ''stats''] then Some RStats
      else if req_method = ''GET'' \<and> length path = 5 \<and> take 3 path = [''api'', ''v1'', ''workflows''] \<and>
        path ! 3 \<noteq> '''' \<and> path ! 4 = ''summary''
      then Some (RSummary (path ! 3))
      else if req_method = ''GET'' \<and> path = [''api'', ''v1'', ''workflows'', ''summaries''] then Some RSummaries
      else None)"

text \<open>
  A request; \<open>ar_order\<close> is the order in which ranging over the map of sessions meets them, if
  its handler does so.
\<close>

record api_request =
  ar_method :: string
  ar_path :: "string list"
  ar_v1 :: v1_request
  ar_order :: "string list"

datatype api_reply =
    Preflight int
  | NoRoute
  | Healthy string
  | V1Done v1_reply
  | AdminDone admin_reply

definition api_serve :: "'w wiring \<Rightarrow> api_request \<Rightarrow> route \<Rightarrow> 'w server \<Rightarrow> 'w \<Rightarrow> api_reply \<times> 'w server \<times> 'w" where
  "api_serve wr rq rt s w =
     (let env = wr_env wr;
          body = in_body (inbound_of (ar_v1 rq) (gr_Body (vr_gin (ar_v1 rq))) []);
          admin = (\<lambda>(reply, w). (AdminDone reply, s, w))
      in case rt of
           RHealth \<Rightarrow> (case sys_now (ev_sys env) w of (t, w) \<Rightarrow> (Healthy (format_rfc3339 t), s, w))
         | RChat \<Rightarrow> (case v1 wr (CallChat (ar_v1 rq)) s w of (r, s, w) \<Rightarrow> (V1Done r, s, w))
         | REmbeddings \<Rightarrow> (case v1 wr (CallEmbeddings (ar_v1 rq)) s w of (r, s, w) \<Rightarrow> (V1Done r, s, w))
         | RModels \<Rightarrow> (AdminDone (ListModels (ev_cfg env)), s, w)
         | RCreateKey \<Rightarrow> admin (CreateAPIKey (wr_rand wr) (ev_bind_err env) (ev_pg env) (wr_redis wr) body w)
         | RListKeys \<Rightarrow> admin (ListAPIKeys (ev_pg env) w)
         | RDeleteKey i \<Rightarrow> admin (DeleteAPIKey (ev_pg env) (wr_redis wr) i w)
         | RStats \<Rightarrow> (case GetStats (ev_pg env) (gw_usage (sv_gateway s)) w of ((reply, _), w) \<Rightarrow> admin (reply, w))
         | RSummary sid \<Rightarrow> (AdminDone (GetWorkflowSummary (gw_tracer (sv_gateway s)) sid), s, w)
         | RSummaries \<Rightarrow>
             (AdminDone (ListWorkflowSummaries (gw_tracer (sv_gateway s)) (ar_order rq)
                (gr_Query (vr_gin (ar_v1 rq)) ''limit'')), s, w))"

definition api :: "'w wiring \<Rightarrow> api_request \<Rightarrow> 'w server \<Rightarrow> 'w \<Rightarrow> api_reply \<times> 'w server \<times> 'w" where
  "api wr rq s w =
     (case snd (CORS (ar_method rq)) of
        Some status \<Rightarrow> (Preflight status, s, w)
      | None \<Rightarrow>
          (case route_of (ar_method rq) (ar_path rq) of
             None \<Rightarrow> (NoRoute, s, w)
           | Some rt \<Rightarrow> api_serve wr rq rt s w))"

section \<open>Every served request is recorded once\<close>

definition api_recorded :: "api_reply \<Rightarrow> int option" where
  "api_recorded reply = (case reply of V1Done r \<Rightarrow> v1_recorded r | _ \<Rightarrow> None)"

text \<open>Only the two routes to the handlers change the state of the server.\<close>

lemma api_cases:
  assumes "api wr rq s w = (reply, s', w')"
  obtains (v1) call r where "reply = V1Done r" "v1 wr call s w = (r, s', w')"
  | (other) "s' = s" "api_recorded reply = None"
  using assms
  by (auto simp: api_def api_serve_def api_recorded_def Let_def simp del: v1.simps
      split: option.splits route.splits prod.splits)

interpretation api: accounted_endpoint "api wr" "\<lambda>s. gw_usage (sv_gateway s)" "\<lambda>s. gw_tracer (sv_gateway s)"
    api_recorded "{chat_endpoint, embedding_endpoint}" for wr
proof unfold_locales
  fix rq s w reply s' w'
  assume run: "api wr rq s w = (reply, s', w')" and none: "api_recorded reply = None"
  from run show "gw_usage (sv_gateway s') = gw_usage (sv_gateway s) \<and> gw_tracer (sv_gateway s') = gw_tracer (sv_gateway s)"
  proof (cases rule: api_cases)
    case (v1 call r)
    then show ?thesis using none v1_api.unrecorded [OF v1(2)] by (simp add: api_recorded_def)
  qed simp
next
  fix rq s w reply s' w' status
  assume run: "api wr rq s w = (reply, s', w')" and status: "api_recorded reply = Some status"
  from run show "\<exists>now m tr. gw_usage (sv_gateway s') = stats_Record (gw_usage (sv_gateway s)) now m \<and>
      gw_tracer (sv_gateway s') = updateSummary tr (gw_tracer (sv_gateway s)) \<and>
      rm_Endpoint m \<in> {chat_endpoint, embedding_endpoint} \<and> wt_Endpoint tr = rm_Endpoint m \<and>
      rm_StatusCode m = status \<and> wt_StatusCode tr = status"
  proof (cases rule: api_cases)
    case (v1 call r)
    then show ?thesis using status v1_api.accounts [OF v1(2)] by (simp add: api_recorded_def)
  qed (use status in simp)
qed

text \<open>The status a client got, and the requests whose handler panicked.\<close>

definition v1_status :: "v1_reply \<Rightarrow> int" where
  "v1_status r = (case r of Refused _ e \<Rightarrow> HTTPStatus e | ChatDone c \<Rightarrow> fst c | EmbeddingDone e \<Rightarrow> fst e)"

definition v1_panicked :: "v1_reply \<Rightarrow> bool" where
  "v1_panicked r = (case r of Refused _ _ \<Rightarrow> False | ChatDone c \<Rightarrow> snd c = ChatPanic | EmbeddingDone e \<Rightarrow> snd e = EmbPanic)"

lemma v1_recorded_status:
  "v1_recorded r = Some status \<Longrightarrow> status = (if v1_panicked r then 200 else v1_status r)"
  by (auto simp: v1_recorded_def v1_panicked_def v1_status_def chat_recorded_def embedding_recorded_def
      split: v1_reply.splits chat_body.splits embedding_body.splits)

definition served_replies :: "api_reply list \<Rightarrow> v1_reply list" where
  "served_replies replies =
     List.map_filter (\<lambda>r. case r of V1Done v \<Rightarrow> (case v of Refused _ _ \<Rightarrow> None | _ \<Rightarrow> Some v) | _ \<Rightarrow> None) replies"

lemma served_recorded:
  "List.map_filter api_recorded replies =
     map (\<lambda>r. if v1_panicked r then 200 else v1_status r) (served_replies replies)"
proof (induction replies)
  case (Cons r rs)
  then show ?case
    by (cases r) (auto simp: served_replies_def map_filter_simps api_recorded_def v1_recorded_def v1_panicked_def
        v1_status_def chat_recorded_def embedding_recorded_def
        split: v1_reply.split chat_body.split embedding_body.split)
qed (simp add: served_replies_def map_filter_simps)

section \<open>What the statistics say\<close>

lemma api_stats:
  assumes "ar_method rq = ''GET''" and "ar_path rq = [''api'', ''v1'', ''stats'']" and "ev_pg (wr_env wr) = None"
  shows "api wr rq s w = (AdminDone (200, MemStatsBody (stats_Snapshot (gw_usage (sv_gateway s)))), s, w)"
  by (simp add: api_def CORS_def assms route_of_def api_serve_def GetStats_def)

lemma api_summary:
  assumes "ar_method rq = ''GET''" and "ar_path rq = [''api'', ''v1'', ''workflows'', sid, ''summary'']" and "sid \<noteq> ''''"
  shows "api wr rq s w = (AdminDone (GetWorkflowSummary (gw_tracer (sv_gateway s)) sid), s, w)"
  by (simp add: api_def CORS_def assms route_of_def api_serve_def)

lemma tracer_run_summary:
  "trim_space sid = sid \<Longrightarrow> sid \<noteq> '''' \<Longrightarrow> GetWorkflowSummary (tracer_run (start_tracer cfg) trs) sid =
     (case filter (\<lambda>t. wt_SessionID t = sid) trs of
        [] \<Rightarrow> (404, NotFoundBody ''workflow session not found'' ''invalid_request_error'' ''invalid_request'')
      | xs \<Rightarrow> (200, SummaryBody (ref_summary sid xs)))"
proof -
  assume sid: "trim_space sid = sid" "sid \<noteq> ''''"
  from tracer_run_sessions [OF start_tracer_empty [of cfg], of trs sid] sid show ?thesis
    by (simp add: GetWorkflowSummary_def GetSummary_def Let_def ref_state_def split: list.split)
qed


definition ex_call :: api_request where
  "ex_call = \<lparr>ar_method = ''POST'', ar_path = [''v1'', ''chat'', ''completions''],
     ar_v1 = \<lparr>vr_header = (\<lambda>_. ''''), vr_gin = \<lparr>gr_Query = (\<lambda>_. ''''), gr_PostForm = (\<lambda>_. ''''),
       gr_ContentType = '''', gr_Body = None, gr_AfterForm = None\<rparr>\<rparr>, ar_order = []\<rparr>"


end
