(* ===== verification/Lifecycle.thy ===== *)
theory Lifecycle
  imports Router "HOL-Library.Sublist"
begin

text \<open>
  The life of the process after its start (\<open>main\<close> in \<open>cmd/server/main.go\<close>): the listener in its
  goroutine, the connections, the signal, the shutdown with its timeout and the deferred calls.
  Everything that can happen is a step relation, so every order of events is a sequence of steps.
\<close>

section \<open>The process\<close>

text \<open>
  The goroutine of \<open>ListenAndServe\<close> is about to bind the address, accepts connections, has an
  error that it is about to report, or has come rest with \<open>http.ErrServerClosed\<close>.
\<close>

datatype listener = Binding | Accepting | Failed | Closed

text \<open>
  \<open>main\<close> waits for a signal, is in \<open>Shutdown\<close> until a deadline, runs its deferred calls, or the
  process has ended with a status.
\<close>

datatype stage = Serving | Draining time | Leaving | Over int

datatype cleanup = CancelShutdown | ClosePostgres | CloseRedis | ShutdownTelemetry | SyncLog

text \<open>
  \<open>rt_telemetry\<close> tells whether \<open>telemetry.Init\<close> set up a provider; \<open>rt_closeListener\<close> is the
  error of closing the listener's socket, if it has one.
\<close>

record 'w runtime =
  rt_wiring :: "'w wiring"
  rt_logger :: "logger option"
  rt_telemetry :: bool
  rt_shutdownProvider :: "'w \<Rightarrow> 'w"
  rt_zapSync :: "logger \<Rightarrow> 'w \<Rightarrow> 'w"
  rt_closeListener :: "string option"

text \<open>
  Connections that have sent nothing yet are only counted, and so are those that wait for a
  further request; \<open>ps_active\<close> are the requests that the handlers work on, \<open>ps_arrived\<close> and
  \<open>ps_served\<close> the history of both, \<open>ps_defers\<close> the stack of deferred calls.
\<close>

record 'w process =
  ps_stage :: stage
  ps_listener :: listener
  ps_now :: time
  ps_new :: nat
  ps_idle :: nat
  ps_active :: "api_request list"
  ps_arrived :: "api_request list"
  ps_served :: "(api_request \<times> api_reply) list"
  ps_server :: "'w server"
  ps_world :: 'w
  ps_defers :: "cleanup list"

definition running :: "'w process \<Rightarrow> bool" where
  "running p = (case ps_stage p of Over _ \<Rightarrow> False | _ \<Rightarrow> True)"

text \<open>What \<open>main\<close> has deferred when it starts the listener, the last one first.\<close>

definition defers_of :: "'w wiring \<Rightarrow> cleanup list" where
  "defers_of wr =
     (if ev_pg (wr_env wr) \<noteq> None then [ClosePostgres] else []) @
     (if wr_redis wr \<noteq> None then [CloseRedis] else []) @ [ShutdownTelemetry, SyncLog]"

definition run_cleanup :: "'w runtime \<Rightarrow> cleanup \<Rightarrow> 'w \<Rightarrow> 'w" where
  "run_cleanup rt c w =
     (case c of
        CancelShutdown \<Rightarrow> w
      | ClosePostgres \<Rightarrow>
          (case Option.bind (ev_pg (wr_env (rt_wiring rt))) pg_db of None \<Rightarrow> w | Some db \<Rightarrow> snd (pg_Close db w))
      | CloseRedis \<Rightarrow> (case wr_redis (rt_wiring rt) of None \<Rightarrow> w | Some r \<Rightarrow> snd (redis_Close r w))
      | ShutdownTelemetry \<Rightarrow> if rt_telemetry rt then rt_shutdownProvider rt w else w
      | SyncLog \<Rightarrow> log_Sync (rt_zapSync rt) (rt_logger rt) w)"

text \<open>
  \<open>middleware.Fatal\<close> ends the process, without its deferred calls, when there is a logger; when
  there is none it does nothing.
\<close>

definition after_fatal :: "'w runtime \<Rightarrow> stage \<Rightarrow> stage" where
  "after_fatal rt st = (if rt_logger rt = None then st else Over 1)"

lemma after_fatal_log_at:
  "after_fatal rt st = (case log_at zap (rt_logger rt) FatalLevel msg fs w of LogEnds _ \<Rightarrow> Over 1 | _ \<Rightarrow> st)"
  by (auto simp: after_fatal_def log_at_def split: option.split)

definition listening :: "'w runtime \<Rightarrow> time \<Rightarrow> 'w server \<Rightarrow> 'w \<Rightarrow> 'w process" where
  "listening rt t s w =
     \<lparr>ps_stage = Serving, ps_listener = Binding, ps_now = t, ps_new = 0, ps_idle = 0, ps_active = [],
      ps_arrived = [], ps_served = [], ps_server = s, ps_world = w, ps_defers = defers_of (rt_wiring rt)\<rparr>"

text \<open>
  \<open>Shutdown\<close> closes the listener and the idle connections, waits until no connection is active
  and none is new, and gives the error of the context when its deadline passes first.  A request
  is served without interruption, as in the rest of the development, and its connection is kept
  only while the server is not shutting down.
\<close>

inductive main_step :: "'w runtime \<Rightarrow> 'w process \<Rightarrow> 'w process \<Rightarrow> bool" for rt :: "'w runtime" where
  time_passes: "running p \<Longrightarrow> 0 < d \<Longrightarrow> main_step rt p (p\<lparr>ps_now := ps_now p + d\<rparr>)"
| bound: "ps_stage p = Serving \<Longrightarrow> ps_listener p = Binding \<Longrightarrow> main_step rt p (p\<lparr>ps_listener := Accepting\<rparr>)"
| bind_error: "running p \<Longrightarrow> ps_listener p = Binding \<Longrightarrow> main_step rt p (p\<lparr>ps_listener := Failed\<rparr>)"
| accept_error: "ps_stage p = Serving \<Longrightarrow> ps_listener p = Accepting \<Longrightarrow>
    main_step rt p (p\<lparr>ps_listener := Failed\<rparr>)"
| server_closed: "running p \<Longrightarrow> ps_stage p \<noteq> Serving \<Longrightarrow> ps_listener p = Binding \<Longrightarrow>
    main_step rt p (p\<lparr>ps_listener := Closed\<rparr>)"
| listener_fatal: "running p \<Longrightarrow> ps_listener p = Failed \<Longrightarrow>
    main_step rt p
      (p\<lparr>ps_stage := after_fatal rt (ps_stage p), ps_listener := if rt_logger rt = None then Closed else Failed\<rparr>)"
| connect: "ps_stage p = Serving \<Longrightarrow> ps_listener p = Accepting \<Longrightarrow>
    main_step rt p (p\<lparr>ps_new := Suc (ps_new p)\<rparr>)"
| request: "running p \<Longrightarrow> ps_new p = Suc n \<Longrightarrow>
    main_step rt p (p\<lparr>ps_new := n, ps_active := ps_active p @ [rq], ps_arrived := ps_arrived p @ [rq]\<rparr>)"
| request_again: "ps_stage p = Serving \<Longrightarrow> ps_idle p = Suc n \<Longrightarrow>
    main_step rt p (p\<lparr>ps_idle := n, ps_active := ps_active p @ [rq], ps_arrived := ps_arrived p @ [rq]\<rparr>)"
| answer: "running p \<Longrightarrow> ps_active p = front @ rq # rest \<Longrightarrow>
    api (rt_wiring rt) rq (ps_server p) (ps_world p) = (reply, s, w) \<Longrightarrow>
    main_step rt p
      (p\<lparr>ps_active := front @ rest, ps_served := ps_served p @ [(rq, reply)], ps_server := s, ps_world := w,
         ps_idle := if ps_stage p = Serving then Suc (ps_idle p) else ps_idle p\<rparr>)"
| hang_up_new: "running p \<Longrightarrow> ps_new p = Suc n \<Longrightarrow> main_step rt p (p\<lparr>ps_new := n\<rparr>)"
| hang_up_idle: "running p \<Longrightarrow> ps_idle p = Suc n \<Longrightarrow> main_step rt p (p\<lparr>ps_idle := n\<rparr>)"
| signal: "ps_stage p = Serving \<Longrightarrow>
    main_step rt p
      (p\<lparr>ps_stage := Draining (ps_now p + 5 * second), ps_idle := 0, ps_defers := CancelShutdown # ps_defers p,
         ps_listener := if ps_listener p = Accepting then Closed else ps_listener p\<rparr>)"
| drained: "ps_stage p = Draining dl \<Longrightarrow> ps_active p = [] \<Longrightarrow> ps_new p = 0 \<Longrightarrow>
    main_step rt p (p\<lparr>ps_stage := if rt_closeListener rt = None then Leaving else after_fatal rt Leaving\<rparr>)"
| timed_out: "ps_stage p = Draining dl \<Longrightarrow> dl \<le> ps_now p \<Longrightarrow>
    main_step rt p (p\<lparr>ps_stage := after_fatal rt Leaving\<rparr>)"
| deferred: "ps_stage p = Leaving \<Longrightarrow> ps_defers p = c # cs \<Longrightarrow>
    main_step rt p (p\<lparr>ps_defers := cs, ps_world := run_cleanup rt c (ps_world p)\<rparr>)"
| returned: "ps_stage p = Leaving \<Longrightarrow> ps_defers p = [] \<Longrightarrow> main_step rt p (p\<lparr>ps_stage := Over 0\<rparr>)"

text \<open>A process that has ended does nothing more.\<close>

lemma over_final: "ps_stage p = Over n \<Longrightarrow> \<not> main_step rt p p'"
  by (auto elim!: main_step.cases simp: running_def)

section \<open>Requests and stores\<close>

lemma serve_all_snoc:
  "serve_all handle is s w = (rs, s1, w1) \<Longrightarrow> handle i s1 w1 = (r, s2, w2) \<Longrightarrow>
    serve_all handle (is @ [i]) s w = (rs @ [r], s2, w2)"
  by (induction "is" arbitrary: s w rs) (auto split: prod.splits)

text \<open>
  The served requests are a run of the routes, the deferred calls that have run come after all
  of it, and they wait for the requests and the new connections.
\<close>

definition served_run :: "'w runtime \<Rightarrow> 'w server \<Rightarrow> 'w \<Rightarrow> 'w process \<Rightarrow> 'w \<Rightarrow> bool" where
  "served_run rt s w p w1 \<longleftrightarrow>
     serve_all (api (rt_wiring rt)) (map fst (ps_served p)) s w = (map snd (ps_served p), ps_server p, w1)"

abbreviation all_defers :: "'w runtime \<Rightarrow> cleanup list" where
  "all_defers rt \<equiv> CancelShutdown # defers_of (rt_wiring rt)"

definition stage_inv :: "'w runtime \<Rightarrow> 'w process \<Rightarrow> cleanup list \<Rightarrow> bool" where
  "stage_inv rt p dn =
     (case ps_stage p of
        Serving \<Rightarrow> dn = [] \<and> ps_defers p = defers_of (rt_wiring rt)
      | Draining _ \<Rightarrow> dn = [] \<and> ps_defers p = all_defers rt \<and> ps_listener p \<noteq> Accepting
      | Leaving \<Rightarrow> dn @ ps_defers p = all_defers rt \<and> ps_active p = [] \<and> ps_new p = 0 \<and> ps_listener p \<noteq> Accepting
      | Over n \<Rightarrow>
          if n = 0 then dn = all_defers rt \<and> ps_active p = [] \<and> ps_new p = 0
          else n = 1 \<and> (dn = [] \<or> ps_listener p = Failed \<and> prefix dn (all_defers rt) \<and> ps_active p = [] \<and> ps_new p = 0))"

definition main_inv :: "'w runtime \<Rightarrow> 'w server \<Rightarrow> 'w \<Rightarrow> 'w process \<Rightarrow> bool" where
  "main_inv rt s w p \<longleftrightarrow>
     (\<exists>w1 dn. served_run rt s w p w1 \<and> ps_world p = fold (run_cleanup rt) dn w1 \<and> stage_inv rt p dn) \<and>
     mset (ps_arrived p) = mset (map fst (ps_served p)) + mset (ps_active p)"

lemma main_inv_start: "main_inv rt s w (listening rt t s w)"
  by (simp add: main_inv_def listening_def served_run_def stage_inv_def)

lemma running_stages: "running p \<longleftrightarrow> ps_stage p = Serving \<or> (\<exists>dl. ps_stage p = Draining dl) \<or> ps_stage p = Leaving"
  by (cases "ps_stage p") (simp_all add: running_def)

lemma prefix_of_append: "xs @ ys = zs \<Longrightarrow> prefix xs zs"
  by (auto simp: prefix_def)

lemma served_run_cong:
  "ps_served p' = ps_served p \<Longrightarrow> ps_server p' = ps_server p \<Longrightarrow> served_run rt s w p' w1 = served_run rt s w p w1"
  by (simp add: served_run_def)

lemma main_inv_step:
  assumes "main_step rt p p'" and "main_inv rt s w p" and logger: "rt_logger rt \<noteq> None"
  shows "main_inv rt s w p'"
proof -
  obtain w1 dn where inv: "served_run rt s w p w1" "ps_world p = fold (run_cleanup rt) dn w1" "stage_inv rt p dn"
    "mset (ps_arrived p) = mset (map fst (ps_served p)) + mset (ps_active p)"
    using assms(2) by (auto simp: main_inv_def)
  have keep: ?thesis if "ps_served p' = ps_served p" "ps_server p' = ps_server p" "ps_world p' = ps_world p"
    "stage_inv rt p' dn" "mset (ps_arrived p') = mset (map fst (ps_served p')) + mset (ps_active p')"
    using inv that served_run_cong [OF that(1,2)] by (auto simp: main_inv_def)
  from assms(1) show ?thesis
  proof cases
    case (answer front rq rest reply s1 w2)
    then have "dn = []" "ps_stage p \<noteq> Leaving"
      using inv(3) by (auto simp: stage_inv_def running_stages)
    then have "served_run rt s w p' w2" and "stage_inv rt p' []"
      using inv(1,2,3) answer serve_all_snoc [of "api (rt_wiring rt)"]
      by (auto simp: served_run_def stage_inv_def running_stages)
    then show ?thesis using inv(4) answer by (auto simp: main_inv_def intro!: exI [of _ w2] exI [of _ "[]"])
  next
    case (deferred c cs)
    then have "stage_inv rt p' (dn @ [c])" "served_run rt s w p' w1"
      using inv(1,3) by (auto simp: stage_inv_def served_run_def)
    moreover have "ps_world p' = fold (run_cleanup rt) (dn @ [c]) w1" using inv(2) deferred by simp
    ultimately show ?thesis
      using inv(4) deferred unfolding main_inv_def by (intro conjI exI [of _ w1] exI [of _ "dn @ [c]"]) simp_all
  next
    case listener_fatal
    then have "stage_inv rt p' dn" using inv(3) logger by (auto simp: stage_inv_def running_stages after_fatal_def intro: prefix_of_append)
    then show ?thesis using listener_fatal inv(4) by (intro keep) simp_all
  next
    case returned
    then have "stage_inv rt p' dn" using inv(3) by (auto simp: stage_inv_def)
    then show ?thesis using returned inv(4) by (intro keep) simp_all
  qed (rule keep; use inv(3,4) logger in \<open>auto simp: stage_inv_def running_stages after_fatal_def split: stage.splits if_splits\<close>)+
qed

lemma stage_done:
  assumes inv: "stage_inv rt p dn" and "dn \<noteq> [] \<or> ps_stage p = Over 0"
  shows "ps_active p = []"
proof (cases "ps_stage p")
  case Serving
  then have "dn = []" using inv by (simp add: stage_inv_def)
  then show ?thesis using Serving assms(2) by simp
next
  case (Draining dl)
  then have "dn = []" using inv by (simp add: stage_inv_def)
  then show ?thesis using Draining assms(2) by simp
next
  case Leaving
  then show ?thesis using inv by (simp add: stage_inv_def)
next
  case (Over n)
  then have "if n = 0 then dn = all_defers rt \<and> ps_active p = [] \<and> ps_new p = 0
      else n = 1 \<and> (dn = [] \<or> ps_listener p = Failed \<and> prefix dn (all_defers rt) \<and> ps_active p = [] \<and> ps_new p = 0)"
    using inv by (simp only: stage_inv_def stage.case)
  then show ?thesis using assms(2) Over by (metis stage.inject(2))
qed

lemma main_inv_reach:
  assumes "(main_step rt)\<^sup>*\<^sup>* (listening rt t s w) p" and "rt_logger rt \<noteq> None"
  shows "main_inv rt s w p"
  using assms(1) by induction (auto intro: main_inv_start main_inv_step [OF _ _ assms(2)])


lemma clean_up:
  "ps_stage p = Leaving \<Longrightarrow>
    (main_step rt)\<^sup>*\<^sup>* p (p\<lparr>ps_defers := [], ps_world := fold (run_cleanup rt) (ps_defers p) (ps_world p), ps_stage := Over 0\<rparr>)"
proof (induction "ps_defers p" arbitrary: p)
  case Nil
  then have "main_step rt p (p\<lparr>ps_stage := Over 0\<rparr>)" by (intro main_step.returned) simp_all
  moreover have "p\<lparr>ps_defers := [], ps_world := fold (run_cleanup rt) (ps_defers p) (ps_world p), ps_stage := Over 0\<rparr> =
      p\<lparr>ps_stage := Over 0\<rparr>" using Nil by (cases p) simp
  ultimately show ?case by simp
next
  case (Cons c cs)
  let ?q = "p\<lparr>ps_defers := cs, ps_world := run_cleanup rt c (ps_world p)\<rparr>"
  have "main_step rt p ?q" using Cons by (intro main_step.deferred) simp_all
  moreover have "(main_step rt)\<^sup>*\<^sup>* ?q
      (?q\<lparr>ps_defers := [], ps_world := fold (run_cleanup rt) (ps_defers ?q) (ps_world ?q), ps_stage := Over 0\<rparr>)"
    using Cons by (intro Cons.hyps(1)) simp_all
  ultimately show ?case using Cons.hyps(2) [symmetric] by (simp add: converse_rtranclp_into_rtranclp)
qed

lemma one_request_run:
  assumes "rt_closeListener rt = None"
  shows "\<exists>p. (main_step rt)\<^sup>*\<^sup>* (listening rt t s w) p \<and> ps_stage p = Over 0 \<and> ps_arrived p = [rq]"
proof -
  obtain reply s1 w1 where one: "api (rt_wiring rt) rq s w = (reply, s1, w1)" by (metis prod_cases3)
  let ?p0 = "listening rt t s w"
  let ?p1 = "?p0\<lparr>ps_listener := Accepting\<rparr>"
  let ?p2 = "?p1\<lparr>ps_new := Suc (ps_new ?p1)\<rparr>"
  let ?p3 = "?p2\<lparr>ps_new := 0, ps_active := ps_active ?p2 @ [rq], ps_arrived := ps_arrived ?p2 @ [rq]\<rparr>"
  let ?p4 = "?p3\<lparr>ps_active := [] @ [], ps_served := ps_served ?p3 @ [(rq, reply)], ps_server := s1, ps_world := w1,
      ps_idle := if ps_stage ?p3 = Serving then Suc (ps_idle ?p3) else ps_idle ?p3\<rparr>"
  let ?p5 = "?p4\<lparr>ps_stage := Draining (ps_now ?p4 + 5 * second), ps_idle := 0,
      ps_defers := CancelShutdown # ps_defers ?p4,
      ps_listener := if ps_listener ?p4 = Accepting then Closed else ps_listener ?p4\<rparr>"
  let ?p6 = "?p5\<lparr>ps_stage := if rt_closeListener rt = None then Leaving else after_fatal rt Leaving\<rparr>"
  have s0: "main_step rt ?p0 ?p1" by (rule main_step.bound) (simp_all add: listening_def)
  have s1: "main_step rt ?p1 ?p2" by (rule main_step.connect) (simp_all add: listening_def)
  have s2: "main_step rt ?p2 ?p3" by (rule main_step.request) (simp_all add: listening_def running_def)
  have s3: "main_step rt ?p3 ?p4"
    by (rule main_step.answer) (use one in \<open>simp_all add: listening_def running_def\<close>)
  have s4: "main_step rt ?p4 ?p5" by (rule main_step.signal) (simp add: listening_def)
  have s5: "main_step rt ?p5 ?p6" by (rule main_step.drained) (simp_all add: listening_def)
  have leaving: "ps_stage ?p6 = Leaving" using assms by simp
  note step = converse_rtranclp_into_rtranclp [of "main_step rt"]
  show ?thesis
    by (rule exI, rule conjI, rule step [OF s0], rule step [OF s1], rule step [OF s2], rule step [OF s3],
        rule step [OF s4], rule step [OF s5], rule clean_up [OF leaving]) (simp add: listening_def)
qed

definition ex_runtime :: "mem wiring \<Rightarrow> logger option \<Rightarrow> mem runtime" where
  "ex_runtime wr lg = \<lparr>rt_wiring = wr, rt_logger = lg, rt_telemetry = False, rt_shutdownProvider = (\<lambda>w. w),
     rt_zapSync = (\<lambda>_ w. w), rt_closeListener = None\<rparr>"


section \<open>The shutdown ends\<close>

text \<open>
  After the signal every step but the passing of time brings the end nearer, and until the end
  there is always such a step.
\<close>

definition main_left :: "'w process \<Rightarrow> nat" where
  "main_left p =
     2 * ps_new p + length (ps_active p) + ps_idle p + length (ps_defers p) +
     (case ps_listener p of Binding \<Rightarrow> 2 | Failed \<Rightarrow> 1 | _ \<Rightarrow> 0) +
     (case ps_stage p of Serving \<Rightarrow> 3 | Draining _ \<Rightarrow> 2 | Leaving \<Rightarrow> 1 | Over _ \<Rightarrow> 0)"

lemma main_left_step:
  assumes "main_step rt p p'" and "ps_stage p \<noteq> Serving"
  shows "ps_stage p' \<noteq> Serving \<and> ((\<exists>d>0. p' = p\<lparr>ps_now := ps_now p + d\<rparr>) \<or> main_left p' < main_left p)"
  using assms
proof cases
  case (time_passes d)
  then show ?thesis using assms(2) by auto
next
  case bind_error
  then show ?thesis using assms(2) by (auto simp: main_left_def)
qed (auto simp: main_left_def running_stages after_fatal_def split: listener.splits)

lemma main_goes_on:
  assumes "running p" and "ps_stage p \<noteq> Serving"
  shows "\<exists>p'. main_step rt p p' \<and> main_left p' < main_left p"
proof -
  consider dl where "ps_stage p = Draining dl" | "ps_stage p = Leaving"
    using assms by (auto simp: running_stages)
  then show ?thesis
  proof cases
    case (1 dl)
    show ?thesis
    proof (cases "ps_active p")
      case (Cons rq rqs)
      obtain reply s w where "api (rt_wiring rt) rq (ps_server p) (ps_world p) = (reply, s, w)" by (metis prod_cases3)
      from main_step.answer [OF assms(1) _ this, where front = "[]" and rest = rqs] show ?thesis
        using Cons 1 by (fastforce simp: main_left_def)
    next
      case active: Nil
      show ?thesis
      proof (cases "ps_new p")
        case 0
        show ?thesis
          by (rule exI, rule conjI, rule main_step.drained [OF 1 active 0]) (simp add: main_left_def after_fatal_def 1)
      next
        case (Suc n)
        show ?thesis
          by (rule exI, rule conjI, rule main_step.hang_up_new [OF assms(1) Suc]) (simp add: main_left_def Suc)
      qed
    qed
  next
    case 2
    show ?thesis
    proof (cases "ps_defers p")
      case Nil
      show ?thesis
        by (rule exI, rule conjI, rule main_step.returned [OF 2 Nil]) (simp add: main_left_def 2)
    next
      case (Cons c cs)
      show ?thesis
        by (rule exI, rule conjI, rule main_step.deferred [OF 2 Cons]) (simp add: main_left_def Cons)
    qed
  qed
qed

end
