(* ===== verification/LoadTest.thy ===== *)
theory LoadTest
  imports ChatCore Admin
begin

text \<open>
  \<open>scripts/loadtest/main.go\<close>: the body it sends, one request, the workers that share the
  requests through channels, and the report.  The goroutines are a step relation: every
  interleaving of the feeder, the workers and the collector is a sequence of steps.
\<close>

section \<open>Requests\<close>

record load_options =
  lo_url :: string
  lo_apiKey :: string
  lo_model :: string
  lo_prompt :: string
  lo_requests :: int
  lo_concurrency :: int

record load_result =
  lt_statusCode :: int
  lt_latency :: duration
  lt_err :: "string option"

definition load_json :: "string \<Rightarrow> string \<Rightarrow> json" where
  "load_json model prompt =
     JObj [(''model'', JStr model),
       (''messages'', JArr [JObj [(''role'', JStr ''user''), (''content'', JStr prompt)]]),
       (''stream'', JBool False)]"

definition load_body :: "string \<Rightarrow> string \<Rightarrow> string" where
  "load_body model prompt = render (load_json model prompt)"

definition doRequest ::
  "'w http_ops \<Rightarrow> string \<Rightarrow> string \<Rightarrow> string \<Rightarrow> 'w \<Rightarrow> load_result \<times> 'w" where
  "doRequest http url apiKey body w =
     (case ht_NewRequest http ''POST'' url of
        Some e \<Rightarrow> (\<lparr>lt_statusCode = 0, lt_latency = 0, lt_err = Some e\<rparr>, w)
      | None \<Rightarrow>
          let headers = [(''Content-Type'', ''application/json'')] @
                (if apiKey \<noteq> '''' then [(''Authorization'', ''Bearer '' @ apiKey)] else []);
              (started, w) = ht_Now http w;
              (resp, w) = ht_Do http \<lparr>hq_Method = ''POST'', hq_URL = url, hq_Headers = headers, hq_Body = body\<rparr> w;
              (t, w) = ht_Now http w;
              latency = time_sub t started
          in case resp of
               Inl e \<Rightarrow> (\<lparr>lt_statusCode = 0, lt_latency = latency, lt_err = Some e\<rparr>, w)
             | Inr r \<Rightarrow> (\<lparr>lt_statusCode = hs_StatusCode r, lt_latency = latency, lt_err = None\<rparr>, w))"

section \<open>Workers\<close>

text \<open>
  A worker waits for a job, does the request, has put its result into the channel and is about
  to count it, or has left its loop.
\<close>

datatype load_worker = Waiting | Requesting | Reporting | Exited

record load_state =
  ld_todo :: nat
  ld_workers :: "load_worker list"
  ld_results :: "load_result list"
  ld_completed :: int
  ld_closed :: bool
  ld_collected :: "load_result list"

definition load_start :: "load_options \<Rightarrow> string + load_state" where
  "load_start opts =
     (if lo_requests opts \<le> 0 then Inl ''requests must be > 0''
      else if lo_concurrency opts \<le> 0 then Inl ''concurrency must be > 0''
      else Inr \<lparr>ld_todo = nat (lo_requests opts), ld_workers = replicate (nat (lo_concurrency opts)) Waiting,
             ld_results = [], ld_completed = 0, ld_closed = False, ld_collected = []\<rparr>)"

text \<open>
  \<open>jobs\<close> has no buffer, so a send is a receive by a waiting worker, and it is closed when the
  feeder has sent all; \<open>results\<close> has room for \<open>cap\<close> results and is closed when every worker
  has left.  \<open>answer\<close> are the results a request can have.
\<close>

inductive load_step :: "nat \<Rightarrow> (load_result \<Rightarrow> bool) \<Rightarrow> load_state \<Rightarrow> load_state \<Rightarrow> bool"
  for cap :: nat and answer :: "load_result \<Rightarrow> bool" where
  take_job: "ld_todo s = Suc n \<Longrightarrow> i < length (ld_workers s) \<Longrightarrow> ld_workers s ! i = Waiting \<Longrightarrow>
    load_step cap answer s (s\<lparr>ld_todo := n, ld_workers := (ld_workers s)[i := Requesting]\<rparr>)"
| reply: "i < length (ld_workers s) \<Longrightarrow> ld_workers s ! i = Requesting \<Longrightarrow> answer r \<Longrightarrow>
    length (ld_results s) < cap \<Longrightarrow>
    load_step cap answer s
      (s\<lparr>ld_workers := (ld_workers s)[i := Reporting], ld_results := ld_results s @ [r]\<rparr>)"
| add_completed: "i < length (ld_workers s) \<Longrightarrow> ld_workers s ! i = Reporting \<Longrightarrow>
    load_step cap answer s
      (s\<lparr>ld_workers := (ld_workers s)[i := Waiting], ld_completed := ld_completed s + 1\<rparr>)"
| leave: "ld_todo s = 0 \<Longrightarrow> i < length (ld_workers s) \<Longrightarrow> ld_workers s ! i = Waiting \<Longrightarrow>
    load_step cap answer s (s\<lparr>ld_workers := (ld_workers s)[i := Exited]\<rparr>)"
| close_results: "\<not> ld_closed s \<Longrightarrow> list_all (\<lambda>p. p = Exited) (ld_workers s) \<Longrightarrow>
    load_step cap answer s (s\<lparr>ld_closed := True\<rparr>)"
| collect: "ld_results s = r # rs \<Longrightarrow>
    load_step cap answer s (s\<lparr>ld_results := rs, ld_collected := ld_collected s @ [r]\<rparr>)"

text \<open>The loop over the results ends when the channel is closed and drained.\<close>

definition load_done :: "load_state \<Rightarrow> bool" where
  "load_done s \<longleftrightarrow> ld_closed s \<and> ld_results s = []"

section \<open>The report\<close>

text \<open>\<open>int(x)\<close> of a \<open>float64\<close>; what is not a number in range becomes the least integer, as on amd64.\<close>

definition f64_trunc :: "f64 \<Rightarrow> int" where
  "f64_trunc x =
     (case x of
        Fin q \<Rightarrow> let n = (if 0 \<le> q then \<lfloor>q\<rfloor> else \<lceil>q\<rceil>) in if - (2 ^ 63) \<le> n \<and> n < 2 ^ 63 then n else - (2 ^ 63)
      | _ \<Rightarrow> - (2 ^ 63))"

text \<open>\<open>sort.Float64s\<close>: ascending, NaN first.\<close>

fun f64_insert :: "f64 \<Rightarrow> f64 list \<Rightarrow> f64 list" where
  "f64_insert x [] = [x]"
| "f64_insert x (y # ys) = (if x = NaN \<or> x \<le> y then x # y # ys else y # f64_insert x ys)"

definition f64_sort :: "f64 list \<Rightarrow> f64 list" where
  "f64_sort xs = foldr f64_insert xs []"

definition percentile :: "f64 list \<Rightarrow> f64 \<Rightarrow> f64" where
  "percentile xs p =
     (if xs = [] then 0
      else
        let n = int (length xs);
            idx = f64_trunc ((p / Fin 100) * f64_of_int (n - 1));
            idx = (if idx < 0 then 0 else idx);
            idx = (if idx \<ge> n then n - 1 else idx)
        in xs ! nat idx)"

definition avg :: "f64 list \<Rightarrow> f64" where
  "avg items = (if items = [] then 0 else foldl (+) 0 items / f64_of_int (int (length items)))"

record load_latency =
  la_avg :: f64
  la_p50 :: f64
  la_p95 :: f64
  la_p99 :: f64
  la_max :: f64

record load_report =
  lp_rps :: f64
  lp_errors :: int
  lp_statuses :: "int \<rightharpoonup> int"
  lp_latency :: "load_latency option"

definition add_result :: "load_result \<Rightarrow> int \<times> (int \<rightharpoonup> int) \<times> f64 list \<Rightarrow> int \<times> (int \<rightharpoonup> int) \<times> f64 list" where
  "add_result r acc =
     (case acc of (errCount, statuses, latencies) \<Rightarrow>
        if lt_err r \<noteq> None then (errCount + 1, statuses, latencies)
        else
          (errCount,
           statuses(lt_statusCode r \<mapsto> (case statuses (lt_statusCode r) of None \<Rightarrow> 0 | Some k \<Rightarrow> k) + 1),
           latencies @ [f64_of_int (duration_ms (lt_latency r))]))"

definition load_report :: "load_state \<Rightarrow> duration \<Rightarrow> load_report" where
  "load_report s elapsed =
     (let (errCount, statuses, latencies) = fold add_result (ld_collected s) (0, Map.empty, []);
          total = f64_of_int (ld_completed s);
          rps = (if 0 < duration_seconds elapsed then total / duration_seconds elapsed else 0);
          latencies = f64_sort latencies
      in \<lparr>lp_rps = rps, lp_errors = errCount, lp_statuses = statuses,
          lp_latency =
            (if latencies = [] then None
             else Some \<lparr>la_avg = avg latencies, la_p50 = percentile latencies (Fin 50),
               la_p95 = percentile latencies (Fin 95), la_p99 = percentile latencies (Fin 99),
               la_max = latencies ! (length latencies - 1)\<rparr>)\<rparr>)"

section \<open>What it sends is a request\<close>

lemma decode_render:
  assumes "json_ok j" and "json_depth j \<le> max_depth"
  obtains r where "json_decode (render j) = Some (j, r)"
  using json_roundtrip [OF assms] unfolding json_parse_def by (auto split: option.splits if_splits)

definition load_request :: "string \<Rightarrow> string \<Rightarrow> chat_request" where
  "load_request model prompt =
     chat_request_zero\<lparr>hr_Model := model, hr_Messages := [\<lparr>hm_Role = ''user'', hm_Content = prompt, hm_Name = ''''\<rparr>]\<rparr>"

lemma load_json_ok:
  assumes "valid_utf8 model" and "valid_utf8 prompt"
  shows "json_ok (load_json model prompt)" "json_depth (load_json model prompt) \<le> max_depth"
proof -
  have ascii: "valid_utf8 ''model''" "valid_utf8 ''messages''" "valid_utf8 ''role''" "valid_utf8 ''content''"
    "valid_utf8 ''stream''" "valid_utf8 ''user''" by code_simp+
  show "json_ok (load_json model prompt)" using assms ascii by (simp add: load_json_def)
  show "json_depth (load_json model prompt) \<le> max_depth" by (simp add: load_json_def)
qed

text \<open>
  The gateway binds the body to the request with that model and prompt, and lets it pass unless
  one of them is blank.
\<close>
lemma load_body_binds:
  assumes "valid_utf8 model" and "valid_utf8 prompt"
  shows "bind_json dec_chat_request chat_request_zero err (Some (load_body model prompt)) = Inr (load_request model prompt)"
    and "validateChatRequest (load_request model prompt) = None \<longleftrightarrow> trim_space model \<noteq> '''' \<and> trim_space prompt \<noteq> ''''"
proof -
  have dec: "dec_chat_request (load_json model prompt) chat_request_zero = Some (load_request model prompt)"
    by (simp add: dec_chat_request_def chat_request_fields_def load_json_def decode_simps dec_slice_def
        dec_chat_message_def dec_bool_def chat_request_zero_def load_request_def)
  obtain r where "json_decode (render (load_json model prompt)) = Some (load_json model prompt, r)"
    by (rule decode_render [OF load_json_ok [OF assms]])
  with dec show "bind_json dec_chat_request chat_request_zero err (Some (load_body model prompt)) =
      Inr (load_request model prompt)"
    by (simp add: bind_json_def load_body_def)
  have "trim_space ''user'' = ''user''" by code_simp
  then show "validateChatRequest (load_request model prompt) = None \<longleftrightarrow> trim_space model \<noteq> '''' \<and> trim_space prompt \<noteq> ''''"
    by (simp add: validateChatRequest_def load_request_def chat_request_zero_def zero_f64_def one_f64_def)
qed

section \<open>Every schedule ends\<close>

abbreviation phases :: "load_worker \<Rightarrow> load_worker list \<Rightarrow> nat" where
  "phases p ws \<equiv> length (filter ((=) p) ws)"

lemma phases_update:
  "i < length ws \<Longrightarrow>
    phases p (ws[i := q]) + (if ws ! i = p then 1 else 0) = phases p ws + (if q = p then 1 else 0)"
proof (induction ws arbitrary: i)
  case (Cons x ws)
  show ?case
  proof (cases i)
    case (Suc j)
    then show ?thesis using Cons.IH [of j] Cons.prems by (auto split: if_splits)
  qed simp
qed simp

lemma phases_pos: "i < length ws \<Longrightarrow> ws ! i = p \<Longrightarrow> 0 < phases p ws"
  by (metis (mono_tags, lifting) filter_empty_conv length_greater_0_conv nth_mem)

lemma phases_all: "list_all (\<lambda>p. p = Exited) ws \<Longrightarrow> p \<noteq> Exited \<Longrightarrow> phases p ws = 0"
  by (auto simp: list_all_iff filter_empty_conv)

text \<open>The steps that are left: four for a job, one for leaving a loop, one to close the channel.\<close>

definition load_left :: "load_state \<Rightarrow> nat" where
  "load_left s =
     4 * ld_todo s + phases Waiting (ld_workers s) + 4 * phases Requesting (ld_workers s) +
     2 * phases Reporting (ld_workers s) + length (ld_results s) + (if ld_closed s then 0 else 1)"

lemma load_step_left:
  assumes "load_step cap answer s s'"
  shows "load_left s = Suc (load_left s')"
  using assms
proof cases
  case (take_job n i)
  then show ?thesis
    using phases_update [of i "ld_workers s" Waiting Requesting] phases_update [of i "ld_workers s" Requesting Requesting]
      phases_update [of i "ld_workers s" Reporting Requesting] by (simp add: load_left_def)
next
  case (reply i r)
  then show ?thesis
    using phases_update [of i "ld_workers s" Waiting Reporting] phases_update [of i "ld_workers s" Requesting Reporting]
      phases_update [of i "ld_workers s" Reporting Reporting] by (simp add: load_left_def)
next
  case (add_completed i)
  then show ?thesis
    using phases_update [of i "ld_workers s" Waiting Waiting] phases_update [of i "ld_workers s" Requesting Waiting]
      phases_update [of i "ld_workers s" Reporting Waiting] by (simp add: load_left_def)
next
  case (leave i)
  then show ?thesis
    using phases_update [of i "ld_workers s" Waiting Exited] phases_update [of i "ld_workers s" Requesting Exited]
      phases_update [of i "ld_workers s" Reporting Exited] by (simp add: load_left_def)
qed (simp_all add: load_left_def)

text \<open>Every request is in exactly one place, and every result that was put out is counted.\<close>

definition load_inv :: "nat \<Rightarrow> load_state \<Rightarrow> bool" where
  "load_inv n s \<longleftrightarrow>
     ld_todo s + phases Requesting (ld_workers s) + length (ld_results s) + length (ld_collected s) = n \<and>
     ld_completed s + int (phases Reporting (ld_workers s)) = int (length (ld_results s) + length (ld_collected s)) \<and>
     (ld_closed s \<longrightarrow> list_all (\<lambda>p. p = Exited) (ld_workers s)) \<and>
     (Exited \<in> set (ld_workers s) \<longrightarrow> ld_todo s = 0)"

lemma load_inv_step:
  assumes "load_step cap answer s s'" and "load_inv n s"
  shows "load_inv n s'"
proof -
  have busy: "\<not> ld_closed s" if "i < length (ld_workers s)" "ld_workers s ! i \<noteq> Exited" for i
    using assms(2) that by (auto simp: load_inv_def list_all_length)
  have fin: "Exited \<in> set (ws[i := p]) \<Longrightarrow> p \<noteq> Exited \<Longrightarrow> Exited \<in> set ws" for ws i p
    using set_update_subset_insert [of ws i p] by auto
  from assms(1) show ?thesis
  proof cases
    case (take_job k i)
    then show ?thesis
      using assms(2) busy [of i] fin phases_update [of i "ld_workers s" Requesting Requesting]
        phases_update [of i "ld_workers s" Reporting Requesting] by (auto simp: load_inv_def)
  next
    case (reply i r)
    then show ?thesis
      using assms(2) busy [of i] fin phases_update [of i "ld_workers s" Requesting Reporting]
        phases_update [of i "ld_workers s" Reporting Reporting] by (auto simp: load_inv_def)
  next
    case (add_completed i)
    then show ?thesis
      using assms(2) busy [of i] fin phases_update [of i "ld_workers s" Requesting Waiting]
        phases_update [of i "ld_workers s" Reporting Waiting] by (auto simp: load_inv_def)
  next
    case (leave i)
    then show ?thesis
      using assms(2) busy [of i] phases_update [of i "ld_workers s" Requesting Exited]
        phases_update [of i "ld_workers s" Reporting Exited] by (auto simp: load_inv_def)
  next
    case close_results
    then show ?thesis using assms(2) by (simp add: load_inv_def)
  next
    case (collect r rs)
    then show ?thesis using assms(2) by (simp add: load_inv_def)
  qed
qed

lemma load_step_workers: "load_step cap answer s s' \<Longrightarrow> length (ld_workers s') = length (ld_workers s)"
  by (erule load_step.cases) simp_all

lemma load_step_answers:
  "load_step cap answer s s' \<Longrightarrow> list_all answer (ld_results s @ ld_collected s) \<Longrightarrow>
    list_all answer (ld_results s' @ ld_collected s')"
  by (erule load_step.cases) auto

lemma load_progress:
  assumes "load_inv n s" and "ld_workers s \<noteq> []" and "answer r" and "\<not> load_done s"
  shows "\<exists>s'. load_step n answer s s'"
proof (cases "ld_results s")
  case (Cons x rs)
  then show ?thesis by (blast intro: load_step.collect)
next
  case Nil
  then have "\<not> ld_closed s" using assms(4) by (simp add: load_done_def)
  show ?thesis
  proof (cases "list_all (\<lambda>p. p = Exited) (ld_workers s)")
    case True
    then show ?thesis using \<open>\<not> ld_closed s\<close> by (blast intro: load_step.close_results)
  next
    case False
    then obtain i where i: "i < length (ld_workers s)" "ld_workers s ! i \<noteq> Exited"
      by (auto simp: list_all_length)
    show ?thesis
    proof (cases "ld_workers s ! i")
      case Waiting
      then show ?thesis using i(1) by (cases "ld_todo s") (blast intro: load_step.take_job load_step.leave)+
    next
      case Requesting
      have "length (ld_results s) < n"
        using assms(1) phases_pos [OF i(1) Requesting] unfolding load_inv_def by linarith
      then show ?thesis using i(1) Requesting assms(3) by (blast intro: load_step.reply)
    next
      case Reporting
      then show ?thesis using i(1) by (blast intro: load_step.add_completed)
    qed (use i in simp)
  qed
qed

lemma load_done_all:
  assumes "load_inv n s" and "ld_workers s \<noteq> []" and "load_done s"
  shows "length (ld_collected s) = n" "ld_completed s = int n" "load_left s = 0"
proof -
  have "list_all (\<lambda>p. p = Exited) (ld_workers s)" "ld_results s = []" "ld_closed s"
    using assms(1,3) by (simp_all add: load_inv_def load_done_def)
  moreover from this have "ld_todo s = 0"
    using assms(1,2) by (cases "ld_workers s") (auto simp: load_inv_def)
  ultimately show "length (ld_collected s) = n" "ld_completed s = int n" "load_left s = 0"
    using assms(1) phases_all [of "ld_workers s"] by (simp_all add: load_inv_def load_left_def)
qed

lemma load_start_inv:
  assumes "load_start opts = Inr s"
  shows "load_inv (nat (lo_requests opts)) s" "length (ld_workers s) = nat (lo_concurrency opts)"
    "0 < lo_concurrency opts" "0 < lo_requests opts" "ld_results s @ ld_collected s = []"
    "load_left s = 4 * nat (lo_requests opts) + nat (lo_concurrency opts) + 1"
  using assms by (auto simp: load_start_def load_inv_def load_left_def split: if_splits)

lemma load_run:
  assumes "(load_step cap answer ^^ k) s s'" and "load_inv n s" and "list_all answer (ld_results s @ ld_collected s)"
  shows "load_inv n s' \<and> load_left s = load_left s' + k \<and> length (ld_workers s') = length (ld_workers s) \<and>
    list_all answer (ld_results s' @ ld_collected s')"
  using assms(1)
proof (induction k arbitrary: s')
  case (Suc k)
  then obtain t where "(load_step cap answer ^^ k) s t" and step: "load_step cap answer t s'" by auto
  from Suc.IH [OF this(1)] show ?case
    using load_inv_step [OF step] load_step_left [OF step] load_step_workers [OF step] load_step_answers [OF step]
    by simp
qed (use assms(2,3) in simp)

text \<open>
  Claim C40. The load test always ends, and loses nothing.  However the feeder, the workers and
  the collector interleave, and whatever the target answers, a run of \<open>n\<close> requests over \<open>c\<close>
  workers takes exactly \<open>4 n + c + 1\<close> steps: before that some step is always possible (no
  deadlock), and after it the collector is done, holds exactly \<open>n\<close> results, each one that
  \<open>doRequest\<close> gave, and the counter of completed requests is \<open>n\<close>.
\<close>
theorem load_schedule:
  assumes "load_start opts = Inr s" and "(load_step (nat (lo_requests opts)) answer ^^ k) s s'"
    and "answer = (\<lambda>r. \<exists>w w'. doRequest http (lo_url opts) (lo_apiKey opts) (load_body (lo_model opts) (lo_prompt opts)) w = (r, w'))"
  shows "k \<le> 4 * nat (lo_requests opts) + nat (lo_concurrency opts) + 1 \<and>
    (k < 4 * nat (lo_requests opts) + nat (lo_concurrency opts) + 1 \<longleftrightarrow>
      (\<exists>t. load_step (nat (lo_requests opts)) answer s' t)) \<and>
    (k = 4 * nat (lo_requests opts) + nat (lo_concurrency opts) + 1 \<longleftrightarrow> load_done s') \<and>
    (load_done s' \<longrightarrow> int (length (ld_collected s')) = lo_requests opts \<and> ld_completed s' = lo_requests opts) \<and>
    list_all answer (ld_collected s') \<and> length (ld_results s') \<le> nat (lo_requests opts)"
proof -
  let ?n = "nat (lo_requests opts)"
  note start = load_start_inv [OF assms(1)]
  have run: "load_inv ?n s'" "load_left s = load_left s' + k" "length (ld_workers s') = length (ld_workers s)"
    "list_all answer (ld_results s' @ ld_collected s')"
    using load_run [OF assms(2) start(1)] start(5) by simp_all
  have ws: "ld_workers s' \<noteq> []" using run(3) start(2,3) by auto
  obtain r where "answer r" using assms(3) by (metis prod.collapse)
  then have go: "\<not> load_done s' \<Longrightarrow> \<exists>t. load_step ?n answer s' t" using load_progress [OF run(1) ws] by blast
  have left: "\<exists>t. load_step ?n answer s' t \<Longrightarrow> 0 < load_left s'" using load_step_left by fastforce
  note fin = load_done_all [OF run(1) ws]
  have "length (ld_results s') \<le> ?n" using run(1) by (simp add: load_inv_def)
  then show ?thesis
    using go left fin run(2,4) start(4,6) by (cases "load_done s'") auto
qed

lemma load_ends:
  assumes "load_inv n s" and "ld_workers s \<noteq> []" and "answer r"
  shows "\<exists>k s'. (load_step n answer ^^ k) s s' \<and> load_done s'"
  using assms(1,2)
proof (induction "load_left s" arbitrary: s rule: less_induct)
  case less
  show ?case
  proof (cases "load_done s")
    case True
    then show ?thesis by (intro exI [of _ 0] exI [of _ s]) simp
  next
    case False
    then obtain t where t: "load_step n answer s t" using load_progress less.prems assms(3) by blast
    have "ld_workers t \<noteq> []" using load_step_workers [OF t] less.prems(2) by auto
    then obtain k s' where "(load_step n answer ^^ k) t s'" "load_done s'"
      using less.hyps [of t] load_step_left [OF t] load_inv_step [OF t less.prems(1)] by auto
    then show ?thesis using t by (intro exI [of _ "Suc k"] exI [of _ s'] conjI relpowp_Suc_I2)
  qed
qed

definition ex_load :: load_options where
  "ex_load = \<lparr>lo_url = ''http://localhost:8080/v1/chat/completions'', lo_apiKey = '''', lo_model = ''gpt-4'',
     lo_prompt = ''hello'', lo_requests = 3, lo_concurrency = 2\<rparr>"

definition ex_http :: "unit http_ops" where
  "ex_http = \<lparr>ht_NewRequest = (\<lambda>m u. None), ht_Do = (\<lambda>rq w. (Inr \<lparr>hs_StatusCode = 200, hs_Body = Inr ''''\<rparr>, w)),
     ht_Sleep = (\<lambda>d w. (None, w)), ht_Now = (\<lambda>w. (0, w))\<rparr>"

lemma ex_load_run:
  "\<exists>s k s'. load_start ex_load = Inr s \<and> (load_step (nat (lo_requests ex_load)) answer ^^ k) s s' \<and> load_done s'"
  if "\<exists>r. answer r"
proof -
  obtain s where s: "load_start ex_load = Inr s" by (simp add: load_start_def ex_load_def)
  then have "ld_workers s \<noteq> []" using load_start_inv(2,3) [OF s] by auto
  then show ?thesis using load_ends [OF load_start_inv(1) [OF s]] s that by blast
qed

theorem load_schedule_witness:
  "\<exists>s k s'. load_start ex_load = Inr s \<and> load_done s' \<and> k = 15 \<and> length (ld_collected s') = 3 \<and> ld_completed s' = 3"
proof -
  define answer where "answer = (\<lambda>r. \<exists>w w'. doRequest ex_http (lo_url ex_load) (lo_apiKey ex_load)
    (load_body (lo_model ex_load) (lo_prompt ex_load)) w = (r, w'))"
  then have "\<exists>r. answer r" by (metis prod.collapse)
  then obtain s k s' where run: "load_start ex_load = Inr s"
    "(load_step (nat (lo_requests ex_load)) answer ^^ k) s s'" "load_done s'" using ex_load_run by blast
  have "lo_requests ex_load = 3" "lo_concurrency ex_load = 2" by (simp_all add: ex_load_def)
  then have "k = 15" "int (length (ld_collected s')) = 3" "ld_completed s' = 3"
    using load_schedule [OF run(1,2) answer_def] run(3) by simp_all
  then show ?thesis using run(1,3) by (intro exI [of _ s] exI [of _ k] exI [of _ s']) auto
qed

section \<open>What the report says\<close>

lemma f64_insert_set: "set (f64_insert x ys) = insert x (set ys)"
  by (induction ys) auto

lemma f64_insert_sorted:
  "sorted_wrt (\<le>) ys \<Longrightarrow> NaN \<notin> insert x (set ys) \<Longrightarrow> sorted_wrt (\<le>) (f64_insert x ys)"
proof (induction ys)
  case (Cons y ys)
  then have "\<not> x \<le> y \<Longrightarrow> y \<le> x" using f64_le_total [of x y] by auto
  then show ?case using Cons by (auto simp: f64_insert_set intro: f64_le_trans)
qed simp

lemma f64_sort_set: "set (f64_sort xs) = set xs"
  by (induction xs) (simp_all add: f64_sort_def f64_insert_set)

lemma f64_sort_sorted: "NaN \<notin> set xs \<Longrightarrow> sorted_wrt (\<le>) (f64_sort xs)"
proof (induction xs)
  case (Cons x xs)
  have "f64_sort (x # xs) = f64_insert x (f64_sort xs)" by (simp add: f64_sort_def)
  then show ?case using Cons f64_insert_sorted [of "f64_sort xs" x] by (simp add: f64_sort_set)
qed (simp add: f64_sort_def)

lemma f64_insert_length: "length (f64_insert x ys) = Suc (length ys)"
  by (induction ys) auto

lemma f64_sort_length: "length (f64_sort xs) = length xs"
  by (induction xs) (simp_all add: f64_sort_def f64_insert_length)

lemma f64_sorted_nth:
  "sorted_wrt (\<le>) xs \<Longrightarrow> NaN \<notin> set xs \<Longrightarrow> i \<le> j \<Longrightarrow> j < length xs \<Longrightarrow> (xs ! i :: f64) \<le> xs ! j"
  by (cases "i = j") (simp_all add: sorted_wrt_iff_nth_less, metis f64_le_refl nth_mem)

text \<open>The index that a percentile selects.\<close>

lemma percentile_index:
  assumes "xs \<noteq> []" and "length xs \<le> 2 ^ 53" and "0 \<le> p" and "p \<le> 100"
  shows "percentile xs (Fin p) = xs ! nat \<lfloor>round_rat (round_rat (p / 100) * of_int (int (length xs) - 1))\<rfloor>"
    and "0 \<le> \<lfloor>round_rat (round_rat (p / 100) * of_int (int (length xs) - 1))\<rfloor>"
    and "\<lfloor>round_rat (round_rat (p / 100) * of_int (int (length xs) - 1))\<rfloor> \<le> int (length xs) - 1"
proof -
  define n where "n = int (length xs) - 1"
  have n: "0 \<le> n" "n \<le> 2 ^ 53" using assms(1,2) unfolding n_def by (cases xs; simp)+
  let ?a = "round_rat (p / 100)"
  have a: "0 \<le> ?a" "?a \<le> 1"
    using assms(3,4) round_rat_nonneg [of "p / 100"] round_rat_le_of_int [of "p / 100" 1] by simp_all
  let ?v = "round_rat (?a * of_int n)"
  have "?a * of_int n \<le> of_int n" using a n(1) by (simp add: mult_left_le_one_le)
  then have v: "0 \<le> ?v" "?v \<le> of_int n"
    using a n round_rat_nonneg [of "?a * of_int n"] round_rat_le_of_int [of "?a * of_int n" n] by simp_all
  have "of_int n \<le> (2 ^ 53 :: rat)" using n(2) by (metis of_int_le_iff of_int_numeral of_int_power)
  then have lim: "?v < f64_limit" "?a < f64_limit"
    using v(2) a(2) pow53_lt_limit by (auto intro: le_less_trans)
  have fin: "rnd (p / 100) = Fin ?a" "rnd (?a * of_int n) = Fin ?v"
    using lim a v by (simp_all add: rnd_finite)
  have "f64_of_int n = Fin (of_int n)" using n by (simp add: f64_of_int_small)
  then have "(Fin p / Fin 100) * f64_of_int n = Fin ?v" using fin by simp
  moreover have fl: "0 \<le> \<lfloor>?v\<rfloor>" "\<lfloor>?v\<rfloor> \<le> n" using v by (simp_all add: floor_le_iff)
  moreover have "?v < 2 ^ 63" using v(2) \<open>of_int n \<le> 2 ^ 53\<close> by simp
  then have "f64_trunc (Fin ?v) = \<lfloor>?v\<rfloor>" using v(1) by (simp add: f64_trunc_def Let_def)
  ultimately show "percentile xs (Fin p) = xs ! nat \<lfloor>round_rat (?a * of_int (int (length xs) - 1))\<rfloor>"
    "0 \<le> \<lfloor>round_rat (?a * of_int (int (length xs) - 1))\<rfloor>"
    "\<lfloor>round_rat (?a * of_int (int (length xs) - 1))\<rfloor> \<le> int (length xs) - 1"
    using assms(1) fl unfolding percentile_def n_def [symmetric] by (simp_all add: Let_def n_def)
qed

lemma percentile_mono:
  assumes "xs \<noteq> []" and "length xs \<le> 2 ^ 53" and "0 \<le> p" and "p \<le> q" and "q \<le> 100"
    and "sorted_wrt (\<le>) xs" and "NaN \<notin> set xs"
  shows "percentile xs (Fin p) \<le> percentile xs (Fin q)" "percentile xs (Fin q) \<le> xs ! (length xs - 1)"
    "percentile xs (Fin q) \<in> set xs"
proof -
  let ?i = "\<lambda>p. \<lfloor>round_rat (round_rat (p / 100) * of_int (int (length xs) - 1))\<rfloor>"
  have "0 \<le> int (length xs) - 1" using assms(1) by (cases xs) simp_all
  then have n: "(0 :: rat) \<le> of_int (int (length xs) - 1)" by (metis of_int_0_le_iff)
  have "round_rat (p / 100) \<le> round_rat (q / 100)" using assms(4) by (intro round_rat_mono) simp
  then have "?i p \<le> ?i q" by (intro floor_mono round_rat_mono [OF mult_right_mono] n)
  note q = percentile_index [OF assms(1,2) order.trans [OF assms(3,4)] assms(5)]
  note p = percentile_index [OF assms(1,2,3) order.trans [OF assms(4,5)]]
  have len: "nat (?i q) < length xs" using q(2,3) assms(1) by (cases xs) auto
  show "percentile xs (Fin p) \<le> percentile xs (Fin q)"
    unfolding p(1) q(1) using \<open>?i p \<le> ?i q\<close> len assms(6,7) by (intro f64_sorted_nth) auto
  show "percentile xs (Fin q) \<le> xs ! (length xs - 1)"
    unfolding q(1) using len assms(1,6,7) by (intro f64_sorted_nth) auto
  show "percentile xs (Fin q) \<in> set xs" unfolding q(1) using len by simp
qed

abbreviation load_ok :: "load_result \<Rightarrow> bool" where
  "load_ok r \<equiv> lt_err r = None"

abbreviation latency_ms :: "load_result \<Rightarrow> f64" where
  "latency_ms r \<equiv> f64_of_int (duration_ms (lt_latency r))"

lemma fold_add_result:
  "fold add_result rs (0, Map.empty, []) =
     (int (length (filter (\<lambda>r. \<not> load_ok r) rs)),
      (\<lambda>c. let k = length (filter (\<lambda>r. load_ok r \<and> lt_statusCode r = c) rs) in if k = 0 then None else Some (int k)),
      map latency_ms (filter load_ok rs))"
proof (induction rs rule: rev_induct)
  case (snoc r rs)
  then show ?case by (cases "load_ok r") (auto simp: add_result_def Let_def fun_eq_iff)
qed simp

lemma load_sum: "length (filter (\<lambda>r. \<not> P r) xs) + length (filter P xs) = length xs"
  by (induction xs) auto

abbreviation load_latencies :: "load_state \<Rightarrow> f64 list" where
  "load_latencies s \<equiv> f64_sort (map latency_ms (filter load_ok (ld_collected s)))"

lemma load_report_parts:
  "lp_errors (load_report s elapsed) = int (length (filter (\<lambda>r. \<not> load_ok r) (ld_collected s)))"
  "lp_statuses (load_report s elapsed) c =
    (let n = length (filter (\<lambda>r. load_ok r \<and> lt_statusCode r = c) (ld_collected s))
     in if n = 0 then None else Some (int n))"
  "lp_latency (load_report s elapsed) =
    (if load_latencies s = [] then None
     else Some \<lparr>la_avg = avg (load_latencies s), la_p50 = percentile (load_latencies s) (Fin 50),
       la_p95 = percentile (load_latencies s) (Fin 95), la_p99 = percentile (load_latencies s) (Fin 99),
       la_max = load_latencies s ! (length (load_latencies s) - 1)\<rparr>)"
  unfolding load_report_def fold_add_result Let_def prod.case load_report.simps by (rule refl)+

text \<open>
  The report of a finished load test adds up, and its percentiles are in order.  The
  failed requests and those that got an answer are all the requests; a status is listed with
  the number of requests that got it, and only when there is one; the latency line is missing
  exactly when every request failed, and otherwise the median, the 95th and the 99th
  percentile and the maximum ascend, all four are latencies that were measured, and no
  measured latency is above the maximum.
\<close>
lemma load_report_spec:
  assumes "load_start opts = Inr s" and "(load_step (nat (lo_requests opts)) answer ^^ k) s s'"
    and "load_done s'" and "lo_requests opts \<le> 2 ^ 53"
  shows "lp_errors (load_report s' elapsed) + int (length (filter load_ok (ld_collected s'))) = lo_requests opts \<and>
    lp_statuses (load_report s' elapsed) c =
      (let n = length (filter (\<lambda>r. load_ok r \<and> lt_statusCode r = c) (ld_collected s'))
       in if n = 0 then None else Some (int n)) \<and>
    (case lp_latency (load_report s' elapsed) of
       None \<Rightarrow> lp_errors (load_report s' elapsed) = lo_requests opts
     | Some l \<Rightarrow> lp_errors (load_report s' elapsed) < lo_requests opts \<and>
         la_p50 l \<le> la_p95 l \<and> la_p95 l \<le> la_p99 l \<and> la_p99 l \<le> la_max l \<and>
         {la_p50 l, la_p95 l, la_p99 l, la_max l} \<subseteq> latency_ms ` set (filter load_ok (ld_collected s')) \<and>
         (\<forall>r \<in> set (filter load_ok (ld_collected s')). latency_ms r \<le> la_max l))"
proof -
  note start = load_start_inv [OF assms(1)]
  have inv: "load_inv (nat (lo_requests opts)) s'" "length (ld_workers s') = length (ld_workers s)"
    using load_run [where answer = answer, OF assms(2) start(1)] start(5) by simp_all
  have "ld_workers s' \<noteq> []" using inv(2) start(2,3) by auto
  then have len: "int (length (ld_collected s')) = lo_requests opts"
    using load_done_all(1) [OF inv(1) _ assms(3)] start(4) by simp
  let ?ok = "filter load_ok (ld_collected s')" and ?xs = "load_latencies s'"
  have "length ?ok \<le> length (ld_collected s')" by simp
  then have "int (length ?ok) \<le> 2 ^ 53" using len assms(4) by linarith
  then have small: "length ?xs \<le> 2 ^ 53" by (simp add: f64_sort_length)
  have nan: "NaN \<notin> set ?xs" using rnd_not_NaN by (auto simp: f64_sort_set f64_of_int_def dest: sym)
  have sorted: "sorted_wrt (\<le>) ?xs" using nan by (intro f64_sort_sorted) (simp add: f64_sort_set)
  have total: "int (length (filter (\<lambda>r. \<not> load_ok r) (ld_collected s'))) + int (length ?ok) = lo_requests opts"
    using load_sum [of load_ok "ld_collected s'"] len by linarith
  have empty: "?xs = [] \<longleftrightarrow> ?ok = []" by (simp only: length_0_conv [symmetric] f64_sort_length length_map)
  show ?thesis
  proof (cases "?xs = []")
    case True
    then show ?thesis using empty total unfolding load_report_parts by (simp add: Let_def)
  next
    case False
    note mono = percentile_mono [OF False small _ _ _ sorted nan]
    have top: "?xs ! (length ?xs - 1) \<in> set ?xs" using False by simp
    have "\<forall>x \<in> set ?xs. x \<le> ?xs ! (length ?xs - 1)"
      using f64_sorted_nth [OF sorted nan] False by (auto simp: in_set_conv_nth)
    moreover have "set ?xs = latency_ms ` set ?ok" by (simp only: f64_sort_set set_map)
    moreover have "0 < length ?ok" using False empty by simp
    then have "int (length (filter (\<lambda>r. \<not> load_ok r) (ld_collected s'))) < lo_requests opts" using total by linarith
    moreover note mono [of 50 50] mono [of 50 95] mono [of 95 99]
    ultimately show ?thesis using False total top unfolding load_report_parts by (simp add: Let_def)
  qed
qed

end
