(* ===== verification/RegistryConc.thy ===== *)
theory RegistryConc
  imports RegistryChat
begin

text \<open>
  Concurrent requests on one registry (\<open>internal/service/provider/registry.go\<close>): the loop of
  \<open>ChatCompletion\<close> cut at the points where other requests can run, which are the calls of the breakers'
  methods; between \<open>Allow\<close> and the record of the outcome a request waits for its upstream.
\<close>

section \<open>Requests in flight\<close>

text \<open>
  Where a request is: before the candidates it has left, waiting for the answer of one that it
  called at an instant, or past the loop; with \<open>lastErr\<close> and the skip count.
\<close>

datatype req_phase =
    Trying "route_candidate list" "upstream_error option" nat
  | Calling route_candidate time "route_candidate list" "upstream_error option" nat
  | Ended loop_result

text \<open>
  A step of the request \<open>i\<close>, with the call that it makes on the breaker of a key.  The clock
  reads any instant but the zero time and the upstream answers anything.
\<close>

inductive conc_step ::
  "'w registry \<Rightarrow> req_phase list \<Rightarrow> (string \<times> cb_event) list \<Rightarrow> 'w registry \<Rightarrow> req_phase list \<Rightarrow> bool" where
  no_client: "i < length ps \<Longrightarrow> ps ! i = Trying (c # cs) l s \<Longrightarrow> rg_providers r (rc_providerName c) = None \<Longrightarrow>
    conc_step r ps [] r (ps[i := Trying cs (Some (not_configured_error c)) s])"
| ask: "i < length ps \<Longrightarrow> ps ! i = Trying (c # cs) l s \<Longrightarrow> rg_providers r (rc_providerName c) \<noteq> None \<Longrightarrow>
    ensureCircuit r c = (b, r1) \<Longrightarrow> now \<noteq> 0 \<Longrightarrow> cb_Allow b now = (ok, b1) \<Longrightarrow>
    conc_step r ps [(circuitKey c, EvAllow now ok)] (put_circuit r1 c b1)
      (ps[i := if ok then Calling c now cs l s else Trying cs l (Suc s)])"
| answered: "i < length ps \<Longrightarrow> ps ! i = Calling c now cs l s \<Longrightarrow> rg_circuits r (circuitKey c) = Some b \<Longrightarrow>
    conc_step r ps [(circuitKey c, EvSuccess)] (put_circuit r c (cb_RecordSuccess b))
      (ps[i := Ended (Finished (Inr resp))])"
| tripped: "i < length ps \<Longrightarrow> ps ! i = Calling c now cs l s \<Longrightarrow> rg_circuits r (circuitKey c) = Some b \<Longrightarrow>
    now \<noteq> 0 \<Longrightarrow> shouldTripCircuit (Some err) \<Longrightarrow>
    conc_step r ps [(circuitKey c, EvFailure now)] (put_circuit r c (cb_RecordFailure b now))
      (ps[i := if shouldFallback (Some err) then Trying cs (Some err) s else Ended (Finished (Inl err))])"
| refused: "i < length ps \<Longrightarrow> ps ! i = Calling c now cs l s \<Longrightarrow> rg_circuits r (circuitKey c) = Some b \<Longrightarrow>
    \<not> shouldTripCircuit (Some err) \<Longrightarrow>
    conc_step r ps [(circuitKey c, EvSuccess)] (put_circuit r c (cb_RecordSuccess b))
      (ps[i := if shouldFallback (Some err) then Trying cs (Some err) s else Ended (Finished (Inl err))])"
| past_loop: "i < length ps \<Longrightarrow> ps ! i = Trying [] l s \<Longrightarrow>
    conc_step r ps [] r (ps[i := Ended (Exhausted l s)])"

inductive conc_run ::
  "'w registry \<Rightarrow> req_phase list \<Rightarrow> (string \<times> cb_event) list \<Rightarrow> 'w registry \<Rightarrow> req_phase list \<Rightarrow> bool" where
  conc_nil: "conc_run r ps [] r ps"
| conc_cons: "conc_step r ps es r1 ps1 \<Longrightarrow> conc_run r1 ps1 es' r' ps' \<Longrightarrow> conc_run r ps (es @ es') r' ps'"

section \<open>Every breaker sees a run of its calls\<close>

definition events_of :: "string \<Rightarrow> (string \<times> cb_event) list \<Rightarrow> cb_event list" where
  "events_of k es = map snd (filter (\<lambda>e. fst e = k) es)"

lemma events_of_simps [simp]:
  "events_of k [] = []" "events_of k ((k', e) # es) = (if k' = k then e # events_of k es else events_of k es)"
  "events_of k (es @ es') = events_of k es @ events_of k es'"
  by (simp_all add: events_of_def)

lemma events_of_set: "e \<in> set (events_of k es) \<longleftrightarrow> (k, e) \<in> set es"
  by (force simp: events_of_def)

text \<open>The breaker of a key; a key without one gets a fresh one when it is first asked for.\<close>

definition breaker_at :: "'w registry \<Rightarrow> string \<Rightarrow> circuit_breaker" where
  "breaker_at r k =
     (case rg_circuits r k of
        None \<Rightarrow> NewCircuitBreaker defaultFailureThreshold defaultOpenTimeout
      | Some b \<Rightarrow> b)"

lemma breaker_at_put: "breaker_at (put_circuit r c b) k = (if k = circuitKey c then b else breaker_at r k)"
  by (simp add: breaker_at_def put_circuit_def)

lemma breaker_at_known [simp]: "rg_circuits r k = Some b \<Longrightarrow> breaker_at r k = b"
  by (simp add: breaker_at_def)

lemma breaker_at_ensure:
  assumes "ensureCircuit r c = (b, r1)"
  shows "b = breaker_at r (circuitKey c)" "breaker_at r1 k = breaker_at r k"
  using assms by (auto simp: ensureCircuit_def breaker_at_def Let_def split: option.splits if_splits)

lemma cb_run_single: "cb_step b e b' \<Longrightarrow> cb_run b [e] b'"
  by (rule run_cons [OF _ run_nil])

lemma cb_run_append: "cb_run b es b' \<Longrightarrow> cb_run b' es' b'' \<Longrightarrow> cb_run b (es @ es') b''"
  by (induction rule: cb_run.induct) (auto intro: run_cons)

lemma conc_step_breaker:
  "conc_step r ps es r' ps' \<Longrightarrow> cb_run (breaker_at r k) (events_of k es) (breaker_at r' k)"
proof (induction rule: conc_step.induct)
  case (ask i ps c cs l s r b r1 now ok b1)
  then show ?case
    using breaker_at_ensure(1) [OF ask.hyps(4)] breaker_at_ensure(2) [OF ask.hyps(4), of k] by (auto simp: breaker_at_put intro!: run_nil cb_run_single step_allow)
next
  case (answered i ps c now cs l s r b resp)
  then show ?case by (auto simp: breaker_at_put intro!: run_nil cb_run_single step_success)
next
  case (tripped i ps c now cs l s r b err)
  then show ?case by (auto simp: breaker_at_put intro!: run_nil cb_run_single step_failure)
next
  case (refused i ps c now cs l s r b err)
  then show ?case by (auto simp: breaker_at_put intro!: run_nil cb_run_single step_success)
qed (auto intro: run_nil)

lemma conc_run_breaker:
  "conc_run r ps es r' ps' \<Longrightarrow> cb_run (breaker_at r k) (events_of k es) (breaker_at r' k)"
proof (induction rule: conc_run.induct)
  case (conc_cons r ps es r1 ps1 es' r' ps')
  then show ?case using cb_run_append [OF conc_step_breaker [OF conc_cons.hyps(1)]] by simp
qed (simp add: run_nil)

text \<open>A call that waits for its answer was begun before, or was allowed on the way.\<close>

lemma conc_step_length: "conc_step r ps es r' ps' \<Longrightarrow> length ps' = length ps"
  by (induction rule: conc_step.induct) simp_all

lemma conc_step_calling:
  assumes "conc_step r ps es r' ps'" and "i < length ps'" and "ps' ! i = Calling c now cs l s"
  shows "i < length ps \<and> (ps ! i = Calling c now cs l s \<or> (circuitKey c, EvAllow now True) \<in> set es)"
  using assms
  by (induction rule: conc_step.induct) (auto simp: nth_list_update split: if_splits)

lemma conc_run_calling:
  "conc_run r ps es r' ps' \<Longrightarrow> i < length ps' \<Longrightarrow> ps' ! i = Calling c now cs l s \<Longrightarrow>
    i < length ps \<and> (ps ! i = Calling c now cs l s \<or> (circuitKey c, EvAllow now True) \<in> set es)"
proof (induction rule: conc_run.induct)
  case (conc_cons r ps es r1 ps1 es' r' ps')
  then have "i < length ps1" "ps1 ! i = Calling c now cs l s \<or> (circuitKey c, EvAllow now True) \<in> set es'"
    by auto
  then show ?case using conc_step_calling [OF conc_cons.hyps(1), of i c now cs l s] conc_step_length [OF conc_cons.hyps(1)] by auto
qed simp

section \<open>The sequential loop is one of the runs\<close>

lemma conc_run_after: "conc_step r ps es r1 ps1 \<Longrightarrow> \<exists>es'. conc_run r1 ps1 es' r' ps' \<Longrightarrow> \<exists>es. conc_run r ps es r' ps'"
  by (blast intro: conc_cons)

lemma conc_run_two:
  "conc_step r ps es r1 ps1 \<Longrightarrow> conc_step r1 ps1 es1 r2 ps2 \<Longrightarrow> \<exists>es'. conc_run r2 ps2 es' r' ps' \<Longrightarrow>
    \<exists>es. conc_run r ps es r' ps'"
  by (blast intro: conc_cons)

lemma conc_ended: "\<exists>es. conc_run r ps es r ps"
  by (blast intro: conc_nil)

text \<open>One pass of the loop, by one request alone.\<close>

lemma attempt_route_conc:
  assumes "attempt_route sys r req c w = (a, r1, w1)" and "\<And>w. fst (registry_now sys r w) \<noteq> 0"
    and "\<exists>es. conc_run r1
      [case a of
         NoClient \<Rightarrow> Trying cs (Some (not_configured_error c)) s
       | Blocked \<Rightarrow> Trying cs l (Suc s)
       | Succeeded resp \<Rightarrow> Ended (Finished (Inr resp))
       | Failed err \<Rightarrow> if shouldFallback (Some err) then Trying cs (Some err) s else Ended (Finished (Inl err))] es r' ps'"
  shows "\<exists>es. conc_run r [Trying (c # cs) l s] es r' ps'"
proof (cases "rg_providers r (rc_providerName c)")
  case None
  then have "a = NoClient" "r1 = r" using assms(1) by (simp_all add: attempt_route_def)
  with None assms(3) show ?thesis
    using conc_run_after [OF no_client [where i = 0 and ps = "[Trying (c # cs) l s]" and r = r]] by simp
next
  case (Some client)
  obtain b re where e: "ensureCircuit r c = (b, re)" by fastforce
  obtain now v where n: "registry_now sys re w = (now, v)" by fastforce
  obtain ok b1 where al: "cb_Allow b now = (ok, b1)" by fastforce
  have "now \<noteq> 0"
    using assms(2) [of w] n registry_now_frame [OF registry_frame_ensure [OF e], of sys] by (metis fst_conv)
  note asked = ask [where i = 0 and ps = "[Trying (c # cs) l s]", OF _ _ _ e this al]
  show ?thesis
  proof (cases ok)
    case False
    then have "a = Blocked" "r1 = put_circuit re c b1"
      using assms(1) by (simp_all add: attempt_route_def Some e n al)
    then show ?thesis using conc_run_after [OF asked] assms(3) Some False by simp
  next
    case True
    let ?r1 = "put_circuit re c b1"
    have calling: "conc_step r [Trying (c # cs) l s] [(circuitKey c, EvAllow now ok)] ?r1 [Calling c now cs l s]"
      using asked Some True by simp
    obtain out v' where out: "client v (req\<lparr>pr_Model := rc_modelName c\<rparr>) = (out, v')" by fastforce
    show ?thesis
    proof (cases out)
      case (Inr resp)
      then have "a = Succeeded resp" "r1 = put_circuit ?r1 c (cb_RecordSuccess b1)"
        using assms(1) True out by (simp_all add: attempt_route_def Some e n al)
      moreover have "conc_step ?r1 [Calling c now cs l s] [(circuitKey c, EvSuccess)]
          (put_circuit ?r1 c (cb_RecordSuccess b1)) [Ended (Finished (Inr resp))]"
        using answered [where i = 0 and ps = "[Calling c now cs l s]" and r = ?r1 and b = b1 and resp = resp] by simp
      ultimately show ?thesis using conc_run_two [OF calling] assms(3) by auto
    next
      case (Inl err0)
      let ?err = "err0\<lparr>ue_Provider := rc_providerName c, ue_Model := rc_modelName c\<rparr>"
      have a: "a = Failed ?err" "r1 = put_circuit ?r1 c
          (if shouldTripCircuit (Some ?err) then cb_RecordFailure b1 now else cb_RecordSuccess b1)"
        using assms(1) True out Inl by (simp_all add: attempt_route_def Some e n al Let_def)
      have "\<exists>es. conc_step ?r1 [Calling c now cs l s] es r1
          [if shouldFallback (Some ?err) then Trying cs (Some ?err) s else Ended (Finished (Inl ?err))]"
      proof (cases "shouldTripCircuit (Some ?err)")
        case True
        then show ?thesis
          using tripped [where i = 0 and ps = "[Calling c now cs l s]" and r = ?r1 and b = b1 and err = ?err] \<open>now \<noteq> 0\<close> a(2) by auto
      next
        case False
        then show ?thesis
          using refused [where i = 0 and ps = "[Calling c now cs l s]" and r = ?r1 and b = b1 and err = ?err] a(2) by auto
      qed
      then obtain es1 where step: "conc_step ?r1 [Calling c now cs l s] es1 r1
          [if shouldFallback (Some ?err) then Trying cs (Some ?err) s else Ended (Finished (Inl ?err))]" by blast
      have "\<exists>es. conc_run r1
          [if shouldFallback (Some ?err) then Trying cs (Some ?err) s else Ended (Finished (Inl ?err))] es r' ps'"
        using assms(3) unfolding a(1) attempt.case .
      then show ?thesis by (rule conc_run_two [OF calling step])
    qed
  qed
qed

text \<open>
  The loop of \<open>RegistryChat\<close> is what a request alone does, so the two models agree.
\<close>

lemma route_loop_conc:
  assumes "route_loop sys r req cs l s w = (res, r', w')" and "\<And>w. fst (registry_now sys r w) \<noteq> 0"
  shows "\<exists>es. conc_run r [Trying cs l s] es r' [Ended res]"
  using assms
proof (induction cs arbitrary: r l s w)
  case Nil
  then show ?case
    using conc_run_after [OF past_loop [where i = 0 and ps = "[Trying [] l s]" and r = r]] conc_ended [of r "[Ended res]"] by simp
next
  case (Cons c cs)
  obtain a r1 w1 where a: "attempt_route sys r req c w = (a, r1, w1)" by (metis prod_cases3)
  have clock: "fst (registry_now sys r1 w) \<noteq> 0" for w
    using Cons.prems(2) registry_now_frame [OF attempt_route_frame [OF a], of sys] by simp
  show ?case
  proof (rule attempt_route_conc [OF a Cons.prems(2)])
    show "\<exists>es. conc_run r1
      [case a of
         NoClient \<Rightarrow> Trying cs (Some (not_configured_error c)) s
       | Blocked \<Rightarrow> Trying cs l (Suc s)
       | Succeeded resp \<Rightarrow> Ended (Finished (Inr resp))
       | Failed err \<Rightarrow> if shouldFallback (Some err) then Trying cs (Some err) s else Ended (Finished (Inl err))] es r' [Ended res]"
      using Cons.prems(1) Cons.IH [OF _ clock] conc_ended a by (cases a) (auto split: if_splits)
  qed
qed

section \<open>Properties\<close>

text \<open>
  Claim C5. An open route gets no new call, however the requests in flight interleave.  From a
  state in which the breaker of a key opened at \<open>t\<close>, let the requests take any steps among
  which no success of that route is recorded, and in which every instant at which that route was asked for or
  failed is not before \<open>t\<close> and less than the open timeout after it: then every
  request that asks for the route is refused, the requests that wait for its answer at the end are
  among those that waited at the beginning, and the breaker is still open since \<open>t\<close> or later.
\<close>
theorem conc_open_route:
  assumes "conc_run r ps es r' ps'" and "rg_circuits r k = Some b" and "cb_inv b" and "cb_openedAt b = t" and "0 < t"
    and "(k, EvSuccess) \<notin> set es"
    and "\<forall>e u. (k, e) \<in> set es \<and> cb_event_time e = Some u \<longrightarrow> t \<le> u \<and> time_sub u t < cb_openTimeout b"
  shows "(\<forall>now ok. (k, EvAllow now ok) \<in> set es \<longrightarrow> \<not> ok) \<and>
    (\<forall>i c now cs l s. i < length ps' \<and> ps' ! i = Calling c now cs l s \<and> circuitKey c = k \<longrightarrow>
       i < length ps \<and> ps ! i = Calling c now cs l s) \<and>
    t \<le> cb_openedAt (breaker_at r' k)"
proof -
  have run: "cb_run b (events_of k es) (breaker_at r' k)"
    using conc_run_breaker [OF assms(1), of k] assms(2) by simp
  have tripped: "cb_tripped_since b t" using assms(3-5) by (simp add: cb_tripped_since_def)
  have no_success: "EvSuccess \<notin> set (events_of k es)" using assms(6) by (simp add: events_of_set)
  have window: "t \<le> u \<and> time_sub u t < cb_openTimeout b"
    if "e \<in> set (events_of k es)" "cb_event_time e = Some u" for e u
    using assms(7) that by (auto simp: events_of_set)
  have no: "\<not> ok" if "(k, EvAllow now ok) \<in> set es" for now ok
    by (rule cb_run_tripped [OF run tripped no_success window]) (use that in \<open>simp_all add: events_of_set\<close>)
  then have refused: "\<forall>now ok. (k, EvAllow now ok) \<in> set es \<longrightarrow> \<not> ok" by blast
  have waits: "i < length ps \<and> ps ! i = Calling c now cs l s"
    if "i < length ps' \<and> ps' ! i = Calling c now cs l s \<and> circuitKey c = k" for i c now cs l s
    using conc_run_calling [OF assms(1), of i c now cs l s] that no by blast
  then have waiting: "\<forall>i c now cs l s. i < length ps' \<and> ps' ! i = Calling c now cs l s \<and> circuitKey c = k \<longrightarrow>
       i < length ps \<and> ps ! i = Calling c now cs l s" by blast
  have still: "cb_tripped_since (breaker_at r' k) t" by (rule cb_run_still_tripped [OF run tripped no_success window])
  show ?thesis
    by (rule conjI [OF refused conjI [OF waiting]]) (use still in \<open>simp add: cb_tripped_since_def\<close>)
qed

theorem conc_open_route_witness:
  "\<exists>r' ps'. conc_run (ex_registry 503 (struck 3 5)) [Trying [ex_route] None 0] [(circuitKey ex_route, EvAllow 9 False)] r' ps' \<and>
     5 \<le> cb_openedAt (breaker_at r' (circuitKey ex_route))"
proof -
  let ?r = "ex_registry 503 (struck 3 5)" and ?k = "circuitKey ex_route"
  have client: "rg_providers ?r (rc_providerName ex_route) \<noteq> None"
    using ex_single [of 503 "struck 3 5"] by (simp add: single_route_def)
  have "ensureCircuit ?r ex_route = (struck 3 5, ?r)" by (rule ensureCircuit_known [OF ex_circuit])
  moreover have "cb_Allow (struck 3 5) 9 = (False, struck 3 5)" by (simp add: struck_def cb_ops time_sub_def)
  ultimately have "conc_step ?r [Trying [ex_route] None 0] [(?k, EvAllow 9 False)] (put_circuit ?r ex_route (struck 3 5))
      [Trying [] None (Suc 0)]"
    using ask [where i = 0 and ps = "[Trying [ex_route] None 0]" and c = ex_route and cs = "[]" and l = None
        and s = 0 and r = ?r and b = "struck 3 5" and now = 9 and ok = False] client
    by simp
  from conc_cons [OF this conc_nil] have run: "conc_run ?r [Trying [ex_route] None 0] [(?k, EvAllow 9 False)]
      (put_circuit ?r ex_route (struck 3 5)) [Trying [] None (Suc 0)]" by simp
  have "cb_inv (struck 3 5)" by (simp add: cb_inv_def struck_def is_zero_time_def)
  moreover have "cb_openedAt (struck 3 5) = 5" by (simp add: struck_def)
  ultimately have "5 \<le> cb_openedAt (breaker_at (put_circuit ?r ex_route (struck 3 5)) ?k)"
    using conc_open_route [OF run ex_circuit, of 5] by (simp add: struck_def time_sub_def)
  then show ?thesis using run by blast
qed

end
