(* ===== verification/L1Conc.thy ===== *)
theory L1Conc
  imports L1Cache
begin

text \<open>
  Concurrent calls on one exact cache (\<open>internal/service/cache/l1.go\<close>): each Redis command is
  atomic, but between two commands of one \<open>Set\<close> the commands of other calls run, from this
  process or from another that shares the Redis server.
\<close>

section \<open>Calls in steps\<close>

text \<open>
  Where a caller is: between two calls, or in a \<open>Set\<close>, about to send \<open>HLEN\<close>, \<open>HKEYS\<close>, an
  \<open>HDEL\<close> for each key that is left, \<open>HSET\<close> or \<open>EXPIRE\<close>.
\<close>

datatype set_phase =
    BetweenCalls
  | Counting string string
  | Listing string string
  | Evicting "string list" string string
  | Storing string string
  | Expiring

text \<open>The next command of a caller; one that is between two calls goes on with the given call.\<close>

definition l1_advance ::
  "'w l1_cache \<Rightarrow> 'w redis_ops \<Rightarrow> l1_call \<Rightarrow> set_phase \<Rightarrow> 'w \<Rightarrow> set_phase \<times> 'w" where
  "l1_advance c ops call ph w =
     (let p = l1_keyPrefix c in
      case ph of
        BetweenCalls \<Rightarrow>
          (case call of
             CallSet k v \<Rightarrow> (if l1_maxSize c \<le> 0 then Storing k v else Counting k v, w)
           | _ \<Rightarrow> (BetweenCalls, l1_exec c call w))
      | Counting k v \<Rightarrow>
          (case rd_HLen ops p w of
             (Inl _, w) \<Rightarrow> (Storing k v, w)
           | (Inr n, w) \<Rightarrow> (if n \<ge> l1_maxSize c then Listing k v else Storing k v, w))
      | Listing k v \<Rightarrow>
          (case rd_HKeys ops p w of
             (Inl _, w) \<Rightarrow> (Storing k v, w)
           | (Inr keys, w) \<Rightarrow> (Evicting (take (delete_count (length keys)) keys) k v, w))
      | Evicting [] k v \<Rightarrow> (Storing k v, w)
      | Evicting (f # fs) k v \<Rightarrow> (Evicting fs k v, snd (rd_HDel ops p f w))
      | Storing k v \<Rightarrow>
          (case rd_HSet ops p k v w of
             (e, w) \<Rightarrow> (if e = None then Expiring else BetweenCalls, w))
      | Expiring \<Rightarrow> (BetweenCalls, if l1_ttl c > 0 then snd (rd_Expire ops p (l1_ttl c) w) else w))"

inductive l1_conc ::
  "'w l1_cache \<Rightarrow> 'w redis_ops \<Rightarrow> set_phase list \<times> 'w \<Rightarrow> set_phase list \<times> 'w \<Rightarrow> bool"
  for c :: "'w l1_cache" and ops :: "'w redis_ops" where
  caller: "i < length ps \<Longrightarrow> l1_advance c ops call (ps ! i) w = (ph, w') \<Longrightarrow>
    l1_conc c ops (ps, w) (ps[i := ph], w')"

section \<open>A call that runs alone\<close>

abbreviation alone :: "'w l1_cache \<Rightarrow> 'w redis_ops \<Rightarrow> set_phase \<Rightarrow> 'w \<Rightarrow> set_phase \<Rightarrow> 'w \<Rightarrow> bool" where
  "alone c ops ph w ph' w' \<equiv> (l1_conc c ops)\<^sup>*\<^sup>* ([ph], w) ([ph'], w')"

lemma alone_step:
  "l1_advance c ops call ph w = (ph1, w1) \<Longrightarrow> alone c ops ph1 w1 ph2 w2 \<Longrightarrow> alone c ops ph w ph2 w2"
  using l1_conc.caller [of 0 "[ph]" c ops call w ph1 w1] by (simp add: converse_rtranclp_into_rtranclp)

lemma alone_last: "l1_advance c ops call ph w = (ph1, w1) \<Longrightarrow> alone c ops ph w ph1 w1"
  by (rule alone_step) auto

lemma alone_evict: "alone c ops (Evicting fs k v) w (Storing k v) (del_fields ops (l1_keyPrefix c) fs w)"
proof (induction fs arbitrary: w)
  case Nil
  show ?case by (rule alone_last) (simp add: l1_advance_def)
next
  case (Cons f fs)
  have "l1_advance c ops CallClear (Evicting (f # fs) k v) w = (Evicting fs k v, snd (rd_HDel ops (l1_keyPrefix c) f w))"
    by (simp add: l1_advance_def)
  from alone_step [OF this Cons] show ?case by simp
qed

lemma alone_store:
  "alone c ops (Storing k v) w BetweenCalls
     (snd (case rd_HSet ops (l1_keyPrefix c) k v w of
        (Some e, w) \<Rightarrow> (Some e, w)
      | (None, w) \<Rightarrow> if l1_ttl c > 0 then rd_Expire ops (l1_keyPrefix c) (l1_ttl c) w else (None, w)))"
proof -
  obtain e w1 where set: "rd_HSet ops (l1_keyPrefix c) k v w = (e, w1)" by fastforce
  show ?thesis
  proof (cases e)
    case None
    then have "l1_advance c ops CallClear (Storing k v) w = (Expiring, w1)" using set by (simp add: l1_advance_def)
    moreover have "l1_advance c ops CallClear Expiring w1 =
        (BetweenCalls, if l1_ttl c > 0 then snd (rd_Expire ops (l1_keyPrefix c) (l1_ttl c) w1) else w1)"
      by (simp add: l1_advance_def)
    ultimately have "alone c ops (Storing k v) w BetweenCalls
        (if l1_ttl c > 0 then snd (rd_Expire ops (l1_keyPrefix c) (l1_ttl c) w1) else w1)"
      by (rule alone_step [OF _ alone_last])
    then show ?thesis using None set by (simp split: if_splits)
  next
    case (Some e')
    then have "l1_advance c ops CallClear (Storing k v) w = (BetweenCalls, w1)" using set by (simp add: l1_advance_def)
    from alone_last [OF this] show ?thesis using Some set by simp
  qed
qed

lemma alone_make_room:
  assumes "0 < l1_maxSize c"
  shows "alone c ops (Counting k v) w (Storing k v) (snd (l1_evictIfNeeded c ops w))"
proof -
  let ?p = "l1_keyPrefix c"
  obtain r w1 where len: "rd_HLen ops ?p w = (r, w1)" by fastforce
  show ?thesis
  proof (cases "\<exists>n. r = Inr n \<and> n \<ge> l1_maxSize c")
    case False
    then have "l1_advance c ops CallClear (Counting k v) w = (Storing k v, w1)"
      using len by (cases r) (auto simp: l1_advance_def)
    moreover have "snd (l1_evictIfNeeded c ops w) = w1"
      using False len assms by (cases r) (auto simp: l1_evictIfNeeded_def)
    ultimately show ?thesis by (simp add: alone_last)
  next
    case True
    then obtain n where n: "r = Inr n" "n \<ge> l1_maxSize c" by blast
    have count: "l1_advance c ops CallClear (Counting k v) w = (Listing k v, w1)"
      using len n by (simp add: l1_advance_def)
    obtain s w2 where keys: "rd_HKeys ops ?p w1 = (s, w2)" by fastforce
    have "alone c ops (Listing k v) w1 (Storing k v) (snd (l1_evictIfNeeded c ops w))"
    proof (cases s)
      case (Inl e)
      then have "l1_advance c ops CallClear (Listing k v) w1 = (Storing k v, w2)"
        using keys by (simp add: l1_advance_def)
      moreover have "snd (l1_evictIfNeeded c ops w) = w2"
        using assms len n keys Inl by (simp add: l1_evictIfNeeded_def)
      ultimately show ?thesis by (simp add: alone_last)
    next
      case (Inr ks)
      then have "l1_advance c ops CallClear (Listing k v) w1 =
          (Evicting (take (delete_count (length ks)) ks) k v, w2)" using keys by (simp add: l1_advance_def)
      from alone_step [OF this alone_evict] show ?thesis
        using assms len n keys Inr by (simp add: l1_evictIfNeeded_def)
    qed
    with count show ?thesis by (rule alone_step)
  qed
qed

text \<open>Alone, the steps of a \<open>Set\<close> are \<open>Set\<close>.\<close>

lemma l1_Set_steps:
  assumes "l1_client c = Some ops"
  shows "alone c ops BetweenCalls w BetweenCalls (snd (l1_Set c k v w))"
proof -
  have "alone c ops BetweenCalls w (Storing k v) (snd (l1_evictIfNeeded c ops w))"
  proof (cases "l1_maxSize c \<le> 0")
    case True
    then have "l1_advance c ops (CallSet k v) BetweenCalls w = (Storing k v, w)" by (simp add: l1_advance_def)
    from alone_last [OF this] show ?thesis using True by (simp add: l1_evictIfNeeded_def)
  next
    case False
    then have "l1_advance c ops (CallSet k v) BetweenCalls w = (Counting k v, w)" by (simp add: l1_advance_def)
    from alone_step [OF this alone_make_room] show ?thesis using False by simp
  qed
  from rtranclp_trans [OF this alone_store] show ?thesis using assms by (simp add: l1_Set_def Let_def)
qed

section \<open>The size under concurrency\<close>

text \<open>
  Every caller holds back the store it is about to do, weighed with the number of callers, less
  one for each key that it is about to delete and that is still there.
\<close>

definition held :: "nat \<Rightarrow> (string \<rightharpoonup> string) \<Rightarrow> set_phase \<Rightarrow> nat" where
  "held K h ph =
     (case ph of
        Storing _ _ \<Rightarrow> K
      | Evicting fs _ _ \<Rightarrow> K - card (set fs \<inter> dom h)
      | _ \<Rightarrow> 0)"

definition weight_of :: "(string \<rightharpoonup> string) \<Rightarrow> set_phase list \<Rightarrow> nat" where
  "weight_of h ps = length ps * card (dom h) + sum_list (map (held (length ps) h) ps)"

lemma held_le: "held K h ph \<le> K"
  by (simp add: held_def split: set_phase.split)

lemma sum_held_le: "sum_list (map (held K h) ps) \<le> K * length ps"
  using held_le by (induction ps) (auto intro: add_mono)

lemma weight_small:
  assumes "card (dom h) < n"
  shows "weight_of h ps \<le> length ps * (n - 1 + length ps)"
proof -
  have "length ps * card (dom h) \<le> length ps * (n - 1)" using assms by (intro mult_le_mono) simp_all
  then show ?thesis using sum_held_le [of "length ps" h ps] unfolding weight_of_def distrib_left by linarith
qed

lemma sum_held_change:
  assumes "i < length ps" and "\<And>ph. held K h' ph \<le> held K h ph + d" and "held K h' ph' + a \<le> held K h (ps ! i) + b"
  shows "sum_list (map (held K h') (ps[i := ph'])) + a + d \<le> sum_list (map (held K h) ps) + length ps * d + b"
  using assms
proof (induction ps arbitrary: i)
  case (Cons q ps)
  show ?case
  proof (cases i)
    case 0
    have "sum_list (map (held K h') ps) \<le> sum_list (map (held K h) ps) + length ps * d"
    proof (induction ps)
      case (Cons x xs)
      then show ?case using assms(2) [of x] by simp
    qed simp
    then show ?thesis using 0 Cons.prems(3) by simp
  next
    case (Suc j)
    then show ?thesis using Cons.IH [of j, OF _ assms(2)] Cons.prems(1,3) assms(2) [of q] by simp
  qed
qed simp

lemma held_del: "held K (h(f := None)) ph \<le> held K h ph + 1"
proof -
  have "card (set fs \<inter> dom h) \<le> card (set fs \<inter> (dom h - {f})) + 1" for fs
  proof -
    have "set fs \<inter> dom h \<subseteq> insert f (set fs \<inter> (dom h - {f}))" by blast
    from card_mono [OF _ this] show ?thesis by (simp add: card_insert_if split: if_splits)
  qed
  moreover have "K - y \<le> K - x + 1" if "x \<le> y + 1" for x y :: nat using that by linarith
  ultimately have "K - card (set fs \<inter> (dom h - {f})) \<le> K - card (set fs \<inter> dom h) + 1" for fs by blast
  then show ?thesis by (simp add: held_def split: set_phase.split)
qed

lemma held_put: "held K (h(k \<mapsto> v)) ph \<le> held K h ph"
proof -
  have "card (set fs \<inter> dom h) \<le> card (set fs \<inter> insert k (dom h))" for fs
    by (rule card_mono) auto
  then show ?thesis by (simp add: held_def diff_le_mono2 split: set_phase.split)
qed

text \<open>How a step changes the weight.\<close>

lemma weight_same:
  "i < length ps \<Longrightarrow> held (length ps) h ph \<le> held (length ps) h (ps ! i) \<Longrightarrow> weight_of h (ps[i := ph]) \<le> weight_of h ps"
  using sum_held_change [of i ps "length ps" h h 0 ph 0 0] by (simp add: weight_of_def)

lemma weight_del:
  assumes "i < length ps" and "finite (dom h)"
    and "held (length ps) (h(f := None)) ph \<le> held (length ps) (h(f := None)) (ps ! i)"
  shows "weight_of (h(f := None)) (ps[i := ph]) \<le> weight_of h ps"
proof (cases "f \<in> dom h")
  case False
  then have same: "h(f := None) = h" by auto
  show ?thesis using weight_same [OF assms(1)] assms(3) unfolding same by blast
next
  case True
  have "dom (h(f := None)) = dom h - {f}" by simp
  with card_Suc_Diff1 [OF assms(2) True] have "card (dom h) = Suc (card (dom (h(f := None))))" by metis
  moreover have "sum_list (map (held (length ps) (h(f := None))) (ps[i := ph])) \<le>
      sum_list (map (held (length ps) h) ps) + length ps"
  proof -
    have "held (length ps) (h(f := None)) ph + 0 \<le> held (length ps) h (ps ! i) + 1"
      using order_trans [OF assms(3) held_del] by simp
    from sum_held_change [OF assms(1) held_del this] show ?thesis by (simp only: mult_1_right add_0_right)
  qed
  ultimately show ?thesis by (simp add: weight_of_def)
qed

lemma weight_put:
  assumes "i < length ps" and "finite (dom h)" and "held (length ps) h (ps ! i) = length ps"
    and "held (length ps) (h(k \<mapsto> v)) ph = 0"
  shows "weight_of (h(k \<mapsto> v)) (ps[i := ph]) \<le> weight_of h ps"
proof -
  have "sum_list (map (held (length ps) (h(k \<mapsto> v))) (ps[i := ph])) + length ps \<le> sum_list (map (held (length ps) h) ps)"
    using sum_held_change [of i ps "length ps" "h(k \<mapsto> v)" h 0 ph "length ps" 0] assms held_put by simp
  moreover have "card (dom (h(k \<mapsto> v))) \<le> Suc (card (dom h))" by (simp add: card_insert_le_m1 card_insert_if assms(2))
  then have "length ps * card (dom (h(k \<mapsto> v))) \<le> length ps + length ps * card (dom h)"
    using mult_le_mono2 by (metis mult_Suc_right)
  ultimately show ?thesis by (simp add: weight_of_def)
qed

lemma held_simps [simp]:
  "held K h BetweenCalls = 0" "held K h (Counting k v) = 0" "held K h (Listing k v) = 0" "held K h Expiring = 0"
  "held K h (Storing k v) = K" "held K h (Evicting [] k v) = K"
  by (simp_all add: held_def)

lemma held_rest: "f \<notin> dom h \<Longrightarrow> held K h (Evicting fs k v) = held K h (Evicting (f # fs) k v)"
  by (simp add: held_def)

text \<open>An eviction that lists at least ten times as many keys as there are callers is worth a store.\<close>

lemma held_evict:
  assumes "distinct ks" and "set ks = dom h" and "10 * K \<le> length ks"
  shows "held K h (Evicting (take (delete_count (length ks)) ks) k v) = 0"
proof -
  let ?d = "delete_count (length ks)"
  have "set (take ?d ks) \<inter> dom h = set (take ?d ks)" using set_take_subset [of ?d ks] assms(2) by blast
  moreover have "card (set (take ?d ks)) = min (length ks) ?d"
    using distinct_card [OF distinct_take [OF assms(1)]] by simp
  moreover have "K \<le> ?d" using assms(3) by (auto simp: delete_count_def)
  moreover have "K \<le> length ks" using assms(3) by linarith
  ultimately show ?thesis by (simp add: held_def)
qed

definition weight_ok :: "int \<Rightarrow> (string \<rightharpoonup> string) \<Rightarrow> set_phase list \<Rightarrow> bool" where
  "weight_ok maxSize h ps \<longleftrightarrow> weight_of h ps \<le> length ps * (nat maxSize - 1 + length ps)"

lemma weight_ok_small: "int (card (dom h)) < maxSize \<Longrightarrow> weight_ok maxSize h ps"
  using weight_small [of h "nat maxSize" ps] by (simp add: weight_ok_def)

lemma weight_ok_mono: "weight_of h' ps' \<le> weight_of h ps \<Longrightarrow> length ps' = length ps \<Longrightarrow> weight_ok m h ps \<Longrightarrow> weight_ok m h' ps'"
  by (simp add: weight_ok_def)

lemma l1_conc_weight:
  assumes laws: "hash_laws ops H" and up: "hash_reliable ops" and cl: "l1_client c = Some ops"
    and big: "10 * int (length ps) \<le> l1_maxSize c" and i: "i < length ps"
    and adv: "l1_advance c ops call (ps ! i) w = (ph, w')"
    and ok: "weight_ok (l1_maxSize c) (H w (l1_keyPrefix c)) ps"
  shows "weight_ok (l1_maxSize c) (H w' (l1_keyPrefix c)) (ps[i := ph])"
proof -
  let ?p = "l1_keyPrefix c" and ?K = "length ps" and ?m = "l1_maxSize c"
  have pos: "0 < ?m" using big i by linarith
  have fin: "finite (dom (H u ?p))" for u by (rule hash_laws_elim(1) [OF laws])
  have same: ?thesis if "H w' ?p = H w ?p" "held ?K (H w ?p) ph \<le> held ?K (H w ?p) (ps ! i)"
    using weight_ok_mono [OF weight_same [OF i that(2)] _ ok] that(1) by simp
  have del: ?thesis if "H w' ?p = (H w ?p)(f := None)"
    "held ?K ((H w ?p)(f := None)) ph \<le> held ?K ((H w ?p)(f := None)) (ps ! i)" for f
    using weight_ok_mono [OF weight_del [OF i fin that(2)] _ ok] that(1) by simp
  have put: ?thesis if "H w' ?p = (H w ?p)(k \<mapsto> v)" "held ?K (H w ?p) (ps ! i) = ?K" "ph = BetweenCalls \<or> ph = Expiring" for k v
    using weight_ok_mono [OF weight_put [OF i fin that(2)] _ ok, of k v ph] that(1,3) by fastforce
  show ?thesis
  proof (cases "ps ! i")
    case BetweenCalls
    show ?thesis
    proof (cases call)
      case (CallGet k)
      have "H w' = H w" "ph = BetweenCalls"
        using adv BetweenCalls CallGet cl hash_HGet(1) [OF laws]
        by (auto simp: l1_advance_def l1_Get_def split: prod.splits sum.splits redis_err.splits)
      then show ?thesis using BetweenCalls by (intro same) simp_all
    next
      case (CallSet k v)
      then have "H w' = H w" "ph = Counting k v" using adv BetweenCalls pos by (simp_all add: l1_advance_def)
      then show ?thesis using BetweenCalls by (intro same) simp_all
    next
      case (CallDelete k)
      then have w': "w' = snd (rd_HDel ops ?p k w)" "ph = BetweenCalls"
        using adv BetweenCalls cl by (simp_all add: l1_advance_def l1_Delete_def)
      then have "H w' ?p = H w ?p \<or> H w' ?p = (H w ?p)(k := None)"
        using hash_HDel(2) [OF laws, of ?p k w] by (cases "rd_HDel ops ?p k w") auto
      then show ?thesis using BetweenCalls w'(2) same del by auto
    next
      case CallClear
      then have w': "w' = snd (rd_Del ops [?p] w)" "ph = BetweenCalls"
        using adv BetweenCalls cl by (simp_all add: l1_advance_def l1_Clear_def)
      then have "H w' ?p = H w ?p \<or> H w' ?p = Map.empty"
        using hash_Del(2) [OF laws, of "[?p]" w] by (cases "rd_Del ops [?p] w") auto
      then show ?thesis using BetweenCalls w'(2) same weight_ok_small [of Map.empty] pos by auto
    qed
  next
    case (Counting k v)
    obtain n w1 where len: "rd_HLen ops ?p w = (Inr n, w1)"
      using up by (metis hash_reliable_def prod.collapse sum.collapse(2))
    have n: "n = int (card (dom (H w ?p)))" "H w1 = H w" using hash_HLen [OF laws len] by simp_all
    have w': "w' = w1" "ph = (if n \<ge> ?m then Listing k v else Storing k v)"
      using adv Counting len by (auto simp: l1_advance_def)
    show ?thesis
    proof (cases "n \<ge> ?m")
      case True
      then show ?thesis using Counting w' n by (intro same) simp_all
    next
      case False
      then show ?thesis using w'(1) n by (intro weight_ok_small) simp
    qed
  next
    case (Listing k v)
    obtain ks w1 where keys: "rd_HKeys ops ?p w = (Inr ks, w1)"
      using up by (metis hash_reliable_def prod.collapse sum.collapse(2))
    have ks: "distinct ks" "set ks = dom (H w ?p)" "H w1 = H w" using hash_HKeys [OF laws keys] by simp_all
    have w': "w' = w1" "ph = Evicting (take (delete_count (length ks)) ks) k v"
      using adv Listing keys by (auto simp: l1_advance_def)
    have "length ks = card (dom (H w ?p))" using ks distinct_card by metis
    show ?thesis
    proof (cases "10 * ?K \<le> length ks")
      case True
      show ?thesis using held_evict [OF ks(1,2) True] w' ks(3) by (intro same) simp_all
    next
      case False
      then have "int (card (dom (H w ?p))) < ?m" using big \<open>length ks = _\<close> by linarith
      then show ?thesis using w'(1) ks(3) by (intro weight_ok_small) simp
    qed
  next
    case (Evicting fs k v)
    show ?thesis
    proof (cases fs)
      case Nil
      then have "w' = w" "ph = Storing k v" using adv Evicting by (simp_all add: l1_advance_def)
      then show ?thesis using Evicting Nil by (intro same) simp_all
    next
      case (Cons f fs')
      obtain w1 where d: "rd_HDel ops ?p f w = (None, w1)" using up by (metis hash_reliable_def prod.collapse)
      have w': "w' = w1" "ph = Evicting fs' k v" using adv Evicting Cons d by (simp_all add: l1_advance_def)
      have "H w' ?p = (H w ?p)(f := None)" using hash_HDel(1) [OF laws d] w'(1) by simp
      moreover have "held ?K ((H w ?p)(f := None)) ph \<le> held ?K ((H w ?p)(f := None)) (ps ! i)"
        unfolding Evicting Cons w'(2) by (rule eq_refl, rule held_rest) simp
      ultimately show ?thesis by (rule del)
    qed
  next
    case (Storing k v)
    obtain e w1 where st: "rd_HSet ops ?p k v w = (e, w1)" by fastforce
    have w': "w' = w1" "ph = BetweenCalls \<or> ph = Expiring" using adv Storing st by (auto simp: l1_advance_def split: if_splits)
    have "H w1 ?p = H w ?p \<or> H w1 ?p = (H w ?p)(k \<mapsto> v)" using hash_HSet(2) [OF laws st] by auto
    then show ?thesis using Storing w' same put by auto
  next
    case Expiring
    have "H (snd (rd_Expire ops ?p d w)) = H w" if "0 < d" for d
      using hash_Expire(2) [OF laws that] by (metis prod.collapse)
    then have "H w' = H w" "ph = BetweenCalls" using adv Expiring by (auto simp: l1_advance_def)
    then show ?thesis using Expiring by (intro same) simp_all
  qed
qed

text \<open>
  Claim C19. How far concurrent calls can push the cache past its size.  While at most \<open>callers\<close>
  callers use the cache at once, a tenth of \<open>maxSize\<close> or fewer, and the server answers the
  commands of the eviction, a cache within its bound never holds more than
  \<open>maxSize + callers - 1\<close> entries at any moment, however the commands of any number of \<open>Get\<close>,
  \<open>Set\<close>, \<open>Delete\<close> and \<open>Clear\<close> interleave; a single caller stays within \<open>maxSize\<close>.
\<close>
theorem l1_concurrent_bound:
  assumes "hash_laws ops H" and "hash_reliable ops" and "l1_client c = Some ops"
    and "0 < callers" and "10 * int callers \<le> l1_maxSize c"
    and "int (card (dom (H w (l1_keyPrefix c)))) \<le> l1_maxSize c"
    and "(l1_conc c ops)\<^sup>*\<^sup>* (replicate callers BetweenCalls, w) (ps, w')"
  shows "int (card (dom (H w' (l1_keyPrefix c)))) \<le> l1_maxSize c + int callers - 1"
proof -
  let ?p = "l1_keyPrefix c"
  have "weight_of (H w ?p) (replicate callers BetweenCalls) = callers * card (dom (H w ?p))"
    by (simp add: weight_of_def sum_list_replicate)
  moreover have "callers * card (dom (H w ?p)) \<le> callers * (nat (l1_maxSize c) - 1 + callers)"
    using assms(4,6) by (intro mult_le_mono) linarith+
  ultimately have start: "weight_ok (l1_maxSize c) (H w ?p) (replicate callers BetweenCalls)"
    by (simp add: weight_ok_def)
  have "length ps = callers \<and> weight_ok (l1_maxSize c) (H w' ?p) ps"
    using assms(7)
  proof (induction rule: rtranclp_induct2)
    case refl
    then show ?case using start by simp
  next
    case (step ps w ps' w')
    from step.hyps(2) step.IH show ?case
      using l1_conc_weight [OF assms(1-3)] assms(5) by (auto elim!: l1_conc.cases)
  qed
  then have "callers * card (dom (H w' ?p)) \<le> callers * (nat (l1_maxSize c) - 1 + callers)"
    unfolding weight_ok_def weight_of_def by (metis add_leD1)
  then have "card (dom (H w' ?p)) \<le> nat (l1_maxSize c) - 1 + callers" using assms(4) by simp
  then show ?thesis using assms(4,5) by linarith
qed

section \<open>Runs\<close>

text \<open>A schedule names the caller of each step, and its call when it is between two calls.\<close>

definition l1_schedule ::
  "'w l1_cache \<Rightarrow> 'w redis_ops \<Rightarrow> (nat \<times> l1_call) list \<Rightarrow> set_phase list \<times> 'w \<Rightarrow> set_phase list \<times> 'w" where
  "l1_schedule c ops steps st =
     foldl (\<lambda>(ps, w) (i, call). case l1_advance c ops call (ps ! i) w of (ph, w) \<Rightarrow> (ps[i := ph], w)) st steps"

lemma l1_schedule_reach:
  "list_all (\<lambda>(i, _). i < length (fst st)) steps \<Longrightarrow> (l1_conc c ops)\<^sup>*\<^sup>* st (l1_schedule c ops steps st)"
proof (induction steps arbitrary: st)
  case (Cons x steps)
  obtain i call ps w where x: "x = (i, call)" "st = (ps, w)" by fastforce
  obtain ph w1 where adv: "l1_advance c ops call (ps ! i) w = (ph, w1)" by fastforce
  then have "l1_conc c ops st (ps[i := ph], w1)" using Cons.prems x by (auto intro: l1_conc.caller)
  moreover have "(l1_conc c ops)\<^sup>*\<^sup>* (ps[i := ph], w1) (l1_schedule c ops steps (ps[i := ph], w1))"
    using Cons.prems x by (intro Cons.IH) simp
  ultimately show ?case using x adv by (simp add: l1_schedule_def converse_rtranclp_into_rtranclp)
qed (simp add: l1_schedule_def)

text \<open>Two callers in lock step, each storing the given key.\<close>

definition lock_step :: "string \<Rightarrow> string \<Rightarrow> nat \<Rightarrow> (nat \<times> l1_call) list" where
  "lock_step k1 k2 n = concat (replicate n [(0, CallSet k1 ''1''), (1, CallSet k2 ''2'')])"

definition ex_l1_20 :: "mem l1_cache" where
  "ex_l1_20 = ex_l1\<lparr>l1_maxSize := 20\<rparr>"

theorem l1_concurrent_bound_witness:
  "\<exists>ps w'. l1_schedule ex_l1_20 mem_redis (lock_step ''a'' ''b'' 4) ([BetweenCalls, BetweenCalls], mem_empty) = (ps, w') \<and>
     int (card (dom (mem_H w' (l1_keyPrefix ex_l1_20)))) \<le> 21"
proof -
  let ?st = "([BetweenCalls, BetweenCalls], mem_empty)"
  obtain ps w' where run: "l1_schedule ex_l1_20 mem_redis (lock_step ''a'' ''b'' 4) ?st = (ps, w')" by fastforce
  have "list_all (\<lambda>(i, _). i < length (fst ?st)) (lock_step ''a'' ''b'' 4)" by code_simp
  from l1_schedule_reach [OF this] have "(l1_conc ex_l1_20 mem_redis)\<^sup>*\<^sup>* (replicate 2 BetweenCalls, mem_empty) (ps, w')"
    unfolding run [symmetric] by (simp add: numeral_2_eq_2)
  moreover have "hash_reliable mem_redis" by (simp add: hash_reliable_def mem_redis_def)
  moreover have "l1_client ex_l1_20 = Some mem_redis" "l1_maxSize ex_l1_20 = 20"
    by (simp_all add: ex_l1_20_def ex_l1_sel)
  moreover have "dom (mem_H mem_empty k) = {}" for k by (simp add: mem_H_def mem_hash_def mem_empty_def)
  ultimately show ?thesis
    using l1_concurrent_bound [OF mem_hash_laws, of ex_l1_20 2 mem_empty ps w'] run by (intro exI conjI) simp_all
qed

text \<open>
  Below ten entries per caller the bound does not hold: two callers in lock step list the same
  keys and delete the same one, so that each round adds an entry.  A cache for two entries comes
  to hold four.
\<close>

lemma l1_drift:
  "length (mem_hash (snd (l1_schedule ex_l1 mem_redis
     (lock_step ''a'' ''b'' 4 @ lock_step ''c'' ''d'' 7 @ lock_step ''e'' ''f'' 7) ([BetweenCalls, BetweenCalls], mem_empty)))
     (l1_keyPrefix ex_l1)) = 4"
  by code_simp

end
