(* ===== verification/Spec2Isabelle.thy ===== *)
theory Spec2Isabelle
  imports Lifecycle LoadTest RegistryConc L1Conc
begin

text \<open>
  Verification development for the LLM gateway, a Go service that puts an OpenAI-compatible
  HTTP interface (\<open>/v1/chat/completions\<close>, \<open>/v1/embeddings\<close>) in front of several upstream
  providers.

  \<^bold>\<open>The program.\<close>  A request to \<open>/v1/chat/completions\<close> goes through the check of its API key
  (\<open>internal/middleware/auth.go\<close>, metadata in Redis) and the rate limit
  (\<open>internal/middleware/ratelimit.go\<close>) to the handler (\<open>internal/handler/chat.go\<close>).  The handler
  binds and validates the body, applies the routing policy of the workflow phase, looks into
  the exact cache (\<open>internal/service/cache/l1.go\<close>), then, with a vector from the embedding
  worker (\<open>internal/service/embeddingworker/client.go\<close>), into the semantic cache
  (\<open>internal/service/cache/l2.go\<close>), and at last asks the provider registry
  (\<open>internal/service/provider/registry.go\<close>), which tries the routes of the model and of its
  fallbacks in weighted random order, each behind a circuit breaker
  (\<open>internal/service/circuitbreaker.go\<close>), with one HTTP call per route
  (\<open>internal/service/provider/http_provider.go\<close>).  A deferred function leaves a metric
  (\<open>internal/service/stats.go\<close>), a row of the request log (\<open>internal/storage/postgres.go\<close>) and a
  workflow trace (\<open>internal/service/workflow.go\<close>).  \<open>/v1/embeddings\<close>
  (\<open>internal/handler/embedding.go\<close>) is the same around one call of the worker.  The admin routes
  (\<open>internal/handler/admin.go\<close>) read and write the stores, and \<open>cmd/server/main.go\<close> builds all of
  it from the configuration (\<open>internal/config/config.go\<close>).

  \<^bold>\<open>How the code is modelled.\<close>  A struct is a record with the source's fields, a function with
  state takes and returns the state, and whatever lies outside of the repository (Redis, SQL,
  HTTP, files, clocks, random numbers, zap, OpenTelemetry) is a record of functions on a world
  of type \<open>'w\<close>, passed as an argument and threaded through in the order of the calls.  A Go
  error is the left part of a sum or an option, a panic a constructor of its own (\<open>go\<close> in L2Cache,
  \<open>ChatPanic\<close>, \<open>EmbPanic\<close>).  An \<open>int\<close> or \<open>int64\<close> that is added to is wrapped with \<open>wrap64\<close>; a
  \<open>float64\<close> is a rational that every operation rounds to binary64; a string is a list of bytes.

  \<^bold>\<open>The theories\<close>, from the bottom up.

  \<^item> Prelude, GoStrings, GoTime, Float64, FloatText, Json, JsonRoundtrip, Sha256, Http, Redis: the
    parts of Go's standard library that the code uses, as definitions, and of Redis and the
    HTTP client as records of operations with the laws of a server (\<open>hash_laws\<close>,
    \<open>string_laws\<close>); Redis also holds \<open>internal/storage/redis.go\<close>.  Their lemmas give the
    monotonicity and the error of rounding, the round trip of the JSON text, and what commands
    read and change.

  \<^item> Config, GatewayErrors, ProviderTypes: the configuration with \<open>Load\<close> and its environment
    overrides, the error table of \<open>pkg/errors/errors.go\<close>, and the provider types.

  \<^item> CircuitBreaker: the breaker, its invariant, the abstract two-state machine that it refines
    under every interleaving of calls (\<open>cb_step\<close>, \<open>cb_run\<close>), and the locale \<open>breaker_iface\<close> of what
    its clients rely on, interpreted on the code's breaker.

  \<^item> Registry, RegistryChat: the routing tables, the fallback chain, the weighted draw and the
    route queue; then the loop over the queue.  Their lemmas say which routes are tried in
    which order, that each draw is proportional to the weights, which answers a request can get,
    what happens to the breakers, and when an outage is cut off: three quick failures do it, calls that
    end by the timeout of the HTTP client never do.

  \<^item> RegistryConc: the same loop cut at the calls of the breakers, as a step relation over the
    requests in flight; every breaker sees a run of its calls, and the loop of RegistryChat is what a
    request alone does.

  \<^item> Stats, Workflow, Postgres: the usage counters against the counts of the events, the
    incremental session summaries against a reference computed from all traces, the
    normal form of a trace and its line in the replay file, and the statements sent to the
    database (with \<open>internal/handler/request_log.go\<close>).

  \<^item> RateLimit: the token bucket on floating-point numbers, with bounds on what it admits that
    include the rounding; the Redis window; the middleware over the buckets.

  \<^item> Auth, Admin: the key check with the CORS and admin middleware, and the admin handlers.

  \<^item> L1Cache, L2Cache: both caches over the hashes and strings of a Redis server: size, what is
    found after a store, what is evicted, and the best match of a search.

  \<^item> L1Conc: the calls on the exact cache cut at their Redis commands, as a step relation over any
    number of callers; a call that runs alone is the call of L1Cache, and the number of entries is
    bounded by the size and the number of callers.

  \<^item> EmbeddingWorker, HttpProvider: the two HTTP clients, with the log of what they send
    (\<open>logged\<close>) in the statements.

  \<^item> ChatCore, Gateway, Chat, ChatCache, Embedding: the parts of the chat handler, what both
    handlers share (\<open>account\<close>), the two handlers, and the chat handler in front of its caches.
    The locale \<open>accounted_endpoint\<close> of Gateway is the contract of an endpoint that leaves one metric
    and one trace for a request; it is interpreted on both handlers, on the two pipelines and on all routes, and
    its lemmas carry the contract over sequences of requests.

  \<^item> Telemetry, Server, Router: the logger, the OpenTelemetry options and the request spans
    (\<open>internal/middleware/logging.go\<close>, \<open>internal/telemetry/otel.go\<close>,
    \<open>internal/middleware/tracing.go\<close>), and \<open>main\<close> up to the listener with the two pipelines of
    \<open>/v1\<close>; Router has the table of all routes, with what clients see of the statistics and the
    sessions after any sequence of requests.

  \<^item> Lifecycle: the rest of \<open>main\<close>, from the listener on, as a step relation: connections, requests,
    the signal, \<open>Shutdown\<close> with its deadline and the deferred calls; what a process that has ended
    with each status has answered and closed, and that it ends after the signal.

  \<^item> LoadTest: \<open>scripts/loadtest/main.go\<close>, its goroutines and channels as a step relation, and
    its report.

  \<^bold>\<open>Bounds and fuel.\<close>  The JSON parser carries a fuel of twice the length of the text plus two:
    every call but the last of a chain of two uses up a byte, and JsonRoundtrip proves it enough for
    every text the encoder writes; the nesting bound of 10000 is the library's.  The retry loop of
    the worker recurses on the attempts that are left, the fallback chain on the models
    not yet seen, so neither needs fuel; the load test's runs have a length that is computed.

  \<^bold>\<open>Assumptions about what is not in the repository.\<close>  \<open>hash_laws\<close> and \<open>string_laws\<close> say
    that a Redis command that succeeds does what it is documented to do and one that fails changes
    nothing or did it all the same; some statements add that Redis answers (\<open>hash_up\<close>), or that calls
    to other services leave its hashes alone (\<open>env_keeps\<close>).  Clocks and random sources are
    arbitrary unless a statement says otherwise.  Each such hypothesis is met by a concrete
    instance in the theorem that follows the statement.

  \<^bold>\<open>Not modelled.\<close>  Spans and log lines inside the handlers; writing to the gin context (the reply
    is the returned value, with the data of its JSON body); cancellation of a request's context other
    than as an error of the call that sees it; interleaving inside a
    method other than in RegistryConc and L1Conc: the other methods that change shared state hold
    a lock throughout, but for those that write to the semantic cache in several commands and for
    the maps of the registry, which the code reads and writes without a lock; lower-casing of letters beyond
    ASCII, the sign of zero and the order of a clock's readings within one call; the parsing of
    flags and of the \<open>.env\<close> file; the printing of the load test.  \<open>model.go\<close>, \<open>router.go\<close> and
    \<open>tiktoken.go\<close> hold a package clause only.
\<close>

end
